(* ===== verification/Go_Prelude.thy ===== *)
theory Go_Prelude
  imports
    Main
    "HOL-Library.Word"
    "HOL-Library.Signed_Division"
    "HOL-Library.Multiset"
    "HOL-Library.AList"
    "HOL-Library.State_Monad"
begin

section \<open>What the program uses of Go\<close>

text \<open>
  The parts of Go that every component of Aviator relies on:
  signed machine integers (\<open>int\<close>, \<open>int32\<close>, \<open>int64\<close>, \<open>time.Duration\<close>) as words read in two's
  complement, error values, instants and the clock, maps with their unspecified iteration order,
  \<open>sort.Slice\<close> with its unspecified order of ties, slicing and indexing with their panics, and
  decimal formatting.

  Two sources of nondeterminism are explicit values of the model: the readings of the clock and
  the choices of the Go runtime (iteration order, order of ties).  Both are streams in the record
  \<open>runtime\<close>, threaded by the state monad, so a statement about all runtimes is a statement about
  every clock and every choice.
\<close>

named_theorems go_eval \<open>rules that evaluate closed terms of the model\<close>
named_theorems go_runs \<open>what running a monadic operation returns and which state it leaves\<close>

subsection \<open>Signed integers\<close>

text \<open>
  \<open>'a go_int\<close> is a Go signed integer of width \<open>LENGTH('a)\<close>: arithmetic wraps, comparisons are on
  the two's complement value.  It is a commutative ring and a linear order, so numerals, sums and
  the sorting functions of the library apply to it.
\<close>

typedef (overloaded) 'a go_int = "UNIV :: 'a::len word set"
  morphisms bits GoInt
  by simp

setup_lifting type_definition_go_int

lemma bits_GoInt [code]: "bits (GoInt w) = w"
  by (simp add: GoInt_inverse)

definition sval :: "'a::len go_int \<Rightarrow> int" where
  "sval x = sint (bits x)"

instantiation go_int :: (len) comm_ring_1
begin

lift_definition zero_go_int :: "'a go_int" is 0 .
lift_definition one_go_int :: "'a go_int" is 1 .
lift_definition plus_go_int :: "'a go_int \<Rightarrow> 'a go_int \<Rightarrow> 'a go_int" is "(+)" .
lift_definition minus_go_int :: "'a go_int \<Rightarrow> 'a go_int \<Rightarrow> 'a go_int" is "(-)" .
lift_definition uminus_go_int :: "'a go_int \<Rightarrow> 'a go_int" is uminus .
lift_definition times_go_int :: "'a go_int \<Rightarrow> 'a go_int \<Rightarrow> 'a go_int" is "(*)" .

instance
  by standard (transfer; simp add: algebra_simps)+

end

instantiation go_int :: (len) equal
begin

definition equal_go_int :: "'a go_int \<Rightarrow> 'a go_int \<Rightarrow> bool" where
  "equal_go_int x y \<longleftrightarrow> bits x = bits y"

instance
  by standard (simp add: equal_go_int_def bits_inject)

end

instantiation go_int :: (len) linorder
begin

definition less_eq_go_int :: "'a go_int \<Rightarrow> 'a go_int \<Rightarrow> bool" where
  "x \<le> y \<longleftrightarrow> sval x \<le> sval y"
definition less_go_int :: "'a go_int \<Rightarrow> 'a go_int \<Rightarrow> bool" where
  "x < y \<longleftrightarrow> sval x < sval y"

instance
proof
  fix x y :: "'a go_int"
  assume "x \<le> y" and "y \<le> x"
  then have "bits x = bits y"
    by (simp add: less_eq_go_int_def sval_def word_eq_iff_signed [where ?'a = int])
  then show "x = y" by (simp add: bits_inject)
qed (auto simp: less_eq_go_int_def less_go_int_def)

end

type_synonym int32 = "32 go_int"
type_synonym int64 = "64 go_int"

text \<open>\<open>time.Duration\<close> is an \<open>int64\<close> count of nanoseconds, Go's \<open>int\<close> is 64 bits wide.\<close>

type_synonym duration = int64

lemma bits_simps [simp]:
  fixes x y :: "'a::len go_int"
  shows "bits (0 :: 'a go_int) = 0" and "bits (1 :: 'a go_int) = 1"
    and "bits (x + y) = bits x + bits y" and "bits (x - y) = bits x - bits y"
    and "bits (- x) = - bits x" and "bits (x * y) = bits x * bits y"
  by (simp_all add: zero_go_int.rep_eq one_go_int.rep_eq plus_go_int.rep_eq minus_go_int.rep_eq
      uminus_go_int.rep_eq times_go_int.rep_eq)

lemma bits_of_nat [simp]: "bits (of_nat n :: 'a::len go_int) = of_nat n"
  by (induction n) simp_all

lemma bits_numeral [simp]: "bits (numeral n :: 'a::len go_int) = numeral n"
  by (metis bits_of_nat of_nat_numeral)

lemma bits_of_int [simp]: "bits (of_int k :: 'a::len go_int) = of_int k"
  by (cases k rule: int_cases2) simp_all

lemma sval_eq_iff [simp]: "sval x = sval y \<longleftrightarrow> x = y"
  by (simp add: sval_def bits_inject flip: word_eq_iff_signed [where ?'a = int])

lemma sval_of_int [simp]:
  "sval (of_int k :: 'a::len go_int) = signed_take_bit (LENGTH('a) - 1) k"
  by (simp add: sval_def signed_of_int)

lemma sval_of_nat: "sval (of_nat n :: 'a::len go_int) = signed_take_bit (LENGTH('a) - 1) (int n)"
  by (metis of_int_of_nat_eq sval_of_int)

lemma of_int_sval [simp]: "of_int (sval x) = x"
proof -
  have "bits (of_int (sval x)) = bits x" by (subst bits_of_int) (simp add: sval_def)
  then show ?thesis by (simp only: bits_inject)
qed

lemma sval_0 [simp]: "sval (0 :: 'a::len go_int) = 0"
  by (simp add: sval_def)

lemma sval_numeral [go_eval]: "sval (numeral n :: 'a::len go_int) = sint (numeral n :: 'a word)"
  by (simp add: sval_def)

lemma sval_neg_numeral [go_eval]:
  "sval (- numeral n :: 'a::len go_int) = sint (- numeral n :: 'a word)"
  by (simp add: sval_def)

lemma sval_1 [simp]: "1 < LENGTH('a) \<Longrightarrow> sval (1 :: 'a::len go_int) = 1"
  by (simp add: sval_def)

declare less_eq_go_int_def [go_eval] less_go_int_def [go_eval]

lemma go_eq_numeral [go_eval]:
  "(numeral m :: 'a::len go_int) = numeral n \<longleftrightarrow> (numeral m :: 'a word) = numeral n"
  "(numeral m :: 'a go_int) = 0 \<longleftrightarrow> (numeral m :: 'a word) = 0"
  "(0 :: 'a go_int) = numeral n \<longleftrightarrow> (0 :: 'a word) = numeral n"
  "(numeral m :: 'a go_int) = 1 \<longleftrightarrow> (numeral m :: 'a word) = 1"
  "(1 :: 'a go_int) = numeral n \<longleftrightarrow> (1 :: 'a word) = numeral n"
  by (simp_all flip: bits_inject)

text \<open>Clamping from above, as the code writes it.\<close>

lemma sval_clamp: "sval (if y < x then y else x) = min (sval x) (sval y)"
  by (simp add: less_go_int_def min_def)

text \<open>A value in range is represented exactly; the width-specific forms serve the components.\<close>

lemma signed_take_bit_in_range:
  "- (2 ^ n) \<le> k \<Longrightarrow> k < 2 ^ n \<Longrightarrow> signed_take_bit n k = (k :: int)"
  by (simp add: signed_take_bit_int_eq_self)

lemma sval_of_nat_64: "n < 2 ^ 63 \<Longrightarrow> sval (of_nat n :: int64) = int n"
  by (simp add: sval_of_nat signed_take_bit_in_range)

lemma sval_of_int_64: "- (2 ^ 63) \<le> k \<Longrightarrow> k < 2 ^ 63 \<Longrightarrow> sval (of_int k :: int64) = k"
  by (simp add: signed_take_bit_in_range)

lemma sval_range_64: "- (2 ^ 63) \<le> sval (x :: int64)" "sval (x :: int64) < 2 ^ 63"
  using sint_range_size [of "bits x"] by (simp_all add: sval_def word_size)

lemma sval_range_32: "- (2 ^ 31) \<le> sval (x :: int32)" "sval (x :: int32) < 2 ^ 31"
  using sint_range_size [of "bits x"] by (simp_all add: sval_def word_size)

lemma sval_add: "sval (x + y :: 'a::len go_int) = signed_take_bit (LENGTH('a) - 1) (sval x + sval y)"
  by (metis of_int_add of_int_sval sval_of_int)

lemma sval_mult: "sval (x * y :: 'a::len go_int) = signed_take_bit (LENGTH('a) - 1) (sval x * sval y)"
  by (metis of_int_mult of_int_sval sval_of_int)

lemma sval_add_64:
  "- (2 ^ 63) \<le> sval x + sval y \<Longrightarrow> sval x + sval y < 2 ^ 63 \<Longrightarrow> sval (x + y :: int64) = sval x + sval y"
  by (simp add: sval_add signed_take_bit_in_range)

lemma sval_add_32:
  "- (2 ^ 31) \<le> sval x + sval y \<Longrightarrow> sval x + sval y < 2 ^ 31 \<Longrightarrow> sval (x + y :: int32) = sval x + sval y"
  by (simp add: sval_add signed_take_bit_in_range)

lemma sval_succ_32: "x < y \<Longrightarrow> sval (x + 1 :: int32) = sval x + 1"
  using sval_range_32 [of x] sval_range_32 [of y]
  by (subst sval_add_32) (simp_all add: less_go_int_def)

lemma sval_mult_64:
  "- (2 ^ 63) \<le> sval x * sval y \<Longrightarrow> sval x * sval y < 2 ^ 63 \<Longrightarrow> sval (x * y :: int64) = sval x * sval y"
  by (simp add: sval_mult signed_take_bit_in_range)

text \<open>Go's conversions between integer types and its truncating division.\<close>

definition go_conv :: "'a::len go_int \<Rightarrow> 'b::len go_int" where
  "go_conv x = of_int (sval x)"

definition go_div :: "'a::len go_int \<Rightarrow> 'a go_int \<Rightarrow> 'a go_int" where
  "go_div x y = of_int (sval x sdiv sval y)"

lemma sval_go_conv_32_64 [simp]: "sval (go_conv (x :: int32) :: int64) = sval x"
proof -
  have "- (2 ^ 63) \<le> sval x" "sval x < 2 ^ 63"
    using sval_range_32 [of x] by simp_all
  then show ?thesis by (simp add: go_conv_def signed_take_bit_in_range)
qed

lemma sdiv_nonneg: "0 \<le> a \<Longrightarrow> 0 < b \<Longrightarrow> a sdiv b = a div (b :: int)"
  by (cases "a = 0") (simp_all add: signed_divide_int_def sgn_if)

lemma sval_go_div_64:
  fixes x y :: int64
  assumes "0 \<le> sval x" and "0 < sval y"
  shows "sval (go_div x y) = sval x div sval y"
proof -
  have "sval x div sval y \<le> sval x" and "0 \<le> sval x div sval y"
    using assms by (cases "sval x = 0"; simp add: int_div_le_self pos_imp_zdiv_nonneg_iff)+
  moreover have "sval x < 2 ^ 63" by (rule sval_range_64)
  ultimately show ?thesis
    using assms by (simp add: go_div_def sdiv_nonneg signed_take_bit_in_range)
qed

text \<open>\<open>len(xs)\<close>, a Go \<open>int\<close>. Every slice of a running program is shorter than \<open>2 ^ 63\<close>.\<close>

abbreviation go_len :: "'a list \<Rightarrow> int64" where
  "go_len xs \<equiv> of_nat (length xs)"

abbreviation go_sized :: "'a list \<Rightarrow> bool" where
  "go_sized xs \<equiv> length xs < 2 ^ 63"

subsection \<open>Slicing and indexing\<close>

text \<open>\<open>xs[i]\<close> and \<open>xs[:n]\<close>; \<open>None\<close> is the run-time panic.\<close>

definition go_index :: "'a list \<Rightarrow> int64 \<Rightarrow> 'a option" where
  "go_index xs i = (if 0 \<le> sval i \<and> sval i < int (length xs) then Some (xs ! nat (sval i)) else None)"

definition go_slice_to :: "'a list \<Rightarrow> int64 \<Rightarrow> 'a list option" where
  "go_slice_to xs n =
     (if 0 \<le> sval n \<and> sval n \<le> int (length xs) then Some (take (nat (sval n)) xs) else None)"

lemma go_slice_to_of_nat:
  "n \<le> length xs \<Longrightarrow> n < 2 ^ 63 \<Longrightarrow> go_slice_to xs (of_nat n) = Some (take n xs)"
  by (simp add: go_slice_to_def sval_of_nat_64)

lemma go_index_of_nat:
  "n < length xs \<Longrightarrow> n < 2 ^ 63 \<Longrightarrow> go_index xs (of_nat n) = Some (xs ! n)"
  by (simp add: go_index_def sval_of_nat_64)

subsection \<open>Errors\<close>

text \<open>
  \<open>ApiError\<close> is a status error of the Kubernetes API machinery, of which the program asks only
  whether its reason is \<open>NotFound\<close>; \<open>Errorf\<close> and \<open>Wrap\<close> are \<open>fmt.Errorf\<close> without and with \<open>%w\<close>.
\<close>

datatype go_error =
    NotFoundError string
  | ApiError string
  | Errorf string
  | Wrap string go_error

fun err_msg :: "go_error \<Rightarrow> string" where
  "err_msg (NotFoundError m) = m"
| "err_msg (ApiError m) = m"
| "err_msg (Errorf m) = m"
| "err_msg (Wrap p e) = p @ '': '' @ err_msg e"

text \<open>\<open>errors.IsNotFound\<close> looks through wrapped errors.\<close>

fun is_not_found :: "go_error \<Rightarrow> bool" where
  "is_not_found (NotFoundError m) = True"
| "is_not_found (ApiError m) = False"
| "is_not_found (Errorf m) = False"
| "is_not_found (Wrap p e) = is_not_found e"

subsection \<open>Instants\<close>

text \<open>
  \<open>time.Time\<close> as nanoseconds since the Unix epoch, read from a clock that never goes back (Go keeps
  a monotonic reading in every value of \<open>time.Now\<close>). \<open>time.Sub\<close> saturates at the ends of \<open>int64\<close>.
\<close>

type_synonym time = int

definition zero_time :: time where
  "zero_time = - 62135596800 * 10 ^ 9"

definition time_sub :: "time \<Rightarrow> time \<Rightarrow> duration" where
  "time_sub t u = of_int (max (- (2 ^ 63)) (min (2 ^ 63 - 1) (t - u)))"

lemma sval_time_sub: "sval (time_sub t u) = max (- (2 ^ 63)) (min (2 ^ 63 - 1) (t - u))"
  unfolding time_sub_def by (rule sval_of_int_64) simp_all

abbreviation millisecond :: duration where "millisecond \<equiv> 1000000"
abbreviation microsecond :: duration where "microsecond \<equiv> 1000"
abbreviation second :: duration where "second \<equiv> 1000000000"

text \<open>\<open>Duration.Milliseconds()\<close>.\<close>

definition milliseconds :: "duration \<Rightarrow> int64" where
  "milliseconds d = go_div d millisecond"

subsection \<open>The runtime: clock readings and unspecified choices\<close>

record runtime =
  clock :: "nat \<Rightarrow> time"
  choice :: "nat \<Rightarrow> nat list"

definition monotonic :: "'x runtime_scheme \<Rightarrow> bool" where
  "monotonic rt \<longleftrightarrow> mono (clock rt)"

abbreviation ret :: "'a \<Rightarrow> ('s, 'a) state" where
  "ret \<equiv> State_Monad.return"

text \<open>\<open>time.Now()\<close> takes the next reading, \<open>next_choice\<close> the next choice of the runtime.\<close>

definition now :: "('x runtime_scheme, time) state" where
  "now = State (\<lambda>rt. (clock rt 0, rt\<lparr>clock := (\<lambda>n. clock rt (Suc n))\<rparr>))"

definition time_since :: "time \<Rightarrow> ('x runtime_scheme, duration) state" where
  "time_since u = do { t \<leftarrow> now; ret (time_sub t u) }"

definition next_choice :: "('x runtime_scheme, nat list) state" where
  "next_choice = State (\<lambda>rt. (choice rt 0, rt\<lparr>choice := (\<lambda>n. choice rt (Suc n))\<rparr>))"

abbreviation tick :: "'x runtime_scheme \<Rightarrow> 'x runtime_scheme" where
  "tick rt \<equiv> rt\<lparr>clock := (\<lambda>n. clock rt (Suc n))\<rparr>"

lemma run_now [simp, go_runs]: "run_state now rt = (clock rt 0, tick rt)"
  by (simp add: now_def)

lemma run_time_since [simp, go_runs]: "run_state (time_since u) rt = (time_sub (clock rt 0) u, tick rt)"
  by (simp add: time_since_def)

lemma run_next_choice [simp, go_runs]:
  "run_state next_choice rt = (choice rt 0, rt\<lparr>choice := (\<lambda>n. choice rt (Suc n))\<rparr>)"
  by (simp add: next_choice_def)

text \<open>
  \<open>advances rt rt'\<close>: the clock of \<open>rt'\<close> is that of \<open>rt\<close> some readings later, which is what every
  operation does to it.
\<close>

definition advances :: "'x runtime_scheme \<Rightarrow> 'x runtime_scheme \<Rightarrow> bool" where
  "advances rt rt' \<longleftrightarrow> (\<exists>k. clock rt' = (\<lambda>n. clock rt (n + k)))"

lemma advances_refl [simp, intro]: "clock rt' = clock rt \<Longrightarrow> advances rt rt'"
  unfolding advances_def by (rule exI [of _ 0]) simp

lemma advances_tick [simp, intro]: "advances rt (tick rt)"
  unfolding advances_def by (rule exI [of _ 1]) simp

lemma advances_tick2 [simp, intro]: "advances rt (rt\<lparr>clock := (\<lambda>n. clock rt (Suc (Suc n)))\<rparr>)"
  unfolding advances_def by (rule exI [of _ 2]) simp

lemma advances_trans [trans]: "advances rt rt' \<Longrightarrow> advances rt' rt'' \<Longrightarrow> advances rt rt''"
  unfolding advances_def by (metis (no_types, lifting) add.assoc)

lemma advances_monotonic: "advances rt rt' \<Longrightarrow> monotonic rt \<Longrightarrow> monotonic rt'"
  by (auto simp: advances_def monotonic_def mono_def)

lemma advances_le: "advances rt rt' \<Longrightarrow> monotonic rt \<Longrightarrow> clock rt 0 \<le> clock rt' 0"
  by (auto simp: advances_def monotonic_def mono_def)

lemma time_sub_mono: "t \<le> t' \<Longrightarrow> time_sub t u \<le> time_sub t' u"
  by (simp add: less_eq_go_int_def sval_time_sub)

text \<open>
  The world outside the process (the network, the API server) is a value of any type, and a call
  that leaves the process is a function on it.
\<close>

record 'w world = runtime +
  outside :: 'w

definition call_out :: "('w \<Rightarrow> 'a \<times> 'w) \<Rightarrow> ('w world, 'a) state" where
  "call_out f = State (\<lambda>s. case f (outside s) of (a, w) \<Rightarrow> (a, s\<lparr>outside := w\<rparr>))"

lemma run_call_out [simp, go_runs]:
  "run_state (call_out f) s = (fst (f (outside s)), s\<lparr>outside := snd (f (outside s))\<rparr>)"
  by (simp add: call_out_def split: prod.split)

text \<open>
  \<open>permute cs xs\<close> reads \<open>cs\<close> as successive picks from what is left of \<open>xs\<close>: whatever \<open>cs\<close> is, the
  result is a rearrangement of \<open>xs\<close>, and every rearrangement is the result for some \<open>cs\<close>.
\<close>

fun permute :: "nat list \<Rightarrow> 'a list \<Rightarrow> 'a list" where
  "permute [] xs = xs"
| "permute (c # cs) xs =
     (if xs = [] then []
      else (let i = c mod length xs in xs ! i # permute cs (take i xs @ drop (Suc i) xs)))"

lemma mset_drop_nth: "i < length xs \<Longrightarrow> add_mset (xs ! i) (mset (take i xs) + mset (drop (Suc i) xs)) = mset xs"
  by (metis Cons_nth_drop_Suc append_take_drop_id mset.simps(2) mset_append union_mset_add_mset_right)

lemma mset_permute [simp]: "mset (permute cs xs) = mset xs"
  by (induction cs xs rule: permute.induct) (auto simp: Let_def mset_drop_nth)

lemma set_permute [simp]: "set (permute cs xs) = set xs"
  by (metis mset_permute set_mset_mset)

lemma length_permute [simp]: "length (permute cs xs) = length xs"
  by (metis mset_permute size_mset)

lemma distinct_permute [simp]: "distinct (permute cs xs) = distinct xs"
  by (metis mset_permute mset_eq_imp_distinct_iff)

lemma permute_eq_Nil [simp]: "permute cs xs = [] \<longleftrightarrow> xs = []"
  by (metis length_0_conv length_permute)

lemma permute_complete: "mset ys = mset xs \<Longrightarrow> \<exists>cs. permute cs xs = ys"
proof (induction ys arbitrary: xs)
  case Nil
  then show ?case by (auto intro: exI [of _ "[]"])
next
  case (Cons y ys)
  then have "y \<in> set xs" by (metis list.set_intros(1) set_mset_mset)
  then obtain i where i: "i < length xs" "xs ! i = y" by (auto simp: in_set_conv_nth)
  with Cons.prems have "mset ys = mset (take i xs @ drop (Suc i) xs)"
    using mset_drop_nth [of i xs] by (metis add_mset_add_single add_right_imp_eq mset.simps(2) mset_append)
  then obtain cs where "permute cs (take i xs @ drop (Suc i) xs) = ys"
    using Cons.IH by blast
  with i show ?case by (intro exI [of _ "i # cs"]) auto
qed

subsection \<open>Maps\<close>

text \<open>
  A Go map is an association list with distinct keys, read with \<open>map_of\<close> and changed with
  \<open>AList.update\<close> and \<open>AList.delete\<close>. A \<open>range\<close> over it visits its entries in an order the runtime
  chooses; the order of the list itself means nothing.
\<close>

type_synonym 'v gomap = "(string \<times> 'v) list"

abbreviation wf_map :: "'v gomap \<Rightarrow> bool" where
  "wf_map m \<equiv> distinct (map fst m)"

definition range_map :: "'v gomap \<Rightarrow> ('x runtime_scheme, (string \<times> 'v) list) state" where
  "range_map m = do { cs \<leftarrow> next_choice; ret (permute cs m) }"

lemma run_range_map [simp, go_runs]:
  "run_state (range_map m) rt = (permute (choice rt 0) m, rt\<lparr>choice := (\<lambda>n. choice rt (Suc n))\<rparr>)"
  by (simp add: range_map_def)

lemma map_of_SomeD_wf: "wf_map m \<Longrightarrow> map_of m k = Some v \<longleftrightarrow> (k, v) \<in> set m"
  by (simp add: map_of_eq_Some_iff)

lemma map_fst_permute: "mset (map fst (permute cs m)) = mset (map fst m)"
  by simp

lemma wf_map_permute [simp]: "wf_map (permute cs m) = wf_map m"
  by (metis map_fst_permute mset_eq_imp_distinct_iff)

lemma map_of_permute [simp]: "wf_map m \<Longrightarrow> map_of (permute cs m) = map_of m"
  by (rule ext) (metis map_of_SomeD_wf not_None_eq set_permute wf_map_permute)

subsection \<open>\<open>sort.Slice\<close>\<close>

text \<open>
  \<open>sort.Slice\<close> is not stable. Its results are exactly the ascending rearrangements of its input: a
  stable sort of some rearrangement, which the runtime chooses.
\<close>

definition sort_slice :: "('a \<Rightarrow> 'k::linorder) \<Rightarrow> 'a list \<Rightarrow> ('x runtime_scheme, 'a list) state" where
  "sort_slice key xs = do { cs \<leftarrow> next_choice; ret (sort_key key (permute cs xs)) }"

lemma run_sort_slice [simp, go_runs]:
  "run_state (sort_slice key xs) rt =
     (sort_key key (permute (choice rt 0) xs), rt\<lparr>choice := (\<lambda>n. choice rt (Suc n))\<rparr>)"
  by (simp add: sort_slice_def)

lemma sort_key_of_sorted: "sorted (map key ys) \<Longrightarrow> sort_key key ys = ys"
  by (induction ys) (auto simp: insort_is_Cons)

lemma sort_slice_complete:
  assumes "mset ys = mset xs" and "sorted (map key ys)"
  shows "\<exists>cs. sort_key key (permute cs xs) = ys"
  using permute_complete [OF assms(1)] sort_key_of_sorted [OF assms(2)] by blast

subsection \<open>Loops that thread a state\<close>

text \<open>\<open>for _, x := range xs { s = f(x, s) }\<close> with a body that reads the clock.\<close>

fun for_each :: "'a list \<Rightarrow> ('a \<Rightarrow> 's \<Rightarrow> ('r, 's) state) \<Rightarrow> 's \<Rightarrow> ('r, 's) state" where
  "for_each [] f s = State_Monad.return s"
| "for_each (x # xs) f s = do { s' \<leftarrow> f x s; for_each xs f s' }"

text \<open>The invariant rule of such a loop: a relation kept by every iteration is kept by the loop.\<close>

lemma for_each_invariant:
  assumes "run_state (for_each xs f s) rt = (s', rt')"
    and "P s rt"
    and "\<And>x s rt s' rt'. x \<in> set xs \<Longrightarrow> P s rt \<Longrightarrow> run_state (f x s) rt = (s', rt') \<Longrightarrow> P s' rt'"
  shows "P s' rt'"
  using assms
proof (induction xs arbitrary: s rt)
  case Nil
  then show ?case by simp
next
  case (Cons x xs)
  obtain s1 rt1 where step: "run_state (f x s) rt = (s1, rt1)" by fastforce
  with Cons.prems(1) have rest: "run_state (for_each xs f s1) rt1 = (s', rt')" by simp
  have "P s1 rt1" using Cons.prems(2,3) step by (meson list.set_intros(1))
  then show ?case by (rule Cons.IH [OF rest]) (meson Cons.prems(3) list.set_intros(2))
qed

lemma run_for_each_append:
  "run_state (for_each (xs @ ys) f s) rt =
     (case run_state (for_each xs f s) rt of (s', rt') \<Rightarrow> run_state (for_each ys f s') rt')"
  by (induction xs arbitrary: s rt) (auto split: prod.splits)

lemma run_for_each_snoc:
  "run_state (for_each (xs @ [x]) f s) rt =
     (case run_state (for_each xs f s) rt of (s', rt') \<Rightarrow> run_state (f x s') rt')"
  by (simp add: run_for_each_append split: prod.splits)

lemma for_each_advances:
  assumes "run_state (for_each xs f s) rt = (s', rt')"
    and "\<And>x s rt s' rt'. x \<in> set xs \<Longrightarrow> run_state (f x s) rt = (s', rt') \<Longrightarrow> advances rt rt'"
  shows "advances rt rt'"
  by (rule for_each_invariant [OF assms(1), where P = "\<lambda>_. advances rt"])
    (auto intro: advances_trans assms(2))

text \<open>Updating a key that is there keeps the keys; \<open>map_of\<close> sees exactly the update.\<close>

lemma map_of_update: "map_of (AList.update k v m) j = (if j = k then Some v else map_of m j)"
  by (simp add: update_conv')

lemma set_update_subset: "set (AList.update k v m) \<subseteq> insert (k, v) (set m)"
  by (induction m) auto

lemma wf_map_update [simp]: "wf_map m \<Longrightarrow> wf_map (AList.update k v m)"
  by (rule distinct_update)

lemma wf_map_delete [simp]: "wf_map m \<Longrightarrow> wf_map (AList.delete k m)"
  by (rule distinct_delete)

lemma map_of_delete_if: "map_of (AList.delete k m) j = (if j = k then None else map_of m j)"
  by (simp add: delete_conv')

subsection \<open>Decimal numbers\<close>

text \<open>\<open>%d\<close> of a number that is not negative.\<close>

definition digit_char :: "nat \<Rightarrow> char" where
  "digit_char d = char_of (48 + d)"

fun show_nat :: "nat \<Rightarrow> string" where
  "show_nat n = (if n < 10 then [digit_char n] else show_nat (n div 10) @ [digit_char (n mod 10)])"

declare show_nat.simps [simp del]

definition show_int :: "int \<Rightarrow> string" where
  "show_int k = (if k < 0 then ''-'' @ show_nat (nat (- k)) else show_nat (nat k))"

definition read_nat :: "string \<Rightarrow> nat" where
  "read_nat s = foldl (\<lambda>a c. 10 * a + (of_char c - 48)) 0 s"

lemma of_char_digit: "d < 10 \<Longrightarrow> of_char (digit_char d) = 48 + d"
  by (simp add: digit_char_def)

lemma read_show_nat: "read_nat (show_nat n) = n"
proof (induction n rule: show_nat.induct)
  case (1 n)
  show ?case
  proof (cases "n < 10")
    case True
    then show ?thesis by (simp add: show_nat.simps [of n] read_nat_def of_char_digit)
  next
    case False
    with "1.IH" show ?thesis
      by (simp add: show_nat.simps [of n] read_nat_def of_char_digit)
  qed
qed

lemma show_nat_inject [simp]: "show_nat m = show_nat n \<longleftrightarrow> m = n"
  by (metis read_show_nat)

lemma show_nat_digits: "c \<in> set (show_nat n) \<Longrightarrow> \<exists>d < 10. c = digit_char d"
proof (induction n rule: show_nat.induct)
  case (1 n)
  then show ?case
    by (cases "n < 10") (auto simp: show_nat.simps [of n] intro: exI [of _ "n mod 10"])
qed

lemma digit_char_noteq: "d < 10 \<Longrightarrow> of_char c < (48 :: nat) \<Longrightarrow> digit_char d \<noteq> c"
  using of_char_digit [of d] by (auto simp: digit_char_def)

end
