(* ===== verification/Ejector.thy ===== *)
theory Ejector
  imports Go_Prelude
begin

section \<open>The interface of the circuit breaker\<close>

text \<open>
  What the reconciler relies on when it runs a breaker over the measurements of one round: it asks
  for recovery first, records one latency per pod, and then asks which pods are ejected.
  \<open>Circuit_Breaker\<close> interprets the locale on the operations of the code.
\<close>

locale ejector =
  fixes record_latency :: "string \<Rightarrow> duration \<Rightarrow> 'b \<Rightarrow> ('x runtime_scheme, 'b) state"
    and check_recovery :: "'b \<Rightarrow> ('x runtime_scheme, 'b \<times> string list) state"
    and ejected :: "'b \<Rightarrow> string \<Rightarrow> bool"
    and inv :: "'b \<Rightarrow> bool"
    and limit :: "'b \<Rightarrow> duration"
  assumes inv_record: "inv b \<Longrightarrow> run_state (record_latency ip p b) rt = (b', rt') \<Longrightarrow> inv b'"
    and inv_check: "inv b \<Longrightarrow> run_state (check_recovery b) rt = ((b', tr), rt') \<Longrightarrow> inv b'"
    and limit_record: "run_state (record_latency ip p b) rt = (b', rt') \<Longrightarrow> limit b' = limit b"
    and limit_check:
      "inv b \<Longrightarrow> run_state (check_recovery b) rt = ((b', tr), rt') \<Longrightarrow> limit b' = limit b"
    and record_other:
      "run_state (record_latency ip p b) rt = (b', rt') \<Longrightarrow> jp \<noteq> ip \<Longrightarrow> ejected b' jp = ejected b jp"
    and record_good:
      "run_state (record_latency ip p b) rt = (b', rt') \<Longrightarrow> p \<le> limit b \<Longrightarrow> ejected b' ip \<Longrightarrow> ejected b ip"
    and check_readmits:
      "inv b \<Longrightarrow> run_state (check_recovery b) rt = ((b', tr), rt') \<Longrightarrow> ejected b' ip \<Longrightarrow> ejected b ip"
begin

abbreviation record_all ::
  "('r \<Rightarrow> string) \<Rightarrow> ('r \<Rightarrow> duration) \<Rightarrow> 'r list \<Rightarrow> 'b \<Rightarrow> ('x runtime_scheme, 'b) state" where
  "record_all ip lat rs \<equiv> for_each rs (\<lambda>r. record_latency (ip r) (lat r))"

lemma inv_record_all:
  "run_state (record_all ip lat rs b) rt = (b', rt') \<Longrightarrow> inv b \<Longrightarrow> inv b'"
  by (rule for_each_invariant [where P = "\<lambda>b rt. inv b"]) (auto intro: inv_record)

lemma limit_record_all:
  "run_state (record_all ip lat rs b) rt = (b', rt') \<Longrightarrow> limit b' = limit b"
  by (rule for_each_invariant [where P = "\<lambda>b' rt. limit b' = limit b"]) (auto dest: limit_record)

text \<open>A pod that was not measured keeps its standing.\<close>

lemma record_all_other:
  assumes "run_state (record_all ip lat rs b) rt = (b', rt')" and "jp \<notin> ip ` set rs"
  shows "ejected b' jp = ejected b jp"
  by (rule for_each_invariant [OF assms(1), where P = "\<lambda>b' rt. ejected b' jp = ejected b jp"])
    (use assms(2) in \<open>auto dest: record_other\<close>)

text \<open>A pod whose latency is within the limit is not ejected by the round.\<close>

lemma record_all_good:
  assumes "run_state (record_all ip lat rs b) rt = (b', rt')"
    and "\<And>r. r \<in> set rs \<Longrightarrow> ip r = jp \<Longrightarrow> lat r \<le> limit b"
    and "ejected b' jp"
  shows "ejected b jp"
proof -
  have "(ejected b' jp \<longrightarrow> ejected b jp) \<and> limit b' = limit b"
  proof (rule for_each_invariant [OF assms(1),
        where P = "\<lambda>b' rt. (ejected b' jp \<longrightarrow> ejected b jp) \<and> limit b' = limit b"])
    fix r s rt1 s' rt1'
    assume r: "r \<in> set rs" and step: "run_state (record_latency (ip r) (lat r) s) rt1 = (s', rt1')"
      and s: "(ejected s jp \<longrightarrow> ejected b jp) \<and> limit s = limit b"
    have "ejected s' jp \<longrightarrow> ejected s jp"
    proof (cases "ip r = jp")
      case True
      with assms(2) [OF r] s have "lat r \<le> limit s" by simp
      from record_good [OF step this] True show ?thesis by simp
    next
      case False
      then show ?thesis using record_other [OF step, of jp] by simp
    qed
    with s limit_record [OF step]
    show "(ejected s' jp \<longrightarrow> ejected b jp) \<and> limit s' = limit b" by simp
  qed simp
  with assms(3) show ?thesis by blast
qed

text \<open>
  The whole round: recovery first, then one measurement per pod. A pod that was in service, and
  whose measurement is within the limit, is in service afterwards; a pod that was not measured
  is ejected afterwards only if it was before.
\<close>

lemma round_keeps_good:
  assumes "run_state (check_recovery b) rt = ((b1, tr), rt1)"
    and "run_state (record_all ip lat rs b1) rt1 = (b', rt')"
    and "inv b"
    and "\<And>r. r \<in> set rs \<Longrightarrow> ip r = jp \<Longrightarrow> lat r \<le> limit b"
    and "ejected b' jp"
  shows "ejected b jp"
proof -
  have "limit b1 = limit b" using limit_check [OF assms(3,1)] .
  then have "ejected b1 jp"
    using record_all_good [OF assms(2) _ assms(5)] assms(4) by simp
  then show ?thesis using check_readmits [OF assms(3,1)] by blast
qed

lemma round_inv:
  assumes "run_state (check_recovery b) rt = ((b1, tr), rt1)"
    and "run_state (record_all ip lat rs b1) rt1 = (b', rt')"
    and "inv b"
  shows "inv b' \<and> limit b' = limit b"
  using inv_check [OF assms(3,1)] limit_check [OF assms(3,1)] inv_record_all [OF assms(2)]
    limit_record_all [OF assms(2)] by simp

end

end
