(* ===== verification/Circuit_Breaker.thy ===== *)
theory Circuit_Breaker
  imports Ejector
begin

section \<open>The circuit breaker\<close>

text \<open>
  \<open>internal/circuitbreaker/circuitbreaker.go\<close>: one breaker per policy, with one small state
  machine per pod IP (closed, open, half-open). The mutex of the breaker makes every operation
  atomic, so the interleavings of its callers are the sequences of operations; each operation reads
  the clock as often, and in the order, the code does.
\<close>

subsection \<open>Data\<close>

text \<open>\<open>State\<close> is an \<open>int\<close>; \<open>StateOther\<close> stands for the values that are none of the three constants.\<close>

datatype cb_state = StateClosed | StateOpen | StateHalfOpen | StateOther int

fun State_String :: "cb_state \<Rightarrow> string" where
  "State_String StateClosed = ''closed''"
| "State_String StateOpen = ''open''"
| "State_String StateHalfOpen = ''half-open''"
| "State_String (StateOther n) = ''unknown''"

record PodState =
  psState :: cb_state
  violationCount :: int32
  lastViolationTime :: time
  ejectedAt :: time
  lastRecoveryProbeAt :: time

record Breaker =
  pods :: "PodState gomap"
  p99Threshold :: duration
  consecutiveViolations :: int32
  recoveryInterval :: duration

record Config =
  cfgP99Threshold :: duration
  cfgConsecutiveViolations :: int32
  cfgRecoveryInterval :: duration

definition zero_PodState :: PodState where
  "zero_PodState = \<lparr>psState = StateClosed, violationCount = 0, lastViolationTime = zero_time,
     ejectedAt = zero_time, lastRecoveryProbeAt = zero_time\<rparr>"

subsection \<open>Operations\<close>

definition NewBreaker :: "Config \<Rightarrow> Breaker" where
  "NewBreaker cfg = \<lparr>pods = [], p99Threshold = cfgP99Threshold cfg,
     consecutiveViolations = cfgConsecutiveViolations cfg,
     recoveryInterval = cfgRecoveryInterval cfg\<rparr>"

text \<open>The \<open>switch\<close> of \<open>RecordLatency\<close> on the state of one pod.\<close>

definition observe :: "Breaker \<Rightarrow> duration \<Rightarrow> PodState \<Rightarrow> ('x runtime_scheme, PodState) state" where
  "observe b p99 ps = (case psState ps of
     StateClosed \<Rightarrow>
       (if p99 > p99Threshold b then do {
          let ps = ps\<lparr>violationCount := violationCount ps + 1\<rparr>;
          t \<leftarrow> now;
          let ps = ps\<lparr>lastViolationTime := t\<rparr>;
          (if violationCount ps \<ge> consecutiveViolations b then do {
             t' \<leftarrow> now;
             ret (ps\<lparr>psState := StateOpen, ejectedAt := t'\<rparr>)
           } else ret ps)
        } else ret (ps\<lparr>violationCount := 0\<rparr>))
   | StateOpen \<Rightarrow> do {
       d \<leftarrow> time_since (ejectedAt ps);
       (if d \<ge> recoveryInterval b then do {
          t \<leftarrow> now;
          ret (ps\<lparr>psState := StateHalfOpen, lastRecoveryProbeAt := t\<rparr>)
        } else ret ps)
     }
   | StateHalfOpen \<Rightarrow>
       (if p99 \<le> p99Threshold b then ret (ps\<lparr>psState := StateClosed, violationCount := 0\<rparr>)
        else do {
          t \<leftarrow> now;
          ret (ps\<lparr>psState := StateOpen, ejectedAt := t\<rparr>)
        })
   | StateOther n \<Rightarrow> ret ps)"

definition RecordLatency ::
  "string \<Rightarrow> duration \<Rightarrow> Breaker \<Rightarrow> ('x runtime_scheme, Breaker) state" where
  "RecordLatency podIP p99 b = do {
     let ps = (case map_of (pods b) podIP of Some ps \<Rightarrow> ps | None \<Rightarrow> zero_PodState);
     ps' \<leftarrow> observe b p99 ps;
     ret (b\<lparr>pods := AList.update podIP ps' (pods b)\<rparr>)
   }"

definition IsEjected :: "Breaker \<Rightarrow> string \<Rightarrow> bool" where
  "IsEjected b podIP = (case map_of (pods b) podIP of
     None \<Rightarrow> False
   | Some ps \<Rightarrow> psState ps = StateOpen)"

definition GetEjectedPods :: "Breaker \<Rightarrow> ('x runtime_scheme, string list) state" where
  "GetEjectedPods b = do {
     entries \<leftarrow> range_map (pods b);
     ret (map fst (filter (\<lambda>(ip, ps). psState ps = StateOpen) entries))
   }"

definition GetState :: "Breaker \<Rightarrow> string \<Rightarrow> PodState \<times> bool" where
  "GetState b podIP = (case map_of (pods b) podIP of
     None \<Rightarrow> (zero_PodState, False)
   | Some ps \<Rightarrow> (ps, True))"

text \<open>The body of the loop of \<open>CheckRecovery\<close>; the loop carries the breaker and \<open>transitioned\<close>.\<close>

definition check_one ::
  "string \<times> PodState \<Rightarrow> Breaker \<times> string list \<Rightarrow> ('x runtime_scheme, Breaker \<times> string list) state" where
  "check_one e s = (case (e, s) of ((ip, ps), (b, transitioned)) \<Rightarrow>
     (if psState ps = StateOpen then do {
        d \<leftarrow> time_since (ejectedAt ps);
        (if d \<ge> recoveryInterval b then do {
           t \<leftarrow> now;
           ret (b\<lparr>pods := AList.update ip
                   (ps\<lparr>psState := StateHalfOpen, lastRecoveryProbeAt := t\<rparr>) (pods b)\<rparr>,
                transitioned @ [ip])
         } else ret (b, transitioned))
      } else ret (b, transitioned)))"

definition CheckRecovery :: "Breaker \<Rightarrow> ('x runtime_scheme, Breaker \<times> string list) state" where
  "CheckRecovery b = do {
     entries \<leftarrow> range_map (pods b);
     for_each entries check_one (b, [])
   }"

definition RemovePod :: "string \<Rightarrow> Breaker \<Rightarrow> Breaker" where
  "RemovePod podIP b = b\<lparr>pods := AList.delete podIP (pods b)\<rparr>"

definition ResetBreaker :: "Breaker \<Rightarrow> Breaker" where
  "ResetBreaker b = b\<lparr>pods := []\<rparr>"

subsection \<open>One observation\<close>

text \<open>The branches of the \<open>switch\<close>, one equation each: what is left in the state and which clock.\<close>

lemma observe_closed_ok [go_runs]:
  "psState ps = StateClosed \<Longrightarrow> p99 \<le> p99Threshold b \<Longrightarrow>
     run_state (observe b p99 ps) rt = (ps\<lparr>violationCount := 0\<rparr>, rt)"
  by (simp add: observe_def Let_def)

lemma observe_closed_violation [go_runs]:
  "psState ps = StateClosed \<Longrightarrow> p99Threshold b < p99 \<Longrightarrow> violationCount ps + 1 < consecutiveViolations b \<Longrightarrow>
     run_state (observe b p99 ps) rt =
       (ps\<lparr>violationCount := violationCount ps + 1, lastViolationTime := clock rt 0\<rparr>, tick rt)"
  by (simp add: observe_def Let_def)

lemma observe_closed_trip [go_runs]:
  "psState ps = StateClosed \<Longrightarrow> p99Threshold b < p99 \<Longrightarrow> consecutiveViolations b \<le> violationCount ps + 1 \<Longrightarrow>
     run_state (observe b p99 ps) rt =
       (ps\<lparr>violationCount := violationCount ps + 1, lastViolationTime := clock rt 0,
          psState := StateOpen, ejectedAt := clock rt (Suc 0)\<rparr>, tick (tick rt))"
  by (simp add: observe_def Let_def)

lemma observe_open_wait [go_runs]:
  "psState ps = StateOpen \<Longrightarrow> time_sub (clock rt 0) (ejectedAt ps) < recoveryInterval b \<Longrightarrow>
     run_state (observe b p99 ps) rt = (ps, tick rt)"
  by (simp add: observe_def Let_def)

lemma observe_open_probe [go_runs]:
  "psState ps = StateOpen \<Longrightarrow> recoveryInterval b \<le> time_sub (clock rt 0) (ejectedAt ps) \<Longrightarrow>
     run_state (observe b p99 ps) rt =
       (ps\<lparr>psState := StateHalfOpen, lastRecoveryProbeAt := clock rt (Suc 0)\<rparr>, tick (tick rt))"
  by (simp add: observe_def Let_def)

lemma observe_half_ok [go_runs]:
  "psState ps = StateHalfOpen \<Longrightarrow> p99 \<le> p99Threshold b \<Longrightarrow>
     run_state (observe b p99 ps) rt = (ps\<lparr>psState := StateClosed, violationCount := 0\<rparr>, rt)"
  by (simp add: observe_def Let_def)

lemma observe_half_relapse [go_runs]:
  "psState ps = StateHalfOpen \<Longrightarrow> p99Threshold b < p99 \<Longrightarrow>
     run_state (observe b p99 ps) rt =
       (ps\<lparr>psState := StateOpen, ejectedAt := clock rt 0\<rparr>, tick rt)"
  by (simp add: observe_def Let_def)

text \<open>All branches at once, as a case distinction for proofs about any observation.\<close>

lemma observe_cases:
  assumes "run_state (observe b p99 ps) rt = (ps', rt')"
  obtains
    (ok) "psState ps = StateClosed" "p99 \<le> p99Threshold b"
      "ps' = ps\<lparr>violationCount := 0\<rparr>" "rt' = rt"
  | (violation) "psState ps = StateClosed" "p99Threshold b < p99"
      "violationCount ps + 1 < consecutiveViolations b"
      "ps' = ps\<lparr>violationCount := violationCount ps + 1, lastViolationTime := clock rt 0\<rparr>"
      "rt' = tick rt"
  | (trip) "psState ps = StateClosed" "p99Threshold b < p99"
      "consecutiveViolations b \<le> violationCount ps + 1"
      "ps' = ps\<lparr>violationCount := violationCount ps + 1, lastViolationTime := clock rt 0,
         psState := StateOpen, ejectedAt := clock rt (Suc 0)\<rparr>" "rt' = tick (tick rt)"
  | (wait) "psState ps = StateOpen" "time_sub (clock rt 0) (ejectedAt ps) < recoveryInterval b"
      "ps' = ps" "rt' = tick rt"
  | (probe) "psState ps = StateOpen" "recoveryInterval b \<le> time_sub (clock rt 0) (ejectedAt ps)"
      "ps' = ps\<lparr>psState := StateHalfOpen, lastRecoveryProbeAt := clock rt (Suc 0)\<rparr>"
      "rt' = tick (tick rt)"
  | (recovered) "psState ps = StateHalfOpen" "p99 \<le> p99Threshold b"
      "ps' = ps\<lparr>psState := StateClosed, violationCount := 0\<rparr>" "rt' = rt"
  | (relapse) "psState ps = StateHalfOpen" "p99Threshold b < p99"
      "ps' = ps\<lparr>psState := StateOpen, ejectedAt := clock rt 0\<rparr>" "rt' = tick rt"
  | (other) n where "psState ps = StateOther n" "ps' = ps" "rt' = rt"
proof (cases "psState ps")
  case StateClosed
  consider "p99 \<le> p99Threshold b"
    | "p99Threshold b < p99" "violationCount ps + 1 < consecutiveViolations b"
    | "p99Threshold b < p99" "consecutiveViolations b \<le> violationCount ps + 1"
    by fastforce
  then show thesis
  proof cases
    case 1
    with assms StateClosed show thesis by (intro ok) (simp_all add: observe_closed_ok)
  next
    case 2
    with assms StateClosed show thesis by (intro violation) (simp_all add: observe_closed_violation)
  next
    case 3
    with assms StateClosed show thesis by (intro trip) (simp_all add: observe_closed_trip)
  qed
next
  case StateOpen
  show thesis
  proof (cases "time_sub (clock rt 0) (ejectedAt ps) < recoveryInterval b")
    case True
    with assms StateOpen show thesis by (intro wait) (simp_all add: observe_open_wait)
  next
    case False
    with assms StateOpen show thesis by (intro probe) (simp_all add: observe_open_probe)
  qed
next
  case StateHalfOpen
  show thesis
  proof (cases "p99 \<le> p99Threshold b")
    case True
    with assms StateHalfOpen show thesis by (intro recovered) (simp_all add: observe_half_ok)
  next
    case False
    with assms StateHalfOpen show thesis by (intro relapse) (simp_all add: observe_half_relapse)
  qed
next
  case (StateOther n)
  with assms show thesis by (intro other) (simp_all add: observe_def)
qed

lemma observe_advances: "run_state (observe b p99 ps) rt = (ps', rt') \<Longrightarrow> advances rt rt'"
  by (erule observe_cases) auto

subsection \<open>\<open>RecordLatency\<close> on the whole breaker\<close>

definition pod_of :: "Breaker \<Rightarrow> string \<Rightarrow> PodState" where
  "pod_of b ip = (case map_of (pods b) ip of Some ps \<Rightarrow> ps | None \<Rightarrow> zero_PodState)"

lemma RecordLatency_elim:
  assumes "run_state (RecordLatency ip p99 b) rt = (b', rt')"
  obtains ps' where "run_state (observe b p99 (pod_of b ip)) rt = (ps', rt')"
    and "b' = b\<lparr>pods := AList.update ip ps' (pods b)\<rparr>"
  using assms by (auto simp: RecordLatency_def pod_of_def Let_def split: prod.splits)

lemma IsEjected_pod_of: "IsEjected b ip \<longleftrightarrow> psState (pod_of b ip) = StateOpen"
  by (auto simp: IsEjected_def pod_of_def zero_PodState_def split: option.splits)

lemma GetState_pod_of: "GetState b ip = (pod_of b ip, map_of (pods b) ip \<noteq> None)"
  by (auto simp: GetState_def pod_of_def split: option.splits)

lemma pod_of_update:
  "pod_of (b\<lparr>pods := AList.update k ps m\<rparr>) ip = (if ip = k then ps else pod_of (b\<lparr>pods := m\<rparr>) ip)"
  by (simp add: pod_of_def map_of_update)

lemma RecordLatency_pod:
  assumes "run_state (RecordLatency ip p99 b) rt = (b', rt')"
  shows "run_state (observe b p99 (pod_of b ip)) rt = (pod_of b' ip, rt')"
    and "jp \<noteq> ip \<Longrightarrow> map_of (pods b') jp = map_of (pods b) jp"
    and "map_of (pods b') ip = Some (pod_of b' ip)"
    and "p99Threshold b' = p99Threshold b"
    and "consecutiveViolations b' = consecutiveViolations b"
    and "recoveryInterval b' = recoveryInterval b"
  using assms by (auto elim!: RecordLatency_elim simp: pod_of_def map_of_update)

lemma RecordLatency_advances:
  "run_state (RecordLatency ip p99 b) rt = (b', rt') \<Longrightarrow> advances rt rt'"
  by (erule RecordLatency_elim) (rule observe_advances)

lemma observe_pod_cong:
  "p99Threshold b' = p99Threshold b \<Longrightarrow> consecutiveViolations b' = consecutiveViolations b \<Longrightarrow>
   recoveryInterval b' = recoveryInterval b \<Longrightarrow> observe b' p99 ps = observe b p99 ps"
  by (simp add: observe_def split: cb_state.split)

subsection \<open>The invariant\<close>

text \<open>
  A closed pod has fewer violations than it takes to eject it (or none), an ejected or recovering
  one has at least that many, and no count exceeds the configured number (or 1): the \<open>int32\<close>
  counter never overflows.
\<close>

definition pod_inv :: "int32 \<Rightarrow> PodState \<Rightarrow> bool" where
  "pod_inv cv ps \<longleftrightarrow> 0 \<le> violationCount ps \<and> violationCount ps \<le> max 1 cv \<and>
     (case psState ps of
        StateClosed \<Rightarrow> violationCount ps = 0 \<or> violationCount ps < cv
      | StateOther n \<Rightarrow> False
      | _ \<Rightarrow> 1 \<le> violationCount ps \<and> cv \<le> violationCount ps)"

definition breaker_inv :: "Breaker \<Rightarrow> bool" where
  "breaker_inv b \<longleftrightarrow> wf_map (pods b) \<and>
     (\<forall>ip ps. map_of (pods b) ip = Some ps \<longrightarrow> pod_inv (consecutiveViolations b) ps)"

lemma pod_inv_zero: "pod_inv cv zero_PodState"
  by (simp add: pod_inv_def zero_PodState_def less_eq_go_int_def max_def)

lemma pod_inv_pod_of: "breaker_inv b \<Longrightarrow> pod_inv (consecutiveViolations b) (pod_of b ip)"
  by (auto simp: breaker_inv_def pod_of_def pod_inv_zero split: option.splits)

lemma sval_succ_closed:
  fixes x cv :: int32
  assumes "x = 0 \<or> x < cv"
  shows "sval (x + 1) = sval x + 1"
proof (cases "x = 0")
  case False
  with assms show ?thesis by (blast intro: sval_succ_32)
qed simp

lemma succ_bounds:
  fixes x cv :: int32
  assumes "0 \<le> x" and "x = 0 \<or> x < cv"
  shows "1 \<le> x + 1" and "x + 1 \<le> max 1 cv"
proof -
  have s: "sval (x + 1) = sval x + 1" by (rule sval_succ_closed [OF assms(2)])
  show "1 \<le> x + 1" using assms(1) s by (simp add: less_eq_go_int_def)
  show "x + 1 \<le> max 1 cv"
  proof (cases "x = 0")
    case False
    with assms(2) have "sval x < sval cv" by (simp add: less_go_int_def)
    then have "x + 1 \<le> cv" using s by (simp add: less_eq_go_int_def)
    then show ?thesis by (rule order_trans) simp
  qed simp
qed

lemma observe_inv:
  assumes "run_state (observe b p99 ps) rt = (ps', rt')"
    and inv: "pod_inv (consecutiveViolations b) ps"
  shows "pod_inv (consecutiveViolations b) ps'"
  using assms(1)
proof (cases rule: observe_cases)
  case violation
  then have "violationCount ps = 0 \<or> violationCount ps < consecutiveViolations b" "0 \<le> violationCount ps"
    using inv by (simp_all add: pod_inv_def)
  from succ_bounds [OF this(2,1)] violation show ?thesis
    by (simp add: pod_inv_def order_trans [of 0 1] less_eq_go_int_def)
next
  case trip
  then have "violationCount ps = 0 \<or> violationCount ps < consecutiveViolations b" "0 \<le> violationCount ps"
    using inv by (simp_all add: pod_inv_def)
  from succ_bounds [OF this(2,1)] trip show ?thesis
    by (simp add: pod_inv_def order_trans [of 0 1] less_eq_go_int_def)
qed (use inv in \<open>auto simp: pod_inv_def less_eq_go_int_def max_def\<close>)

lemma RecordLatency_inv:
  assumes "breaker_inv b" and "run_state (RecordLatency ip p99 b) rt = (b', rt')"
  shows "breaker_inv b'"
proof -
  from assms(2) obtain ps' where obs: "run_state (observe b p99 (pod_of b ip)) rt = (ps', rt')"
    and b': "b' = b\<lparr>pods := AList.update ip ps' (pods b)\<rparr>"
    by (rule RecordLatency_elim)
  have "pod_inv (consecutiveViolations b) ps'"
    using observe_inv [OF obs pod_inv_pod_of [OF assms(1)]] .
  with assms(1) b' show ?thesis by (auto simp: breaker_inv_def map_of_update)
qed

subsection \<open>The recovery sweep\<close>

text \<open>A pod is due at time \<open>t\<close> when it is ejected and the recovery interval has elapsed.\<close>

definition due :: "Breaker \<Rightarrow> time \<Rightarrow> PodState \<Rightarrow> bool" where
  "due b t ps \<longleftrightarrow> psState ps = StateOpen \<and> recoveryInterval b \<le> time_sub t (ejectedAt ps)"

lemma check_one_cases:
  assumes "run_state (check_one (ip, ps) (b, tr)) rt = ((b', tr'), rt')"
  obtains
    (keep) "\<not> due b (clock rt 0) ps" "b' = b" "tr' = tr" "rt' = rt \<or> rt' = tick rt"
  | (probe) "due b (clock rt 0) ps" "tr' = tr @ [ip]" "rt' = tick (tick rt)"
      "b' = b\<lparr>pods := AList.update ip
         (ps\<lparr>psState := StateHalfOpen, lastRecoveryProbeAt := clock rt (Suc 0)\<rparr>) (pods b)\<rparr>"
proof (cases "due b (clock rt 0) ps")
  case True
  with assms show thesis by (intro probe) (auto simp: check_one_def due_def)
next
  case False
  with assms show thesis
    by (intro keep) (auto simp: check_one_def due_def split: if_splits)
qed

lemma due_mono: "due b t ps \<Longrightarrow> t \<le> t' \<Longrightarrow> due b t' ps"
  unfolding due_def using time_sub_mono order_trans by blast

lemma check_one_advances: "run_state (check_one e s) rt = (s', rt') \<Longrightarrow> advances rt rt'"
  by (cases e; cases s; cases s') (auto elim!: check_one_cases)

lemma CheckRecovery_elim:
  assumes "run_state (CheckRecovery b) rt = ((b', tr), rt')"
  obtains rt0 where "clock rt0 = clock rt"
    and "run_state (for_each (permute (choice rt 0) (pods b)) check_one (b, [])) rt0 = ((b', tr), rt')"
  by (rule that [of "rt\<lparr>choice := (\<lambda>n. choice rt (Suc n))\<rparr>"])
    (use assms in \<open>simp_all add: CheckRecovery_def\<close>)

lemma CheckRecovery_advances:
  fixes rt :: "'x runtime_scheme"
  shows "run_state (CheckRecovery b) rt = ((b', tr), rt') \<Longrightarrow> advances rt rt'"
proof (erule CheckRecovery_elim)
  fix rt0 :: "'x runtime_scheme"
  assume "clock rt0 = clock rt"
    and run: "run_state (for_each (permute (choice rt 0) (pods b)) check_one (b, [])) rt0 = ((b', tr), rt')"
  then have "advances rt rt0" by simp
  also have "advances rt0 rt'"
    using run by (rule for_each_advances) (rule check_one_advances)
  finally show "advances rt rt'" .
qed

text \<open>
  What the sweep over the entries \<open>es\<close> achieves between the readings \<open>t\<close> and \<open>t'\<close>: the pods \<open>ts\<close> it
  reports are the ones it moved to half-open; every pod due at \<open>t\<close> is among them, each of them is
  due at \<open>t'\<close>, and no other pod changes.
\<close>

definition same_config :: "Breaker \<Rightarrow> Breaker \<Rightarrow> bool" where
  "same_config b b' \<longleftrightarrow> p99Threshold b' = p99Threshold b \<and>
     consecutiveViolations b' = consecutiveViolations b \<and> recoveryInterval b' = recoveryInterval b"

definition probed :: "Breaker \<Rightarrow> time \<Rightarrow> time \<Rightarrow> Breaker \<Rightarrow> string \<Rightarrow> bool" where
  "probed b t t' b' ip \<longleftrightarrow> (\<exists>ps u. map_of (pods b) ip = Some ps \<and> due b t' ps \<and> t \<le> u \<and> u \<le> t' \<and>
     map_of (pods b') ip = Some (ps\<lparr>psState := StateHalfOpen, lastRecoveryProbeAt := u\<rparr>))"

definition swept :: "Breaker \<Rightarrow> time \<Rightarrow> time \<Rightarrow> PodState gomap \<Rightarrow> Breaker \<Rightarrow> string list \<Rightarrow> bool" where
  "swept b t t' es b' ts \<longleftrightarrow> distinct ts \<and> set ts \<subseteq> fst ` set es \<and> same_config b b' \<and>
     (\<forall>(ip, ps) \<in> set es. due b t ps \<longrightarrow> ip \<in> set ts) \<and>
     (\<forall>ip \<in> set ts. probed b t t' b' ip) \<and>
     (\<forall>ip. ip \<notin> set ts \<longrightarrow> map_of (pods b') ip = map_of (pods b) ip)"

lemma probed_earlier: "probed b t1 t' b' ip \<Longrightarrow> t \<le> t1 \<Longrightarrow> probed b t t' b' ip"
  unfolding probed_def by (meson order_trans)

lemma swept_keep:
  "swept b t1 t' es b' ts \<Longrightarrow> t \<le> t1 \<Longrightarrow> \<not> due b t ps \<Longrightarrow> swept b t t' ((ip, ps) # es) b' ts"
  by (auto simp: swept_def intro: due_mono probed_earlier)

lemma swept_not_due:
  assumes "swept b t t' es b' ts" and "map_of (pods b) ip = Some ps" and "\<not> due b t' ps"
  shows "map_of (pods b') ip = Some ps"
proof -
  have "\<not> probed b t t' b' ip" using assms(2,3) by (simp add: probed_def)
  then have "ip \<notin> set ts" using assms(1) by (auto simp: swept_def)
  then show ?thesis using assms(1,2) by (simp add: swept_def)
qed

lemma swept_probe:
  assumes sw: "swept b1 t1 t' es b' ts" and look: "map_of (pods b) ip = Some ps"
    and b1: "b1 = b\<lparr>pods := AList.update ip (ps\<lparr>psState := StateHalfOpen, lastRecoveryProbeAt := u\<rparr>) (pods b)\<rparr>"
    and "due b t ps" "t \<le> u" "u \<le> t1" "t1 \<le> t'" and ip: "ip \<notin> fst ` set es"
  shows "swept b t t' ((ip, ps) # es) b' (ip # ts)"
proof -
  have le: "t \<le> t1" "u \<le> t'" using assms(5-7) by simp_all
  have same: "map_of (pods b1) jp = map_of (pods b) jp" if "jp \<noteq> ip" for jp
    using that by (simp add: b1 map_of_update)
  have due1: "due b1 t qs = due b t qs" for t qs by (simp add: due_def b1)
  have ipts: "ip \<notin> set ts" using sw ip by (auto simp: swept_def)
  have "map_of (pods b') ip = Some (ps\<lparr>psState := StateHalfOpen, lastRecoveryProbeAt := u\<rparr>)"
    using sw ipts by (simp add: swept_def b1 map_of_update)
  moreover have "due b t' ps" using assms(4,7) le(1) by (meson due_mono order_trans)
  ultimately have "probed b t t' b' ip" using look assms(5) le(2) by (auto simp: probed_def)
  moreover have "probed b t t' b' jp" if "jp \<in> set ts" for jp
  proof -
    have "jp \<noteq> ip" using that ipts by blast
    moreover have "probed b1 t t' b' jp" using sw that le(1) probed_earlier unfolding swept_def by blast
    ultimately show ?thesis using same by (simp add: probed_def due1)
  qed
  moreover have "same_config b b'" using sw by (simp add: swept_def same_config_def b1)
  moreover have "due b t1 qs" if "due b t qs" for qs using that le(1) by (rule due_mono)
  ultimately show ?thesis using sw same ipts by (fastforce simp: swept_def due1)
qed

lemma check_loop:
  assumes "run_state (for_each es check_one (b, tr)) rt = ((b', tr'), rt')"
    and "wf_map es" and "\<And>ip ps. (ip, ps) \<in> set es \<Longrightarrow> map_of (pods b) ip = Some ps"
    and "monotonic rt"
  shows "\<exists>ts. tr' = tr @ ts \<and> swept b (clock rt 0) (clock rt' 0) es b' ts"
  using assms
proof (induction es arbitrary: b tr rt)
  case Nil
  then show ?case by (simp add: swept_def same_config_def)
next
  case (Cons e es)
  obtain ip ps where e: "e = (ip, ps)" by fastforce
  obtain b1 tr1 rt1 where step: "run_state (check_one (ip, ps) (b, tr)) rt = ((b1, tr1), rt1)"
    by (metis surj_pair)
  have rest: "run_state (for_each es check_one (b1, tr1)) rt1 = ((b', tr'), rt')"
    using Cons.prems(1) e step by simp
  have adv: "advances rt rt1" using check_one_advances [OF step] .
  have mono1: "monotonic rt1" using adv Cons.prems(4) by (rule advances_monotonic)
  have le1: "clock rt 0 \<le> clock rt1 0" using adv Cons.prems(4) by (rule advances_le)
  have "advances rt1 rt'" using rest by (rule for_each_advances) (rule check_one_advances)
  then have le2: "clock rt1 0 \<le> clock rt' 0" using mono1 by (rule advances_le)
  have ipn: "ip \<notin> fst ` set es" using Cons.prems(2) e by simp
  have look: "map_of (pods b) ip = Some ps" using Cons.prems(3) e by simp
  have look1: "map_of (pods b1) jp = Some qs" if "(jp, qs) \<in> set es" for jp qs
  proof -
    have "jp \<noteq> ip" using that ipn by force
    with step have "map_of (pods b1) jp = map_of (pods b) jp"
      by (cases rule: check_one_cases) (simp_all add: map_of_update)
    with that Cons.prems(3) show ?thesis by simp
  qed
  have "wf_map es" using Cons.prems(2) by simp
  from Cons.IH [OF rest this look1 mono1] obtain ts
    where ts: "tr' = tr1 @ ts" "swept b1 (clock rt1 0) (clock rt' 0) es b' ts" by blast
  from step show ?case
  proof (cases rule: check_one_cases)
    case keep
    with ts le1 e show ?thesis by (blast intro: swept_keep)
  next
    case probe
    have "swept b (clock rt 0) (clock rt' 0) ((ip, ps) # es) b' (ip # ts)"
      by (rule swept_probe [OF ts(2) look probe(4,1) _ _ le2 ipn])
        (use Cons.prems(4) probe(3) in \<open>simp_all add: monotonic_def monoD\<close>)
    with probe(2) ts(1) e show ?thesis by auto
  qed
qed

lemma CheckRecovery_swept:
  assumes "run_state (CheckRecovery b) rt = ((b', tr), rt')" and "wf_map (pods b)" and "monotonic rt"
  shows "swept b (clock rt 0) (clock rt' 0) (pods b) b' tr"
proof -
  from assms(1) obtain rt0 where rt0: "clock rt0 = clock rt"
    and run: "run_state (for_each (permute (choice rt 0) (pods b)) check_one (b, [])) rt0 = ((b', tr), rt')"
    by (rule CheckRecovery_elim)
  have "monotonic rt0" using assms(3) rt0 by (simp add: monotonic_def)
  with check_loop [OF run] assms(2)
  have "swept b (clock rt0 0) (clock rt' 0) (permute (choice rt 0) (pods b)) b' tr" by simp
  then show ?thesis by (simp add: swept_def rt0)
qed

lemma same_config_refl [simp]: "same_config b b"
  by (simp add: same_config_def)

lemma RecordLatency_same_config:
  "run_state (RecordLatency ip p99 b) rt = (b', rt') \<Longrightarrow> same_config b b'"
  by (simp add: same_config_def RecordLatency_pod)

text \<open>Every iteration of the sweep keeps the invariant and ejects nobody.\<close>

lemma check_one_inv:
  assumes "run_state (check_one (ip, ps) (b, tr)) rt = ((b', tr'), rt')"
    and "breaker_inv b" and "pod_inv (consecutiveViolations b) ps"
  shows "breaker_inv b' \<and> same_config b b'"
  using assms(1)
proof (cases rule: check_one_cases)
  case probe
  have "pod_inv (consecutiveViolations b) (ps\<lparr>psState := StateHalfOpen, lastRecoveryProbeAt := clock rt (Suc 0)\<rparr>)"
    using assms(3) probe(1) by (simp add: pod_inv_def due_def)
  with assms(2) probe(4) show ?thesis by (auto simp: breaker_inv_def same_config_def map_of_update)
qed (simp_all add: assms(2))

lemma CheckRecovery_inv:
  assumes "run_state (CheckRecovery b) rt = ((b', tr), rt')" and "breaker_inv b"
  shows "breaker_inv b' \<and> same_config b b'"
proof -
  have wf: "wf_map (pods b)" using assms(2) by (simp add: breaker_inv_def)
  from assms(1) obtain rt0 where
    run: "run_state (for_each (permute (choice rt 0) (pods b)) check_one (b, [])) rt0 = ((b', tr), rt')"
    by (rule CheckRecovery_elim)
  have "breaker_inv (fst (b', tr)) \<and> same_config b (fst (b', tr))"
  proof (rule for_each_invariant [OF run, where P = "\<lambda>s rt. breaker_inv (fst s) \<and> same_config b (fst s)"])
    fix e s rt1 s' rt1'
    assume "e \<in> set (permute (choice rt 0) (pods b))"
      and s: "breaker_inv (fst s) \<and> same_config b (fst s)"
      and step: "run_state (check_one e s) rt1 = (s', rt1')"
    then have "map_of (pods b) (fst e) = Some (snd e)" using wf by (simp add: map_of_SomeD_wf)
    then have "pod_inv (consecutiveViolations (fst s)) (snd e)"
      using assms(2) s unfolding breaker_inv_def same_config_def by metis
    with check_one_inv [of "fst e" "snd e" "fst s" "snd s" rt1 "fst s'" "snd s'" rt1'] step s
    show "breaker_inv (fst s') \<and> same_config b (fst s')" by (auto simp: same_config_def)
  qed (simp add: assms(2))
  then show ?thesis by simp
qed

lemma CheckRecovery_readmits:
  assumes "run_state (CheckRecovery b) rt = ((b', tr), rt')" and "IsEjected b' ip"
  shows "IsEjected b ip"
proof -
  from assms(1) obtain rt0 where
    run: "run_state (for_each (permute (choice rt 0) (pods b)) check_one (b, [])) rt0 = ((b', tr), rt')"
    by (rule CheckRecovery_elim)
  have "IsEjected (fst (b', tr)) ip \<longrightarrow> IsEjected b ip"
  proof (rule for_each_invariant [OF run, where P = "\<lambda>s rt. IsEjected (fst s) ip \<longrightarrow> IsEjected b ip"])
    fix e s rt1 s' rt1'
    assume s: "IsEjected (fst s) ip \<longrightarrow> IsEjected b ip"
      and step: "run_state (check_one e s) rt1 = (s', rt1')"
    have "IsEjected (fst s') ip \<longrightarrow> IsEjected (fst s) ip"
      by (rule check_one_cases [of "fst e" "snd e" "fst s" "snd s" rt1 "fst s'" "snd s'" rt1'])
        (use step in \<open>auto simp: IsEjected_def map_of_update split: if_splits\<close>)
    with s show "IsEjected (fst s') ip \<longrightarrow> IsEjected b ip" by blast
  qed simp
  with assms(2) show ?thesis by simp
qed

text \<open>The operations keep the contract the reconciler relies on.\<close>

interpretation breaker: ejector RecordLatency CheckRecovery IsEjected breaker_inv p99Threshold
proof
  fix b b' ip jp p tr and rt rt' :: "'x runtime_scheme"
  show "breaker_inv b \<Longrightarrow> run_state (RecordLatency ip p b) rt = (b', rt') \<Longrightarrow> breaker_inv b'"
    by (rule RecordLatency_inv)
  show "breaker_inv b \<Longrightarrow> run_state (CheckRecovery b) rt = ((b', tr), rt') \<Longrightarrow> breaker_inv b'"
    by (blast dest: CheckRecovery_inv)
  show "run_state (RecordLatency ip p b) rt = (b', rt') \<Longrightarrow> p99Threshold b' = p99Threshold b"
    by (simp add: RecordLatency_pod)
  show "breaker_inv b \<Longrightarrow> run_state (CheckRecovery b) rt = ((b', tr), rt') \<Longrightarrow> p99Threshold b' = p99Threshold b"
    by (drule (1) CheckRecovery_inv) (simp add: same_config_def)
  show "run_state (RecordLatency ip p b) rt = (b', rt') \<Longrightarrow> jp \<noteq> ip \<Longrightarrow> IsEjected b' jp = IsEjected b jp"
    by (simp add: IsEjected_def RecordLatency_pod)
  show "run_state (RecordLatency ip p b) rt = (b', rt') \<Longrightarrow> p \<le> p99Threshold b \<Longrightarrow>
      IsEjected b' ip \<Longrightarrow> IsEjected b ip"
    by (drule RecordLatency_pod(1)) (auto elim!: observe_cases simp: IsEjected_pod_of)
  show "breaker_inv b \<Longrightarrow> run_state (CheckRecovery b) rt = ((b', tr), rt') \<Longrightarrow>
      IsEjected b' ip \<Longrightarrow> IsEjected b ip"
    by (blast dest: CheckRecovery_readmits)
qed

subsection \<open>Sequences of operations\<close>

text \<open>
  The state-changing operations, as their callers may interleave them. \<open>reachable cfg\<close> holds of the
  breakers that some sequence of operations, under some clocks, makes of \<open>NewBreaker cfg\<close>.
\<close>

datatype cb_op = OpRecord string duration | OpCheck | OpRemove string | OpReset

fun apply_op :: "cb_op \<Rightarrow> Breaker \<Rightarrow> ('x runtime_scheme, Breaker) state" where
  "apply_op (OpRecord ip p99) b = RecordLatency ip p99 b"
| "apply_op OpCheck b = do { r \<leftarrow> CheckRecovery b; ret (fst r) }"
| "apply_op (OpRemove ip) b = ret (RemovePod ip b)"
| "apply_op OpReset b = ret (ResetBreaker b)"

inductive reachable :: "Config \<Rightarrow> Breaker \<Rightarrow> bool" for cfg where
  start: "reachable cfg (NewBreaker cfg)"
| step: "reachable cfg b \<Longrightarrow> run_state (apply_op op b) (rt :: runtime) = (b', rt') \<Longrightarrow> reachable cfg b'"

lemma run_OpCheck:
  assumes "run_state (apply_op OpCheck b) rt = (b', rt')"
  obtains tr where "run_state (CheckRecovery b) rt = ((b', tr), rt')"
  using assms by (auto split: prod.splits)

lemma apply_op_advances:
  assumes "run_state (apply_op op b) rt = (b', rt')"
  shows "advances rt rt'"
proof (cases op)
  case (OpRecord ip p)
  with assms show ?thesis by (auto intro: RecordLatency_advances)
next
  case OpCheck
  with assms obtain tr where "run_state (CheckRecovery b) rt = ((b', tr), rt')"
    by (metis run_OpCheck)
  then show ?thesis by (rule CheckRecovery_advances)
qed (use assms in auto)

lemma apply_op_inv:
  assumes "run_state (apply_op op b) rt = (b', rt')" and inv: "breaker_inv b"
  shows "breaker_inv b' \<and> same_config b b'"
proof (cases op)
  case (OpRecord ip p)
  with assms show ?thesis by (auto intro: RecordLatency_inv RecordLatency_same_config)
next
  case OpCheck
  with assms(1) obtain tr where "run_state (CheckRecovery b) rt = ((b', tr), rt')"
    by (metis run_OpCheck)
  then show ?thesis using inv by (rule CheckRecovery_inv)
next
  case (OpRemove ip)
  with assms show ?thesis
    by (auto simp: RemovePod_def breaker_inv_def same_config_def map_of_delete_if split: if_splits)
next
  case OpReset
  with assms show ?thesis by (auto simp: ResetBreaker_def breaker_inv_def same_config_def)
qed

lemma reachable_inv: "reachable cfg b \<Longrightarrow> breaker_inv b \<and> same_config (NewBreaker cfg) b"
proof (induction rule: reachable.induct)
  case start
  show ?case by (simp add: NewBreaker_def breaker_inv_def)
next
  case (step b op rt b' rt')
  then have "breaker_inv b' \<and> same_config b b'" by (blast dest: apply_op_inv)
  with step.IH show ?case by (simp add: same_config_def)
qed

text \<open>
  (C4) In every reachable breaker each pod is in one of the three states, its violation count is
  between 0 and the larger of 1 and the configured number (so the \<open>int32\<close> never overflows), and it
  is in the closed state exactly when the count has not reached the configured number (or is 0);
  the configuration is the one the breaker was created with.
\<close>

theorem reachable_pod_states:
  assumes "reachable cfg b" and "GetState b ip = (ps, True)"
  shows "psState ps \<in> {StateClosed, StateOpen, StateHalfOpen}
    \<and> 0 \<le> violationCount ps \<and> violationCount ps \<le> max 1 (cfgConsecutiveViolations cfg)
    \<and> (psState ps = StateClosed \<longleftrightarrow>
         violationCount ps = 0 \<or> violationCount ps < cfgConsecutiveViolations cfg)
    \<and> p99Threshold b = cfgP99Threshold cfg \<and> recoveryInterval b = cfgRecoveryInterval cfg"
proof -
  from reachable_inv [OF assms(1)] have inv: "breaker_inv b" and cfg: "same_config (NewBreaker cfg) b"
    by simp_all
  have "map_of (pods b) ip = Some ps"
    using assms(2) by (auto simp: GetState_def split: option.splits)
  with inv have "pod_inv (consecutiveViolations b) ps" by (simp add: breaker_inv_def)
  moreover have "\<not> (1 :: int32) \<le> 0" by (simp add: less_eq_go_int_def)
  ultimately show ?thesis
    using cfg by (auto simp: pod_inv_def same_config_def NewBreaker_def split: cb_state.splits)
qed

theorem reachable_pod_states_witness:
  "\<exists>b ps. GetState b ''10.0.0.1'' = (ps, True) \<and> psState ps \<in> {StateClosed, StateOpen, StateHalfOpen}"
proof -
  let ?cfg = "\<lparr>cfgP99Threshold = 100, cfgConsecutiveViolations = 3, cfgRecoveryInterval = 1000\<rparr>"
  let ?rt = "\<lparr>clock = \<lambda>n. int n, choice = \<lambda>n. []\<rparr> :: runtime"
  obtain b' rt' where run: "run_state (apply_op (OpRecord ''10.0.0.1'' 200) (NewBreaker ?cfg)) ?rt = (b', rt')"
    by fastforce
  then have "reachable ?cfg b'" by (rule reachable.step [OF reachable.start])
  moreover have "GetState b' ''10.0.0.1'' = (pod_of b' ''10.0.0.1'', True)"
    using run by (simp add: GetState_pod_of RecordLatency_pod)
  ultimately show ?thesis using reachable_pod_states by blast
qed

subsection \<open>How long an ejection lasts\<close>

text \<open>The relation kept by every operation that does not forget the pod.\<close>

definition stays :: "string \<Rightarrow> PodState \<Rightarrow> Breaker \<Rightarrow> 'x runtime_scheme \<Rightarrow> bool" where
  "stays ip ps b rt \<longleftrightarrow> breaker_inv b \<and> monotonic rt \<and>
     (time_sub (clock rt 0) (ejectedAt ps) < recoveryInterval b \<longrightarrow> map_of (pods b) ip = Some ps)"

lemma apply_op_stays:
  assumes "stays ip ps b rt" and open': "psState ps = StateOpen"
    and run: "run_state (apply_op op b) rt = (b', rt')"
    and "op \<noteq> OpRemove ip" and "op \<noteq> OpReset"
  shows "stays ip ps b' rt'"
proof -
  have inv: "breaker_inv b" and mono: "monotonic rt" using assms(1) by (simp_all add: stays_def)
  have adv: "advances rt rt'" using run by (rule apply_op_advances)
  have le: "clock rt 0 \<le> clock rt' 0" using adv mono by (rule advances_le)
  have inv': "breaker_inv b'" and cfg: "recoveryInterval b' = recoveryInterval b"
    using apply_op_inv [OF run inv] by (simp_all add: same_config_def)
  have "map_of (pods b') ip = Some ps"
    if soon: "time_sub (clock rt' 0) (ejectedAt ps) < recoveryInterval b"
  proof -
    have "time_sub (clock rt 0) (ejectedAt ps) < recoveryInterval b"
      using time_sub_mono [OF le] soon by (rule le_less_trans)
    with assms(1) have look: "map_of (pods b) ip = Some ps" and
      wait: "run_state (observe b p ps) rt = (ps, tick rt)" for p
      by (simp_all add: stays_def observe_open_wait open')
    show ?thesis
    proof (cases op)
      case (OpRecord jp p)
      with run have rec: "run_state (RecordLatency jp p b) rt = (b', rt')" by simp
      show ?thesis
      proof (cases "jp = ip")
        case True
        have "pod_of b ip = ps" by (simp add: pod_of_def look)
        with RecordLatency_pod(1,3) [OF rec] True wait show ?thesis by simp
      next
        case False
        with RecordLatency_pod(2) [OF rec, of ip] look show ?thesis by simp
      qed
    next
      case OpCheck
      with run obtain tr where "run_state (CheckRecovery b) rt = ((b', tr), rt')" by (metis run_OpCheck)
      then have "swept b (clock rt 0) (clock rt' 0) (pods b) b' tr"
        using inv mono by (simp add: CheckRecovery_swept breaker_inv_def)
      moreover have "\<not> due b (clock rt' 0) ps" using soon by (simp add: due_def not_le)
      ultimately show ?thesis using look by (blast intro: swept_not_due)
    next
      case (OpRemove jp)
      with run look assms(4) show ?thesis by (auto simp: RemovePod_def map_of_delete_if)
    qed (use assms(5) in simp)
  qed
  with inv' adv mono cfg show ?thesis by (auto simp: stays_def intro: advances_monotonic)
qed

text \<open>
  (C2) An ejected pod stays ejected, its record untouched, through any sequence of observations
  and sweeps (whatever the latencies, and whatever happens to other pods), as long as the clock has
  not moved past the ejection by the recovery interval; only \<open>RemovePod\<close> and \<open>Reset\<close> forget it.
\<close>

theorem ejection_lasts:
  assumes "reachable cfg b" and "monotonic rt"
    and "GetState b ip = (ps, True)" and "psState ps = StateOpen"
    and "run_state (for_each ops apply_op b) rt = (b', rt')"
    and "OpRemove ip \<notin> set ops" and "OpReset \<notin> set ops"
    and "time_sub (clock rt' 0) (ejectedAt ps) < cfgRecoveryInterval cfg"
  shows "IsEjected b' ip \<and> GetState b' ip = (ps, True)"
proof -
  have inv: "breaker_inv b" and cfg: "recoveryInterval b = cfgRecoveryInterval cfg"
    using reachable_inv [OF assms(1)] by (simp_all add: same_config_def NewBreaker_def)
  have look: "map_of (pods b) ip = Some ps"
    using assms(3) by (auto simp: GetState_def split: option.splits)
  have "stays ip ps b' rt' \<and> recoveryInterval b' = recoveryInterval b"
  proof (rule for_each_invariant [OF assms(5),
        where P = "\<lambda>b' rt. stays ip ps b' rt \<and> recoveryInterval b' = recoveryInterval b"])
    fix op b1 rt1 b2 rt2
    assume op: "op \<in> set ops" and b1: "stays ip ps b1 rt1 \<and> recoveryInterval b1 = recoveryInterval b"
      and run: "run_state (apply_op op b1) rt1 = (b2, rt2)"
    from op assms(6,7) have "op \<noteq> OpRemove ip" "op \<noteq> OpReset" by auto
    with b1 run assms(4) have "stays ip ps b2 rt2" by (blast intro: apply_op_stays)
    moreover have "recoveryInterval b2 = recoveryInterval b1"
      using apply_op_inv [OF run] b1 by (simp add: stays_def same_config_def)
    ultimately show "stays ip ps b2 rt2 \<and> recoveryInterval b2 = recoveryInterval b" using b1 by simp
  qed (simp add: stays_def inv look assms(2))
  then have "map_of (pods b') ip = Some ps" using assms(8) cfg by (simp add: stays_def)
  then show ?thesis using assms(4) by (simp add: IsEjected_def GetState_def)
qed

text \<open>A breaker with one ejected pod, for the concrete instances below.\<close>

definition sample_config :: Config where
  "sample_config = \<lparr>cfgP99Threshold = 100, cfgConsecutiveViolations = 1, cfgRecoveryInterval = 1000\<rparr>"

definition frozen :: "time \<Rightarrow> runtime" where
  "frozen t = \<lparr>clock = (\<lambda>n. t), choice = (\<lambda>n. [])\<rparr>"

definition sample_ejected :: PodState where
  "sample_ejected = \<lparr>psState = StateOpen, violationCount = 1, lastViolationTime = 0, ejectedAt = 0,
     lastRecoveryProbeAt = zero_time\<rparr>"

definition sample_breaker :: Breaker where
  "sample_breaker = \<lparr>pods = [(''10.0.0.1'', sample_ejected)], p99Threshold = 100,
     consecutiveViolations = 1, recoveryInterval = 1000\<rparr>"

lemma reachable_sample: "reachable sample_config sample_breaker"
proof -
  have "run_state (apply_op (OpRecord ''10.0.0.1'' 200) (NewBreaker sample_config)) (frozen 0)
      = (sample_breaker, frozen 0)"
    by (simp add: RecordLatency_def NewBreaker_def observe_def Let_def zero_PodState_def
        sample_config_def sample_breaker_def sample_ejected_def frozen_def go_eval)
  then show ?thesis by (rule reachable.step [OF reachable.start])
qed

lemma monotonic_frozen: "monotonic (frozen t)"
  by (simp add: monotonic_def frozen_def mono_def)

theorem ejection_lasts_witness:
  "\<exists>b' rt'. run_state (for_each [OpCheck, OpRecord ''10.0.0.1'' 50] apply_op sample_breaker) (frozen 999)
      = (b', rt') \<and> IsEjected b' ''10.0.0.1''"
proof -
  obtain b' rt' where run:
    "run_state (for_each [OpCheck, OpRecord ''10.0.0.1'' 50] apply_op sample_breaker) (frozen 999) = (b', rt')"
    by (metis surj_pair)
  then have "advances (frozen 999) rt'"
    by (rule for_each_advances) (rule apply_op_advances)
  then have "clock rt' 0 = 999" by (auto simp: advances_def frozen_def)
  then have "time_sub (clock rt' 0) (ejectedAt sample_ejected) < cfgRecoveryInterval sample_config"
    by (simp add: less_go_int_def sval_time_sub sample_ejected_def sample_config_def go_eval)
  with ejection_lasts [OF reachable_sample monotonic_frozen _ _ run, of "''10.0.0.1''" sample_ejected] run
  show ?thesis by (simp add: GetState_def sample_breaker_def sample_ejected_def)
qed

subsection \<open>When a pod is ejected\<close>

text \<open>The number of consecutive violations at the end of a history of observations.\<close>

definition trailing :: "duration \<Rightarrow> duration list \<Rightarrow> nat" where
  "trailing thr obs = length (takeWhile (\<lambda>p. thr < p) (rev obs))"

lemma trailing_Nil [simp]: "trailing thr [] = 0"
  by (simp add: trailing_def)

lemma trailing_snoc [simp]:
  "trailing thr (obs @ [p]) = (if thr < p then Suc (trailing thr obs) else 0)"
  by (simp add: trailing_def)

text \<open>What a mixed list of measurements says about one pod.\<close>

definition obs_of :: "string \<Rightarrow> (string \<times> duration) list \<Rightarrow> duration list" where
  "obs_of ip rs = map snd (filter (\<lambda>r. fst r = ip) rs)"

abbreviation record_each :: "(string \<times> duration) list \<Rightarrow> Breaker \<Rightarrow> ('x runtime_scheme, Breaker) state" where
  "record_each rs \<equiv> for_each rs (\<lambda>r. RecordLatency (fst r) (snd r))"

definition below :: "duration \<Rightarrow> int32 \<Rightarrow> duration list \<Rightarrow> bool" where
  "below thr cv obs \<longleftrightarrow> (\<forall>i \<le> length obs. int (trailing thr (take i obs)) < sval cv)"

lemma below_snoc:
  "below thr cv (obs @ [p]) \<longleftrightarrow> below thr cv obs \<and> int (trailing thr (obs @ [p])) < sval cv"
  by (auto simp: below_def le_Suc_eq)

lemma below_last: "below thr cv obs \<Longrightarrow> int (trailing thr obs) < sval cv"
  unfolding below_def by (metis order_refl take_all)

lemma closed_counts:
  assumes "run_state (record_each rs b) rt = (b', rt')"
    and "map_of (pods b) ip = None"
    and "below (p99Threshold b) (consecutiveViolations b) (obs_of ip rs)"
  shows "same_config b b' \<and> psState (pod_of b' ip) = StateClosed
    \<and> sval (violationCount (pod_of b' ip)) = int (trailing (p99Threshold b) (obs_of ip rs))"
  using assms(1,3)
proof (induction rs arbitrary: b' rt' rule: rev_induct)
  case Nil
  with assms(2) show ?case by (simp add: obs_of_def pod_of_def zero_PodState_def)
next
  case (snoc r rs)
  obtain b1 rt1 where init: "run_state (record_each rs b) rt = (b1, rt1)" by fastforce
  with snoc.prems(1) have last: "run_state (RecordLatency (fst r) (snd r) b1) rt1 = (b', rt')"
    by (simp add: run_for_each_snoc)
  have "below (p99Threshold b) (consecutiveViolations b) (obs_of ip rs)"
    using snoc.prems(2) by (cases "fst r = ip") (simp_all add: obs_of_def below_snoc)
  note IH = snoc.IH [OF init this]
  from RecordLatency_same_config [OF last] IH have cfg: "same_config b b'" by (simp add: same_config_def)
  show ?case
  proof (cases "fst r = ip")
    case False
    with RecordLatency_pod(2) [OF last, of ip] have "pod_of b' ip = pod_of b1 ip"
      by (simp add: pod_of_def)
    with IH cfg False show ?thesis by (simp add: obs_of_def)
  next
    case True
    have snoc': "obs_of ip (rs @ [r]) = obs_of ip rs @ [snd r]" using True by (simp add: obs_of_def)
    have lt: "int (trailing (p99Threshold b) (obs_of ip rs @ [snd r])) < sval (consecutiveViolations b)"
      using snoc.prems(2) unfolding snoc' by (simp add: below_snoc)
    have "run_state (observe b1 (snd r) (pod_of b1 ip)) rt1 = (pod_of b' ip, rt')"
      using RecordLatency_pod(1) [OF last] True by simp
    then show ?thesis
    proof (cases rule: observe_cases)
      case violation
      have "violationCount (pod_of b1 ip) < consecutiveViolations b"
        using IH lt violation(2) by (simp add: less_go_int_def same_config_def split: if_splits)
      from sval_succ_32 [OF this] IH violation cfg snoc' show ?thesis by (simp add: same_config_def)
    next
      case trip
      have "violationCount (pod_of b1 ip) < consecutiveViolations b"
        using IH lt trip(2) by (simp add: less_go_int_def same_config_def split: if_splits)
      from sval_succ_32 [OF this] IH trip(2,3) lt show ?thesis
        by (simp add: less_eq_go_int_def same_config_def)
    qed (use IH cfg snoc' in \<open>auto simp: same_config_def\<close>)
  qed
qed

lemma obs_of_last:
  assumes "obs_of ip rs \<noteq> []"
  obtains rs1 r rs2 where "rs = rs1 @ r # rs2" and "fst r = ip"
    and "obs_of ip rs = obs_of ip rs1 @ [snd r]" and "ip \<notin> fst ` set rs2"
proof -
  have "\<exists>r \<in> set rs. fst r = ip" using assms by (auto simp: obs_of_def filter_empty_conv)
  from split_list_last_prop [OF this] obtain rs1 r rs2
    where rs: "rs = rs1 @ r # rs2" "fst r = ip" "\<forall>q \<in> set rs2. fst q \<noteq> ip" by blast
  moreover have "filter (\<lambda>q. fst q = ip) rs2 = []" using rs(3) by (simp add: filter_empty_conv)
  moreover have "ip \<notin> fst ` set rs2" using rs(3) by auto
  ultimately show thesis by (intro that [of rs1 r rs2]) (simp_all add: obs_of_def)
qed

text \<open>
  (C1) A pod the breaker has not seen yet is ejected exactly by the configured number of consecutive
  measurements above the threshold: given a mixed sequence of measurements of many pods, in which
  this pod's measurements had not reached that number earlier, the pod is ejected at the end if and
  only if the run of violations at the end of its own measurements has exactly the configured
  length. A single measurement within the threshold restarts the run; other pods do not matter.
\<close>

theorem ejected_iff_consecutive:
  assumes "run_state (record_each rs b) rt = (b', rt')"
    and "map_of (pods b) ip = None" and "1 \<le> sval (consecutiveViolations b)"
    and early: "\<forall>i < length (obs_of ip rs).
      int (trailing (p99Threshold b) (take i (obs_of ip rs))) < sval (consecutiveViolations b)"
  shows "IsEjected b' ip \<longleftrightarrow>
    int (trailing (p99Threshold b) (obs_of ip rs)) = sval (consecutiveViolations b)"
proof (cases "below (p99Threshold b) (consecutiveViolations b) (obs_of ip rs)")
  case True
  from closed_counts [OF assms(1,2) True] below_last [OF True] show ?thesis
    by (simp add: IsEjected_pod_of)
next
  case False
  have "obs_of ip rs \<noteq> []" using False assms(3) by (auto simp: below_def)
  then obtain rs1 r rs2 where rs: "rs = rs1 @ r # rs2" "fst r = ip" "ip \<notin> fst ` set rs2"
    and obs: "obs_of ip rs = obs_of ip rs1 @ [snd r]" by (rule obs_of_last)
  let ?thr = "p99Threshold b" and ?cv = "consecutiveViolations b" and ?n = "trailing (p99Threshold b) (obs_of ip rs1)"
  have bel: "below ?thr ?cv (obs_of ip rs1)"
    using early unfolding obs by (auto simp: below_def)
  obtain b1 rt1 where run1: "run_state (record_each rs1 b) rt = (b1, rt1)" by fastforce
  obtain b2 rt2 where run2: "run_state (RecordLatency (fst r) (snd r) b1) rt1 = (b2, rt2)" by fastforce
  have run3: "run_state (record_each rs2 b2) rt2 = (b', rt')"
    using assms(1) run1 run2 by (simp add: rs(1) run_for_each_append)
  note c = closed_counts [OF run1 assms(2) bel]
  have viol: "?thr < snd r" and n: "int ?n + 1 = sval ?cv"
    using False bel below_last [OF bel] assms(3) by (auto simp: obs below_snoc split: if_splits)
  have "violationCount (pod_of b1 ip) < ?cv" using c n by (simp add: less_go_int_def)
  from sval_succ_32 [OF this] have "?cv \<le> violationCount (pod_of b1 ip) + 1"
    using c n by (simp add: less_eq_go_int_def)
  moreover have "run_state (observe b1 (snd r) (pod_of b1 ip)) rt1 = (pod_of b2 ip, rt2)"
    using RecordLatency_pod(1) [OF run2] rs(2) by simp
  ultimately have "psState (pod_of b2 ip) = StateOpen"
    by (elim observe_cases) (use c viol in \<open>auto simp: same_config_def\<close>)
  then have "IsEjected b2 ip" by (simp add: IsEjected_pod_of)
  then have "IsEjected b' ip" using breaker.record_all_other [OF run3 rs(3)] by simp
  with viol n obs show ?thesis by simp
qed

theorem ejected_iff_consecutive_witness:
  "\<exists>b' rt'. run_state (record_each [(''a'', 200), (''b'', 50), (''a'', 300)]
       \<lparr>pods = [], p99Threshold = 100, consecutiveViolations = 2, recoveryInterval = 1000\<rparr>) (frozen 0)
     = (b', rt') \<and> IsEjected b' ''a''"
proof -
  let ?b = "\<lparr>pods = [], p99Threshold = 100, consecutiveViolations = 2, recoveryInterval = 1000\<rparr>"
  let ?rs = "[(''a'', 200), (''b'', 50), (''a'', 300)]"
  obtain b' rt' where run: "run_state (record_each ?rs ?b) (frozen 0) = (b', rt')" by (rule prod.exhaust)
  have obs: "obs_of ''a'' ?rs = [200, 300]" by (simp add: obs_of_def)
  have "\<forall>i < length (obs_of ''a'' ?rs). int (trailing 100 (take i (obs_of ''a'' ?rs))) < sval (2 :: int32)"
    unfolding obs by (auto simp: less_Suc_eq trailing_def go_eval)
  with ejected_iff_consecutive [OF run, of "''a''"] obs have "IsEjected b' ''a''"
    by (simp add: trailing_def go_eval)
  with run show ?thesis by blast
qed

subsection \<open>The documented state machine\<close>

text \<open>What \<open>GetState\<close> knows of a pod, if the breaker tracks it.\<close>

definition tracked :: "Breaker \<Rightarrow> string \<Rightarrow> PodState option" where
  "tracked b ip = (case GetState b ip of (ps, found) \<Rightarrow> if found then Some ps else None)"

text \<open>
  The state machine of one pod \<open>ip\<close> as ARCHITECTURE.md draws it, with the guard of every edge, under the
  configuration \<open>cfg\<close>, for an operation that runs between the times \<open>t0\<close> and \<open>t1\<close>. The last three rules
  say where a pod enters the machine, where it leaves it, and what does not concern it.
\<close>

inductive cb_edge :: "Config \<Rightarrow> string \<Rightarrow> time \<Rightarrow> time \<Rightarrow> cb_op \<Rightarrow> PodState option \<Rightarrow> PodState option \<Rightarrow> bool"
  for cfg ip t0 t1 where
  fast: "psState ps = StateClosed \<Longrightarrow> p \<le> cfgP99Threshold cfg \<Longrightarrow>
    cb_edge cfg ip t0 t1 (OpRecord ip p) (Some ps) (Some (ps\<lparr>violationCount := 0\<rparr>))"
| slow: "psState ps = StateClosed \<Longrightarrow> cfgP99Threshold cfg < p \<Longrightarrow> sval n = sval (violationCount ps) + 1 \<Longrightarrow>
    sval n < sval (cfgConsecutiveViolations cfg) \<Longrightarrow> t0 \<le> t \<Longrightarrow> t \<le> t1 \<Longrightarrow>
    cb_edge cfg ip t0 t1 (OpRecord ip p) (Some ps) (Some (ps\<lparr>violationCount := n, lastViolationTime := t\<rparr>))"
| trip: "psState ps = StateClosed \<Longrightarrow> cfgP99Threshold cfg < p \<Longrightarrow> sval n = sval (violationCount ps) + 1 \<Longrightarrow>
    sval (cfgConsecutiveViolations cfg) \<le> sval n \<Longrightarrow> t0 \<le> t \<Longrightarrow> t \<le> u \<Longrightarrow> u \<le> t1 \<Longrightarrow>
    cb_edge cfg ip t0 t1 (OpRecord ip p) (Some ps)
      (Some (ps\<lparr>violationCount := n, lastViolationTime := t, psState := StateOpen, ejectedAt := u\<rparr>))"
| wait: "psState ps = StateOpen \<Longrightarrow> time_sub t0 (ejectedAt ps) < cfgRecoveryInterval cfg \<Longrightarrow>
    op = OpCheck \<or> op = OpRecord ip p \<Longrightarrow> cb_edge cfg ip t0 t1 op (Some ps) (Some ps)"
| probe: "psState ps = StateOpen \<Longrightarrow> cfgRecoveryInterval cfg \<le> time_sub t1 (ejectedAt ps) \<Longrightarrow> t0 \<le> t \<Longrightarrow> t \<le> t1 \<Longrightarrow>
    op = OpCheck \<or> op = OpRecord ip p \<Longrightarrow>
    cb_edge cfg ip t0 t1 op (Some ps) (Some (ps\<lparr>psState := StateHalfOpen, lastRecoveryProbeAt := t\<rparr>))"
| recover: "psState ps = StateHalfOpen \<Longrightarrow> p \<le> cfgP99Threshold cfg \<Longrightarrow>
    cb_edge cfg ip t0 t1 (OpRecord ip p) (Some ps) (Some (ps\<lparr>psState := StateClosed, violationCount := 0\<rparr>))"
| relapse: "psState ps = StateHalfOpen \<Longrightarrow> cfgP99Threshold cfg < p \<Longrightarrow> t0 \<le> u \<Longrightarrow> u \<le> t1 \<Longrightarrow>
    cb_edge cfg ip t0 t1 (OpRecord ip p) (Some ps) (Some (ps\<lparr>psState := StateOpen, ejectedAt := u\<rparr>))"
| enter: "cb_edge cfg ip t0 t1 (OpRecord ip p) (Some zero_PodState) q \<Longrightarrow> cb_edge cfg ip t0 t1 (OpRecord ip p) None q"
| forget: "op = OpRemove ip \<or> op = OpReset \<Longrightarrow> cb_edge cfg ip t0 t1 op q None"
| unconcerned: "op = OpRecord jp p \<and> jp \<noteq> ip \<or> op = OpRemove jp \<and> jp \<noteq> ip
    \<or> op = OpCheck \<and> (\<forall>ps. q = Some ps \<longrightarrow> psState ps \<noteq> StateOpen) \<Longrightarrow> cb_edge cfg ip t0 t1 op q q"

inductive_simps check_open: "cb_edge cfg ip t0 t1 OpCheck (Some ps) q"

lemma tracked_map: "tracked b ip = map_of (pods b) ip"
  by (simp add: tracked_def GetState_def split: option.split)

lemma observe_edge:
  assumes "run_state (observe b p ps) rt = (ps', rt')" and "pod_inv (consecutiveViolations b) ps" and "monotonic rt"
    and "same_config (NewBreaker cfg) b"
  shows "cb_edge cfg ip (clock rt 0) (clock rt' 0) (OpRecord ip p) (Some ps) (Some ps')"
proof -
  have cfg: "p99Threshold b = cfgP99Threshold cfg" "consecutiveViolations b = cfgConsecutiveViolations cfg"
    "recoveryInterval b = cfgRecoveryInterval cfg" using assms(4) by (simp_all add: same_config_def NewBreaker_def)
  have le: "clock rt m \<le> clock rt n" if "m \<le> n" for m n using assms(3) that by (simp add: monotonic_def mono_def)
  have succ: "sval (violationCount ps + 1) = sval (violationCount ps) + 1" if "psState ps = StateClosed"
    using assms(2) that by (intro sval_succ_closed [of _ "consecutiveViolations b"]) (auto simp: pod_inv_def)
  show ?thesis
    using assms(1)
  proof (cases rule: observe_cases)
    case violation
    with succ cfg show ?thesis unfolding violation(4) by (intro cb_edge.slow) (simp_all add: less_go_int_def le)
  next
    case trip
    with succ cfg show ?thesis unfolding trip(4) by (intro cb_edge.trip) (simp_all add: less_go_int_def less_eq_go_int_def le)
  next
    case probe
    then have "recoveryInterval b \<le> time_sub (clock rt' 0) (ejectedAt ps)"
      using time_sub_mono [OF le [of 0 "Suc (Suc 0)"]] by (simp add: order_trans)
    with probe cfg show ?thesis unfolding probe(3) by (intro cb_edge.probe) (simp_all add: le)
  next
    case other
    with assms(2) show ?thesis by (simp add: pod_inv_def)
  qed (use cfg le in \<open>auto intro: cb_edge.intros\<close>)
qed

text \<open>
  (C3) Every operation moves every pod, tracked or not, along an edge of the documented state machine whose
  guard holds, and a pod stays where it is only where no guard holds. A closed pod is ejected by the
  measurement that makes the configured number of consecutive violations and stays closed before; an ejected
  pod becomes half-open only once its recovery interval has passed, and does so at the first measurement or
  sweep after that; a half-open pod is closed or ejected again by its next measurement; and only \<open>RemovePod\<close>
  and \<open>Reset\<close> forget a pod.
\<close>

theorem apply_op_follows_edges:
  assumes "reachable cfg b" and "monotonic rt" and "run_state (apply_op op b) rt = (b', rt')"
  shows "cb_edge cfg ip (clock rt 0) (clock rt' 0) op (tracked b ip) (tracked b' ip)"
proof -
  have inv: "breaker_inv b" and cfg: "same_config (NewBreaker cfg) b" using reachable_inv [OF assms(1)] by simp_all
  show ?thesis
  proof (cases op)
    case (OpRecord jp p)
    with assms(3) have run: "run_state (RecordLatency jp p b) rt = (b', rt')" by simp
    show ?thesis
    proof (cases "jp = ip")
      case True
      from RecordLatency_pod(1) [OF run] True have "run_state (observe b p (pod_of b ip)) rt = (pod_of b' ip, rt')" by simp
      from observe_edge [OF this pod_inv_pod_of [OF inv] assms(2) cfg, of ip] RecordLatency_pod(3) [OF run] True OpRecord
      show ?thesis by (cases "map_of (pods b) ip") (auto simp: tracked_map pod_of_def intro: cb_edge.enter)
    next
      case False
      with RecordLatency_pod(2) [OF run, of ip] OpRecord show ?thesis by (auto simp: tracked_map intro: cb_edge.unconcerned)
    qed
  next
    case OpCheck
    with assms(3) obtain tr where "run_state (CheckRecovery b) rt = ((b', tr), rt')" by (metis run_OpCheck)
    then have sw: "swept b (clock rt 0) (clock rt' 0) (pods b) b' tr"
      using inv assms(2) by (simp add: CheckRecovery_swept breaker_inv_def)
    have R: "recoveryInterval b = cfgRecoveryInterval cfg" using cfg by (simp add: same_config_def NewBreaker_def)
    show ?thesis
    proof (cases "ip \<in> set tr")
      case True
      with sw have "probed b (clock rt 0) (clock rt' 0) b' ip" by (simp add: swept_def)
      with OpCheck R show ?thesis unfolding probed_def due_def tracked_map
        by (elim exE conjE) (simp del: map_of_eq_Some_iff, rule cb_edge.probe, simp_all)
    next
      case False
      with sw have same: "tracked b' ip = tracked b ip" by (simp add: swept_def tracked_map)
      have "time_sub (clock rt 0) (ejectedAt ps) < cfgRecoveryInterval cfg"
        if "tracked b ip = Some ps" "psState ps = StateOpen" for ps
      proof -
        have "(ip, ps) \<in> set (pods b)" using that(1) unfolding tracked_map by (rule map_of_SomeD)
        with sw False have "\<not> due b (clock rt 0) ps" by (auto simp: swept_def)
        with that(2) R show ?thesis by (simp add: due_def not_le)
      qed
      then show ?thesis unfolding same OpCheck
        by (cases "tracked b ip") (metis cb_edge.unconcerned option.distinct(1), metis cb_edge.unconcerned cb_edge.wait option.inject)
    qed
  next
    case (OpRemove jp)
    with assms(3) show ?thesis
      by (cases "jp = ip") (auto simp: tracked_map RemovePod_def map_of_delete_if intro: cb_edge.forget cb_edge.unconcerned)
  next
    case OpReset
    with assms(3) show ?thesis by (auto simp: tracked_map ResetBreaker_def intro: cb_edge.forget)
  qed
qed

lemma GetState_sample: "GetState sample_breaker ''10.0.0.1'' = (sample_ejected, True)"
  by (simp add: GetState_def sample_breaker_def)

text \<open>A sweep one nanosecond before the interval has passed leaves the pod ejected, one at its end does not.\<close>

theorem apply_op_follows_edges_witness:
  "tracked (fst (run_state (apply_op OpCheck sample_breaker) (frozen 999))) ''10.0.0.1'' = Some sample_ejected
   \<and> map_option psState (tracked (fst (run_state (apply_op OpCheck sample_breaker) (frozen 1000))) ''10.0.0.1'') = Some StateHalfOpen"
proof -
  have edge: "cb_edge sample_config ''10.0.0.1'' t t OpCheck (Some sample_ejected)
      (tracked (fst (run_state (apply_op OpCheck sample_breaker) (frozen t))) ''10.0.0.1'')" for t
  proof -
    obtain b' rt' where run: "run_state (apply_op OpCheck sample_breaker) (frozen t) = (b', rt')" by fastforce
    from apply_op_advances [OF run] have "clock rt' 0 = t" by (auto simp: advances_def frozen_def)
    moreover have "clock (frozen t) 0 = t" by (simp add: frozen_def)
    moreover have "tracked sample_breaker ''10.0.0.1'' = Some sample_ejected" by (simp add: tracked_def GetState_sample)
    ultimately show ?thesis
      using apply_op_follows_edges [OF reachable_sample monotonic_frozen run, of "''10.0.0.1''"] unfolding run fst_conv by metis
  qed
  have late: "cfgRecoveryInterval sample_config \<le> time_sub t (ejectedAt sample_ejected) \<longleftrightarrow> 1000 \<le> t"
    if "0 \<le> t" "t \<le> 1000" for t
    using that by (simp add: less_eq_go_int_def sval_time_sub sample_ejected_def sample_config_def go_eval)
  have "psState sample_ejected = StateOpen" by (simp add: sample_ejected_def)
  with edge [of 999] edge [of 1000] late [of 999] late [of 1000] show ?thesis
    by (auto simp: check_open not_less [symmetric])
qed

text \<open>
  (C11) The recovery sweep: the pods it reports, each once, are the ones it moves from open to half-open;
  it moves every ejected pod whose recovery interval had elapsed when the sweep began, only pods
  whose interval has elapsed when it ends, and touches no other pod.
\<close>

theorem CheckRecovery_moves_due_pods:
  assumes "reachable cfg b" and "monotonic rt"
    and "run_state (CheckRecovery b) rt = ((b', tr), rt')"
    and "GetState b ip = (ps, True)"
  shows "distinct tr
    \<and> (psState ps = StateOpen \<and> recoveryInterval b \<le> time_sub (clock rt 0) (ejectedAt ps) \<longrightarrow> ip \<in> set tr)
    \<and> (if ip \<in> set tr
        then psState ps = StateOpen \<and> recoveryInterval b \<le> time_sub (clock rt' 0) (ejectedAt ps)
          \<and> psState (fst (GetState b' ip)) = StateHalfOpen \<and> \<not> IsEjected b' ip
        else GetState b' ip = (ps, True))"
proof -
  have wf: "wf_map (pods b)" using reachable_inv [OF assms(1)] by (simp add: breaker_inv_def)
  have sw: "swept b (clock rt 0) (clock rt' 0) (pods b) b' tr"
    using assms(3) wf assms(2) by (rule CheckRecovery_swept)
  have look: "map_of (pods b) ip = Some ps"
    using assms(4) by (auto simp: GetState_def split: option.splits)
  then have mem: "(ip, ps) \<in> set (pods b)" by (rule map_of_SomeD)
  have 1: "distinct tr \<and> (due b (clock rt 0) ps \<longrightarrow> ip \<in> set tr)"
    using sw mem by (auto simp: swept_def)
  show ?thesis
  proof (cases "ip \<in> set tr")
    case True
    with sw have "probed b (clock rt 0) (clock rt' 0) b' ip" by (simp add: swept_def)
    with look have "due b (clock rt' 0) ps \<and> psState (pod_of b' ip) = StateHalfOpen"
      by (auto simp: probed_def pod_of_def)
    with 1 True show ?thesis by (simp add: due_def GetState_pod_of IsEjected_pod_of)
  next
    case False
    with sw look have "GetState b' ip = (ps, True)" by (simp add: swept_def GetState_def)
    with 1 False show ?thesis by (simp add: due_def)
  qed
qed

theorem CheckRecovery_moves_due_pods_witness:
  "\<exists>b' tr rt'. run_state (CheckRecovery sample_breaker) (frozen 1000) = ((b', tr), rt')
     \<and> ''10.0.0.1'' \<in> set tr \<and> \<not> IsEjected b' ''10.0.0.1''"
proof -
  obtain b' tr rt' where run: "run_state (CheckRecovery sample_breaker) (frozen 1000) = ((b', tr), rt')"
    by (metis surj_pair)
  note moved = CheckRecovery_moves_due_pods [OF reachable_sample monotonic_frozen run GetState_sample]
  have "psState sample_ejected = StateOpen"
    and "recoveryInterval sample_breaker \<le> time_sub (clock (frozen 1000) 0) (ejectedAt sample_ejected)"
    by (simp_all add: sample_ejected_def sample_breaker_def frozen_def less_eq_go_int_def
        sval_time_sub go_eval)
  with moved have "''10.0.0.1'' \<in> set tr" by blast
  with moved run show ?thesis by auto
qed

text \<open>
  \<open>GetEjectedPods\<close> lists exactly the pods for which \<open>IsEjected\<close> holds, each once, in whatever
  order the runtime visits the map.
\<close>

theorem GetEjectedPods_exact:
  assumes "reachable cfg b" and "run_state (GetEjectedPods b) rt = (ips, rt')"
  shows "distinct ips \<and> set ips = {ip. IsEjected b ip}"
proof -
  have wf: "wf_map (pods b)" using reachable_inv [OF assms(1)] by (simp add: breaker_inv_def)
  let ?es = "permute (choice rt 0) (pods b)"
  have ips: "ips = map fst (filter (\<lambda>(ip, ps). psState ps = StateOpen) ?es)"
    using assms(2) by (simp add: GetEjectedPods_def)
  have "distinct (map fst ?es)" using wf by simp
  then have "distinct ips" unfolding ips by (rule distinct_map_filter)
  moreover have "set ips = {ip. IsEjected b ip}"
  proof -
    have "IsEjected b ip \<longleftrightarrow> (\<exists>ps. (ip, ps) \<in> set (pods b) \<and> psState ps = StateOpen)" for ip
      unfolding map_of_SomeD_wf [OF wf, symmetric] by (simp add: IsEjected_def split: option.split)
    then show ?thesis by (force simp: ips)
  qed
  ultimately show ?thesis by simp
qed

theorem GetEjectedPods_exact_witness:
  "\<exists>ips rt'. run_state (GetEjectedPods sample_breaker) (frozen 0) = (ips, rt') \<and> set ips = {''10.0.0.1''}"
proof -
  obtain ips rt' where run: "run_state (GetEjectedPods sample_breaker) (frozen 0) = (ips, rt')"
    by (metis surj_pair)
  have "{ip. IsEjected sample_breaker ip} = {''10.0.0.1''}"
    by (auto simp: IsEjected_def sample_breaker_def sample_ejected_def split: if_splits)
  with GetEjectedPods_exact [OF reachable_sample run] run show ?thesis by auto
qed

end
