(* ===== verification/Latency_Types.thy ===== *)
theory Latency_Types
  imports Go_Prelude
begin

section \<open>Latency statistics\<close>

text \<open>The data of \<open>internal/latency\<close>: \<open>Stats\<close> (\<open>source.go\<close>) and \<open>PodRanking\<close> (\<open>aggregator.go\<close>).\<close>

record Stats =
  P50 :: duration
  P99 :: duration
  SampleCount :: int64
  LastUpdated :: time

record PodRanking =
  rankPodName :: string
  rankPodIP :: string
  rankStats :: Stats

abbreviation rankP99 :: "PodRanking \<Rightarrow> duration" where
  "rankP99 r \<equiv> P99 (rankStats r)"

end
