(* ===== verification/Sorting_Contract.thy ===== *)
theory Sorting_Contract
  imports Go_Prelude
begin

section \<open>What the program expects of a sort\<close>

text \<open>
  The components sort in three ways: \<open>sort.Slice\<close> on rankings, \<open>sort.Slice\<close> on plain latencies, and
  a hand-written insertion sort. All of them rearrange their input into ascending order, and every
  percentile the program reports is an entry of such a list. The locale states the contract once;
  its lemmas say what an entry at a given index of the sorted list means for the unsorted input.
\<close>

text \<open>Counting in a sorted list.\<close>

lemma sorted_count_le:
  assumes "sorted (map key ys)" and "i < length ys"
  shows "i < length (filter (\<lambda>y. key y \<le> key (ys ! i)) ys)"
proof -
  have "\<forall>y \<in> set (take (Suc i) ys). key y \<le> key (ys ! i)"
  proof
    fix y assume "y \<in> set (take (Suc i) ys)"
    then obtain j where "j < Suc i" "y = ys ! j"
      using assms(2) by (force simp: in_set_conv_nth)
    with assms show "key y \<le> key (ys ! i)" using sorted_nth_mono [OF assms(1), of j i] by simp
  qed
  then have "filter (\<lambda>y. key y \<le> key (ys ! i)) (take (Suc i) ys) = take (Suc i) ys"
    by (rule filter_True)
  then have "Suc i \<le> length (filter (\<lambda>y. key y \<le> key (ys ! i)) (take (Suc i) ys @ drop (Suc i) ys))"
    using assms(2) by (simp only: filter_append length_append) simp
  then show ?thesis by simp
qed

lemma sorted_count_less:
  assumes "sorted (map key ys)" and "i < length ys"
  shows "length (filter (\<lambda>y. key y < key (ys ! i)) ys) \<le> i"
proof -
  have "\<forall>y \<in> set (drop i ys). \<not> key y < key (ys ! i)"
  proof
    fix y assume "y \<in> set (drop i ys)"
    then obtain j where "j < length ys - i" "y = ys ! (i + j)" by (force simp: in_set_conv_nth)
    then have "key (ys ! i) \<le> key y" using sorted_nth_mono [OF assms(1), of i "i + j"] assms(2) by simp
    then show "\<not> key y < key (ys ! i)" by (simp add: not_less)
  qed
  then have "filter (\<lambda>y. key y < key (ys ! i)) (drop i ys) = []" by (simp add: filter_empty_conv)
  then have "length (filter (\<lambda>y. key y < key (ys ! i)) (take i ys @ drop i ys)) \<le> i"
    by (simp only: filter_append length_append) (simp add: le_trans [OF length_filter_le])
  then show ?thesis by simp
qed

locale sorter =
  fixes srt :: "'a list \<Rightarrow> 'a list" and key :: "'a \<Rightarrow> 'k::linorder"
  assumes mset_srt: "mset (srt xs) = mset xs"
    and sorted_srt: "sorted (map key (srt xs))"
begin

lemma length_srt [simp]: "length (srt xs) = length xs"
  by (metis mset_srt size_mset)

lemma set_srt [simp]: "set (srt xs) = set xs"
  by (metis mset_srt set_mset_mset)

lemma length_filter_srt: "length (filter P (srt xs)) = length (filter P xs)"
  by (metis mset_filter mset_srt size_mset)

text \<open>More than \<open>i\<close> inputs are at or below the entry at index \<open>i\<close>, at most \<open>i\<close> strictly below.\<close>

lemma rank_le: "i < length xs \<Longrightarrow> i < length (filter (\<lambda>x. key x \<le> key (srt xs ! i)) xs)"
  using sorted_count_le [OF sorted_srt, of i xs] by (simp add: length_filter_srt)

lemma rank_less: "i < length xs \<Longrightarrow> length (filter (\<lambda>x. key x < key (srt xs ! i)) xs) \<le> i"
  using sorted_count_less [OF sorted_srt, of i xs] by (simp add: length_filter_srt)

lemma nth_srt_mem: "i < length xs \<Longrightarrow> srt xs ! i \<in> set xs"
  by (metis length_srt nth_mem set_srt)

lemma nth_srt_mono: "i \<le> j \<Longrightarrow> j < length xs \<Longrightarrow> key (srt xs ! i) \<le> key (srt xs ! j)"
  using sorted_nth_mono [OF sorted_srt, of i j xs] by simp

text \<open>The first entry is the least, the last the greatest.\<close>

lemma first_least: "x \<in> set xs \<Longrightarrow> key (srt xs ! 0) \<le> key x"
  using nth_srt_mono [of 0 _ xs] set_srt [of xs] by (metis in_set_conv_nth le0 length_srt)

lemma last_greatest: "x \<in> set xs \<Longrightarrow> key x \<le> key (srt xs ! (length xs - 1))"
proof -
  assume "x \<in> set xs"
  then obtain i where "i < length xs" "x = srt xs ! i" by (metis in_set_conv_nth length_srt set_srt)
  then show ?thesis using nth_srt_mono [of i "length xs - 1" xs] by simp
qed

text \<open>The entry a percentile picks, at index \<open>p * n div 100\<close>.\<close>

lemma percentile_index: "p < 100 \<Longrightarrow> xs \<noteq> [] \<Longrightarrow> p * length xs div 100 < length xs"
proof -
  assume "p < 100" and "xs \<noteq> []"
  then have "p * length xs < 100 * length xs" by simp
  then show ?thesis by (simp add: div_less_iff_less_mult mult.commute)
qed

lemma percentile_entry:
  assumes "p < 100" and "xs \<noteq> []"
  defines "v \<equiv> srt xs ! (p * length xs div 100)"
  shows "v \<in> set xs"
    and "p * length xs < 100 * length (filter (\<lambda>x. key x \<le> key v) xs)"
    and "100 * length (filter (\<lambda>x. key x < key v) xs) \<le> p * length xs"
    and "(100 - p) * length xs \<le> 100 \<Longrightarrow> x \<in> set xs \<Longrightarrow> key x \<le> key v"
proof -
  let ?i = "p * length xs div 100"
  have i: "?i < length xs" using assms(1,2) by (rule percentile_index)
  show "v \<in> set xs" unfolding v_def by (rule nth_srt_mem [OF i])
  show "p * length xs < 100 * length (filter (\<lambda>x. key x \<le> key v) xs)"
    using rank_le [OF i] unfolding v_def by linarith
  show "100 * length (filter (\<lambda>x. key x < key v) xs) \<le> p * length xs"
    using rank_less [OF i] unfolding v_def by linarith
  assume "(100 - p) * length xs \<le> 100" and x: "x \<in> set xs"
  then have "100 * length xs - p * length xs \<le> 100" by (simp add: diff_mult_distrib)
  then have "length xs - 1 \<le> ?i" by linarith
  then have "?i = length xs - 1" using i by linarith
  then show "key x \<le> key v" unfolding v_def using last_greatest [OF x] by simp
qed

end

text \<open>The index as the code computes it, with its guard.\<close>

lemma go_percentile_index:
  fixes n p :: nat
  assumes "0 < n" and "n < 2 ^ 32" and "p < 100"
  shows "(let idx = go_div (of_nat p * of_nat n) 100
     in if idx \<ge> of_nat n then of_nat n - 1 else idx) = (of_nat (p * n div 100) :: int64)"
proof -
  have len: "sval (of_nat n :: int64) = int n" and p: "sval (of_nat p :: int64) = int p"
    using assms by (simp_all add: sval_of_nat_64)
  have "int p * int n \<le> 99 * (2 ^ 32)" using assms by (intro mult_mono) simp_all
  then have prod: "sval (of_nat p * of_nat n :: int64) = int p * int n"
    by (subst sval_mult_64) (simp_all add: len p order.trans [of _ 0])
  have idx: "sval (go_div (of_nat p * of_nat n) 100 :: int64) = int (p * n div 100)"
    by (subst sval_go_div_64) (simp_all add: prod go_eval zdiv_int)
  have "p * n < 100 * n" using assms by simp
  then have lt: "p * n div 100 < n" by (simp add: div_less_iff_less_mult mult.commute)
  then have "go_div (of_nat p * of_nat n) 100 = (of_nat (p * n div 100) :: int64)"
    using idx assms(2) by (simp only: sval_eq_iff [symmetric]) (simp add: sval_of_nat_64)
  then show ?thesis using idx len lt by (simp add: Let_def less_eq_go_int_def)
qed

end
