(* ===== verification/Aggregator.thy ===== *)
theory Aggregator
  imports Latency_Types Sorting_Contract
begin

section \<open>Ranking, selection and fleet statistics\<close>

text \<open>
  The pure functions of \<open>internal/latency/aggregator.go\<close>: ranking pods by P99, the three selection
  strategies, and the two fleet statistics. Slicing and indexing carry Go's panics (\<open>None\<close>), and the
  index arithmetic is the code's, on 64-bit signed integers. The dampening state of the same file is
  in \<open>Dampening\<close>.
\<close>

subsection \<open>The functions\<close>

definition RankPods :: "PodRanking list \<Rightarrow> ('x runtime_scheme, PodRanking list) state" where
  "RankPods pods = sort_slice rankP99 pods"

definition SelectTopN :: "PodRanking list \<Rightarrow> int64 \<Rightarrow> PodRanking list option" where
  "SelectTopN ranked n =
     (if n \<le> 0 \<or> n \<ge> go_len ranked then Some ranked else go_slice_to ranked n)"

definition SelectTopPercent :: "PodRanking list \<Rightarrow> int64 \<Rightarrow> PodRanking list option" where
  "SelectTopPercent ranked percent =
     (let percent = (if percent \<le> 0 then 100 else percent);
          n = go_div (go_len ranked * percent) 100;
          n = (if n < 1 then 1 else n);
          n = (if n > go_len ranked then go_len ranked else n)
      in go_slice_to ranked n)"

definition SelectByThreshold :: "PodRanking list \<Rightarrow> duration \<Rightarrow> PodRanking list" where
  "SelectByThreshold ranked threshold =
     (let selected = filter (\<lambda>p. rankP99 p \<le> threshold) ranked
      in if selected = [] \<and> ranked \<noteq> [] then selected @ [ranked ! 0] else selected)"

text \<open>
  A slice of plain durations has only one ascending rearrangement, so \<open>sort.Slice\<close> on it is \<open>sort\<close>
  whatever the runtime chooses.
\<close>

definition fleet_sorted :: "PodRanking list \<Rightarrow> duration list" where
  "fleet_sorted pods = sort (map rankP99 pods)"

definition ComputeFleetP99 :: "PodRanking list \<Rightarrow> duration option" where
  "ComputeFleetP99 pods =
     (if pods = [] then Some 0
      else let latencies = fleet_sorted pods;
               idx = go_div (99 * go_len latencies) 100;
               idx = (if idx \<ge> go_len latencies then go_len latencies - 1 else idx)
           in go_index latencies idx)"

definition ComputeFleetAverage :: "PodRanking list \<Rightarrow> duration" where
  "ComputeFleetAverage pods =
     (if pods = [] then 0
      else let total = foldl (\<lambda>t p. t + rankP99 p) 0 pods
           in go_div total (go_len pods))"

lemma sort_slice_plain: "fst (run_state (sort_slice (\<lambda>x. x) xs) rt) = sort xs"
  by (simp add: properties_for_sort)

text \<open>The same on the sorting contract: every result of \<open>RankPods\<close>, and the sorted latencies.\<close>

interpretation ranking: sorter "\<lambda>pods. fst (run_state (RankPods pods) rt)" rankP99
  by unfold_locales (simp_all add: RankPods_def)

interpretation fleet: sorter "\<lambda>ls :: duration list. sort ls" "\<lambda>d. d"
  by unfold_locales simp_all

subsection \<open>Ranking\<close>

text \<open>
  (C12) \<open>RankPods\<close> returns the given pods, each as often as it was given, by ascending P99; and every
  ascending rearrangement is a possible result, since ties may come out in any order.
\<close>

theorem RankPods_results:
  "(\<exists>rt :: runtime. fst (run_state (RankPods pods) rt) = ranked) \<longleftrightarrow>
     mset ranked = mset pods \<and> sorted (map rankP99 ranked)"
proof
  assume "\<exists>rt :: runtime. fst (run_state (RankPods pods) rt) = ranked"
  then show "mset ranked = mset pods \<and> sorted (map rankP99 ranked)"
    using ranking.mset_srt ranking.sorted_srt by blast
next
  assume "mset ranked = mset pods \<and> sorted (map rankP99 ranked)"
  then obtain cs where "sort_key rankP99 (permute cs pods) = ranked"
    using sort_slice_complete by blast
  then have "fst (run_state (RankPods pods) \<lparr>clock = \<lambda>n. 0, choice = \<lambda>n. cs\<rparr>) = ranked"
    by (simp add: RankPods_def)
  then show "\<exists>rt :: runtime. fst (run_state (RankPods pods) rt) = ranked" by blast
qed

subsection \<open>Selection\<close>

text \<open>
  A fleet the index arithmetic can handle: fewer than \<open>2 ^ 32\<close> pods, so that a pod count times an
  \<open>int32\<close> percentage fits in 64 bits.
\<close>

abbreviation fleet_sized :: "'a list \<Rightarrow> bool" where
  "fleet_sized xs \<equiv> length xs < 2 ^ 32"

text \<open>
  The contract of a selection strategy: from a ranked list it takes an initial segment, a nonempty
  one where there is anything to take from, and it does not panic.
\<close>

locale selector =
  fixes sel :: "'a list \<Rightarrow> 'a list option" and key :: "'a \<Rightarrow> 'k::linorder"
  assumes sel_prefix: "sorted (map key r) \<Longrightarrow> fleet_sized r \<Longrightarrow> r \<noteq> [] \<Longrightarrow>
      \<exists>k. 0 < k \<and> k \<le> length r \<and> sel r = Some (take k r)"
begin

lemma selected:
  assumes "sorted (map key r)" and "fleet_sized r" and "r \<noteq> []"
  obtains s t where "sel r = Some s" and "r = s @ t" and "s \<noteq> []"
proof -
  obtain k where "0 < k" "k \<le> length r" "sel r = Some (take k r)"
    using sel_prefix [OF assms] by blast
  with assms(3) show thesis by (intro that [of "take k r" "drop k r"]) auto
qed

text \<open>Nothing selected is slower than anything left out, and the first of the ranking is selected.\<close>

lemma selected_fastest:
  assumes "sorted (map key r)" and "fleet_sized r" and "r \<noteq> []" and "sel r = Some s"
    and "distinct r" and "x \<in> set s" and "y \<in> set r - set s"
  shows "key x \<le> key y"
proof -
  obtain s' t where "sel r = Some s'" "r = s' @ t" by (rule selected [OF assms(1-3)])
  with assms(4) have "r = s @ t" by simp
  with assms(1,6,7) show ?thesis by (auto simp: sorted_append)
qed

lemma selected_subset: 
  assumes "sorted (map key r)" and "fleet_sized r" and "r \<noteq> []" and "sel r = Some s"
  shows "set s \<subseteq> set r" and "s \<noteq> []" and "hd s = hd r" and "distinct r \<Longrightarrow> distinct s"
proof -
  obtain s' t where "sel r = Some s'" "r = s' @ t" "s' \<noteq> []" by (rule selected [OF assms(1-3)])
  with assms(4) have "r = s @ t" "s \<noteq> []" by simp_all
  then show "set s \<subseteq> set r" and "s \<noteq> []" and "hd s = hd r" and "distinct r \<Longrightarrow> distinct s" by auto
qed

end

text \<open>The three strategies in closed form.\<close>

lemma SelectTopN_take:
  assumes "go_sized ranked"
  shows "SelectTopN ranked n =
    Some (if n \<le> 0 \<or> sval n \<ge> int (length ranked) then ranked else take (nat (sval n)) ranked)"
  using assms
  by (auto simp: SelectTopN_def go_slice_to_def less_eq_go_int_def sval_of_nat_64)

lemma percent_index:
  fixes percent :: int64
  assumes "fleet_sized ranked" and "0 < sval percent" and "sval percent < 2 ^ 31"
  shows "sval (go_div (go_len ranked * percent) 100) = int (length ranked) * sval percent div 100"
proof -
  have len: "sval (go_len ranked) = int (length ranked)" using assms(1) by (simp add: sval_of_nat_64)
  have le: "int (length ranked) * sval percent \<le> (2 ^ 32 - 1) * 2 ^ 31"
    using assms by (intro mult_mono) simp_all
  have nonneg: "0 \<le> int (length ranked) * sval percent" using assms(2) by simp
  have "sval (go_len ranked * percent) = int (length ranked) * sval percent"
    using le nonneg by (subst sval_mult_64) (simp_all add: len)
  then show ?thesis
    using assms(2) by (subst sval_go_div_64) (simp_all add: go_eval)
qed

definition percent_count :: "nat \<Rightarrow> int32 \<Rightarrow> nat" where
  "percent_count n pct = min n (max 1 (n * nat (if pct \<le> 0 then 100 else sval pct) div 100))"

lemma int_percent_count:
  "0 \<le> v \<Longrightarrow> int (min n (max 1 (n * nat v div 100))) = min (int n) (max 1 (int n * v div 100))"
  by (simp add: of_nat_min of_nat_max zdiv_int)

lemma SelectTopPercent_take:
  assumes "fleet_sized ranked"
  shows "SelectTopPercent ranked (go_conv (pct :: int32)) = Some (take (percent_count (length ranked) pct) ranked)"
proof -
  let ?p = "if (go_conv pct :: int64) \<le> 0 then 100 else go_conv pct :: int64"
  let ?v = "if pct \<le> 0 then 100 else sval pct"
  have p: "sval ?p = ?v" by (simp add: less_eq_go_int_def go_eval)
  then have pb: "0 < sval ?p" "sval ?p < 2 ^ 31"
    using sval_range_32 [of pct] by (auto simp: less_eq_go_int_def)
  let ?n = "go_div (go_len ranked * ?p) 100"
  have n: "sval ?n = int (length ranked) * ?v div 100"
    using percent_index [OF assms pb] unfolding p .
  have len: "sval (go_len ranked) = int (length ranked)" using assms by (simp add: sval_of_nat_64)
  let ?m = "if ?n < 1 then 1 else ?n"
  have m: "sval ?m = max 1 (int (length ranked) * ?v div 100)"
    using n by (simp add: less_go_int_def)
  let ?k = "if ?m > go_len ranked then go_len ranked else ?m"
  have k: "sval ?k = int (percent_count (length ranked) pct)"
  proof -
    have "sval ?k = min (int (length ranked)) (max 1 (int (length ranked) * ?v div 100))"
      unfolding sval_clamp m len by (rule min.commute)
    also have "\<dots> = int (percent_count (length ranked) pct)"
      using pb unfolding p percent_count_def by (intro int_percent_count [symmetric]) simp
    finally show ?thesis .
  qed
  have "SelectTopPercent ranked (go_conv pct) = go_slice_to ranked ?k"
    by (simp only: SelectTopPercent_def Let_def)
  also have "\<dots> = Some (take (percent_count (length ranked) pct) ranked)"
    using k by (simp add: go_slice_to_def percent_count_def)
  finally show ?thesis .
qed

lemma percent_count_bounds: "0 < n \<Longrightarrow> 0 < percent_count n pct \<and> percent_count n pct \<le> n"
  by (simp add: percent_count_def)

lemma filter_sorted_take:
  "sorted (map key r) \<Longrightarrow> filter (\<lambda>p. key p \<le> t) r = take (length (filter (\<lambda>p. key p \<le> t) r)) r"
proof (induction r)
  case (Cons x r)
  show ?case
  proof (cases "key x \<le> t")
    case False
    with Cons.prems have "filter (\<lambda>p. key p \<le> t) (x # r) = []"
      by (auto simp: filter_empty_conv not_le intro: less_le_trans)
    then show ?thesis by simp
  qed (use Cons in simp)
qed simp

lemma SelectByThreshold_take:
  assumes "sorted (map rankP99 ranked)" and "ranked \<noteq> []"
  shows "SelectByThreshold ranked t = take (max 1 (length (filter (\<lambda>p. rankP99 p \<le> t) ranked))) ranked"
proof (cases "filter (\<lambda>p. rankP99 p \<le> t) ranked = []")
  case True
  with assms(2) show ?thesis by (cases ranked) (simp_all add: SelectByThreshold_def)
next
  case False
  then have "1 \<le> length (filter (\<lambda>p. rankP99 p \<le> t) ranked)" by (simp add: Suc_le_eq)
  with False show ?thesis
    using filter_sorted_take [OF assms(1), of t] by (simp add: SelectByThreshold_def max_def)
qed

interpretation top_n: selector "\<lambda>r. SelectTopN r n" rankP99
proof
  fix r :: "PodRanking list" assume "fleet_sized r" "r \<noteq> []"
  then show "\<exists>k. 0 < k \<and> k \<le> length r \<and> SelectTopN r n = Some (take k r)"
    using SelectTopN_take [of r n]
    by (intro exI [of _ "if n \<le> 0 \<or> sval n \<ge> int (length r) then length r else nat (sval n)"])
      (auto simp: less_eq_go_int_def)
qed

interpretation top_percent: selector "\<lambda>r. SelectTopPercent r (go_conv (pct :: int32))" rankP99
  by unfold_locales (metis SelectTopPercent_take length_greater_0_conv percent_count_bounds)

interpretation by_threshold: selector "\<lambda>r. Some (SelectByThreshold r t)" rankP99
proof
  fix r :: "PodRanking list" assume "sorted (map rankP99 r)" "r \<noteq> []"
  moreover have "length (filter (\<lambda>p. rankP99 p \<le> t) r) \<le> length r" by simp
  ultimately show "\<exists>k. 0 < k \<and> k \<le> length r \<and> Some (SelectByThreshold r t) = Some (take k r)"
    using SelectByThreshold_take
    by (intro exI [of _ "max 1 (length (filter (\<lambda>p. rankP99 p \<le> t) r))"]) (simp add: Suc_le_eq)
qed

text \<open>
  (C13) \<open>SelectTopPercent\<close> with an \<open>int32\<close> percentage never panics on a fleet of fewer than \<open>2 ^ 32\<close>
  pods and returns the first \<open>max 1 (n * p / 100)\<close> of the ranking (all of it when the percentage
  asks for more, and 100 percent when it is not positive).
\<close>

theorem SelectTopPercent_exact:
  assumes "fleet_sized ranked"
  shows "SelectTopPercent ranked (go_conv (pct :: int32)) =
    Some (take (nat (max 1 (int (length ranked) * (if pct \<le> 0 then 100 else sval pct) div 100))) ranked)"
proof -
  let ?v = "if pct \<le> 0 then 100 else sval pct"
  have "0 \<le> ?v" by (simp add: less_eq_go_int_def)
  from int_percent_count [OF this, of "length ranked"]
  have "percent_count (length ranked) pct
      = min (length ranked) (nat (max 1 (int (length ranked) * ?v div 100)))"
    unfolding percent_count_def by linarith
  with SelectTopPercent_take [OF assms, of pct] show ?thesis by (simp add: min_def)
qed

definition sample_ranking :: "(string \<times> duration) list \<Rightarrow> PodRanking list" where
  "sample_ranking = map (\<lambda>(ip, p). \<lparr>rankPodName = ''pod'', rankPodIP = ip,
     rankStats = \<lparr>P50 = p, P99 = p, SampleCount = 3, LastUpdated = 0\<rparr>\<rparr>)"

theorem SelectTopPercent_exact_witness:
  "SelectTopPercent (sample_ranking [(''a'', 1), (''b'', 2), (''c'', 3)]) (go_conv (50 :: int32)) =
     Some (sample_ranking [(''a'', 1)])"
  using SelectTopPercent_exact [of "sample_ranking [(''a'', 1), (''b'', 2), (''c'', 3)]" 50]
  by (simp add: sample_ranking_def less_eq_go_int_def go_eval)

subsection \<open>Fleet statistics\<close>

lemma ComputeFleetP99_nth:
  assumes "fleet_sized pods" and "pods \<noteq> []"
  shows "ComputeFleetP99 pods = Some (fleet_sorted pods ! (99 * length pods div 100))"
proof -
  have n: "0 < length pods" using assms(2) by simp
  have len: "length (fleet_sorted pods) = length pods" by (simp add: fleet_sorted_def)
  have "99 * length pods div 100 < length pods" using n by linarith
  moreover have "ComputeFleetP99 pods = go_index (fleet_sorted pods) (of_nat (99 * length pods div 100))"
    using go_percentile_index [OF n assms(1), of 99, simplified] assms(2)
    unfolding ComputeFleetP99_def by (simp only: Let_def if_False len)
  ultimately show ?thesis using assms(1) by (simp add: go_index_of_nat len)
qed

text \<open>
  (C14) \<open>ComputeFleetP99\<close> does not panic and reports the P99 of one of the pods, a 99th percentile of the
  fleet: more than 99 percent of the pods are at or below it, at most 99 percent strictly below. For
  a fleet of at most 100 pods it is the P99 of the slowest pod.
\<close>

theorem ComputeFleetP99_percentile:
  assumes "fleet_sized pods" and "pods \<noteq> []"
  shows "\<exists>v. ComputeFleetP99 pods = Some v \<and> v \<in> rankP99 ` set pods
    \<and> 99 * length pods < 100 * length (filter (\<lambda>p. rankP99 p \<le> v) pods)
    \<and> 100 * length (filter (\<lambda>p. rankP99 p < v) pods) \<le> 99 * length pods
    \<and> (length pods \<le> 100 \<longrightarrow> (\<forall>p \<in> set pods. rankP99 p \<le> v))"
proof -
  let ?ls = "map rankP99 pods"
  let ?v = "sort ?ls ! (99 * length pods div 100)"
  have ls: "?ls \<noteq> []" using assms(2) by simp
  note entry = fleet.percentile_entry [OF _ ls, of 99, simplified filter_map length_map o_def]
  have "?v \<in> rankP99 ` set pods" using entry(1) by simp
  moreover have "\<forall>p \<in> set pods. rankP99 p \<le> ?v" if "length pods \<le> 100" using entry(4) that by simp
  ultimately show ?thesis
    using ComputeFleetP99_nth [OF assms] entry(2,3) unfolding fleet_sorted_def
    by (intro exI [of _ ?v]) simp
qed

theorem ComputeFleetP99_percentile_witness:
  "\<exists>v. ComputeFleetP99 (sample_ranking [(''a'', 10), (''b'', 500), (''c'', 30)]) = Some v \<and> v = 500"
proof -
  let ?pods = "sample_ranking [(''a'', 10), (''b'', 500), (''c'', 30)]"
  have "fleet_sized ?pods" "?pods \<noteq> []" by (simp_all add: sample_ranking_def)
  from ComputeFleetP99_percentile [OF this] obtain v where
    "ComputeFleetP99 ?pods = Some v" "v \<in> {10, 500, 30}" "500 \<le> v"
    by (auto simp: sample_ranking_def)
  then show ?thesis by (auto simp: less_eq_go_int_def go_eval)
qed

lemma foldl_plus_sval:
  fixes f :: "'a \<Rightarrow> int64"
  assumes "0 \<le> a" and "\<And>x. x \<in> set xs \<Longrightarrow> 0 \<le> sval (f x)"
    and "a + (\<Sum>x\<leftarrow>xs. sval (f x)) < 2 ^ 63"
  shows "sval (foldl (\<lambda>t x. t + f x) (of_int a) xs) = a + (\<Sum>x\<leftarrow>xs. sval (f x))"
  using assms
proof (induction xs arbitrary: a)
  case Nil
  then show ?case by (simp add: signed_take_bit_in_range)
next
  case (Cons x xs)
  have "0 \<le> (\<Sum>x\<leftarrow>xs. sval (f x))" using Cons.prems(2) by (intro sum_list_nonneg) auto
  moreover have "of_int a + f x = of_int (a + sval (f x))" by simp
  ultimately show ?case
    using Cons.IH [of "a + sval (f x)"] Cons.prems by (simp add: algebra_simps)
qed

text \<open>
  While the sum of the P99s fits in an \<open>int64\<close>, \<open>ComputeFleetAverage\<close> is their mean rounded down,
  so it lies between the smallest and the largest P99 of the fleet.
\<close>

theorem ComputeFleetAverage_mean:
  assumes "fleet_sized pods" and "pods \<noteq> []"
    and "\<forall>p \<in> set pods. 0 \<le> sval (rankP99 p)" and "(\<Sum>p\<leftarrow>pods. sval (rankP99 p)) < 2 ^ 63"
  shows "sval (ComputeFleetAverage pods) = (\<Sum>p\<leftarrow>pods. sval (rankP99 p)) div int (length pods)
    \<and> (\<forall>lo hi. (\<forall>p \<in> set pods. lo \<le> rankP99 p \<and> rankP99 p \<le> hi) \<longrightarrow>
         lo \<le> ComputeFleetAverage pods \<and> ComputeFleetAverage pods \<le> hi)"
proof -
  let ?S = "\<Sum>p\<leftarrow>pods. sval (rankP99 p)" and ?n = "int (length pods)"
  have n: "0 < ?n" using assms(2) by simp
  have S: "0 \<le> ?S" using assms(3) by (intro sum_list_nonneg) auto
  have "sval (foldl (\<lambda>t p. t + rankP99 p) 0 pods) = ?S"
    using foldl_plus_sval [of 0 pods rankP99] assms(3,4) by simp
  then have avg: "sval (ComputeFleetAverage pods) = ?S div ?n"
    using assms(1,2) S n
    by (simp add: ComputeFleetAverage_def Let_def sval_go_div_64 sval_of_nat_64)
  have "lo \<le> ComputeFleetAverage pods \<and> ComputeFleetAverage pods \<le> hi"
    if "\<forall>p \<in> set pods. lo \<le> rankP99 p \<and> rankP99 p \<le> hi" for lo hi
  proof -
    have "?n * sval lo \<le> ?S" and "?S \<le> ?n * sval hi"
      using that sum_list_mono [of pods "\<lambda>p. sval lo" "\<lambda>p. sval (rankP99 p)"]
        sum_list_mono [of pods "\<lambda>p. sval (rankP99 p)" "\<lambda>p. sval hi"]
      by (simp_all add: less_eq_go_int_def sum_list_triv)
    then have "sval lo \<le> ?S div ?n" and "?S div ?n \<le> sval hi"
      using n zdiv_mono1 [of "?n * sval lo" ?S ?n] zdiv_mono1 [of ?S "?n * sval hi" ?n] by simp_all
    then show ?thesis by (simp add: less_eq_go_int_def avg)
  qed
  with avg show ?thesis by blast
qed

theorem ComputeFleetAverage_mean_witness:
  "sval (ComputeFleetAverage (sample_ranking [(''a'', 10), (''b'', 20), (''c'', 31)])) = 20"
  using ComputeFleetAverage_mean [of "sample_ranking [(''a'', 10), (''b'', 20), (''c'', 31)]"]
  by (simp add: sample_ranking_def go_eval)

end
