(* ===== verification/Go_Float64.thy ===== *)
theory Go_Float64
  imports Complex_Main Go_Prelude
begin

section \<open>\<open>float64\<close>\<close>

text \<open>
  The program computes percentages in \<open>float64\<close>. A finite \<open>float64\<close> is a rational number, and
  every operation is the exact one followed by rounding to the nearest number with a 53-bit
  significand, ties to even. The model keeps the significand and leaves the exponent unbounded: the
  values the program computes with lie between \<open>2 ^ (-53)\<close> and \<open>2 ^ 71\<close> or are zero, far from
  overflow and from the subnormal numbers.
\<close>

subsection \<open>Rounding\<close>

fun ilog2 :: "nat \<Rightarrow> nat" where
  "ilog2 n = (if n < 2 then 0 else Suc (ilog2 (n div 2)))"

declare ilog2.simps [simp del]

lemma ilog2_bounds: "0 < n \<Longrightarrow> 2 ^ ilog2 n \<le> n \<and> n < 2 ^ Suc (ilog2 n)"
proof (induction n rule: ilog2.induct)
  case (1 n)
  show ?case
  proof (cases "n < 2")
    case True
    with "1.prems" show ?thesis by (simp add: ilog2.simps [of n])
  next
    case False
    then have "2 ^ ilog2 (n div 2) \<le> n div 2 \<and> n div 2 < 2 ^ Suc (ilog2 (n div 2))"
      using "1.IH" by simp
    then have "2 * 2 ^ ilog2 (n div 2) \<le> n \<and> n < 2 * 2 ^ Suc (ilog2 (n div 2))" by linarith
    with False show ?thesis by (simp add: ilog2.simps [of n])
  qed
qed

lemma ilog2_eval:
  "ilog2 0 = 0" "ilog2 1 = 0" "ilog2 (Suc 0) = 0" "ilog2 (numeral num.One) = 0"
  "ilog2 (numeral (num.Bit0 n)) = Suc (ilog2 (numeral n))"
  "ilog2 (numeral (num.Bit1 n)) = Suc (ilog2 (numeral n))"
  by (subst ilog2.simps, simp)+

text \<open>The binary exponent of a positive number.\<close>

definition expo :: "rat \<Rightarrow> int" where
  "expo q = (if 1 \<le> q then int (ilog2 (nat \<lfloor>q\<rfloor>)) else - (int (ilog2 (nat (\<lceil>1 / q\<rceil> - 1))) + 1))"

lemma expo_bounds:
  assumes "0 < q"
  shows "2 powi expo q \<le> q \<and> q < 2 powi (expo q + 1)"
proof (cases "1 \<le> q")
  case True
  let ?n = "nat \<lfloor>q\<rfloor>"
  have n: "0 < ?n" using True by (simp add: le_floor_iff)
  have "of_nat (2 ^ ilog2 ?n) \<le> (of_nat ?n :: rat)"
    using ilog2_bounds [OF n] by (simp only: of_nat_le_iff)
  also have "of_nat ?n \<le> q" using True by simp
  finally have lo: "2 ^ ilog2 ?n \<le> q" by simp
  have "q < of_nat (Suc ?n)" using True by (simp add: floor_less_iff) linarith
  also have "of_nat (Suc ?n) \<le> (of_nat (2 ^ Suc (ilog2 ?n)) :: rat)"
    using ilog2_bounds [OF n] by (simp only: of_nat_le_iff Suc_le_eq)
  finally have hi: "q < 2 ^ Suc (ilog2 ?n)" by simp
  from lo hi True show ?thesis by (simp add: expo_def power_int_add mult.commute)
next
  case False
  let ?m = "nat (\<lceil>1 / q\<rceil> - 1)"
  have gt: "1 < 1 / q" using assms False by (simp add: field_simps)
  then have m: "0 < ?m" by (simp add: less_ceiling_iff)
  have "of_nat (2 ^ ilog2 ?m) \<le> (of_nat ?m :: rat)"
    using ilog2_bounds [OF m] by (simp only: of_nat_le_iff)
  also have "of_nat ?m < 1 / q" using m by simp linarith
  finally have hi: "2 ^ ilog2 ?m < 1 / q" by simp
  have "int ?m = \<lceil>1 / q\<rceil> - 1" using m assms by simp
  then have "(of_nat ?m :: rat) = of_int \<lceil>1 / q\<rceil> - 1" by (metis of_int_1 of_int_diff of_int_of_nat_eq)
  then have "1 / q \<le> of_nat (Suc ?m)" using le_of_int_ceiling [of "1 / q"] by simp
  also have "of_nat (Suc ?m) \<le> (of_nat (2 ^ Suc (ilog2 ?m)) :: rat)"
    using ilog2_bounds [OF m] by (simp only: of_nat_le_iff Suc_le_eq)
  finally have lo: "1 / q \<le> 2 ^ Suc (ilog2 ?m)" by simp
  have e: "expo q = - int (Suc (ilog2 ?m))" "expo q + 1 = - int (ilog2 ?m)"
    using False by (simp_all add: expo_def)
  have "1 / 2 ^ Suc (ilog2 ?m) \<le> q" using lo assms by (simp add: field_simps)
  moreover have "q < 1 / 2 ^ ilog2 ?m" using hi assms by (simp add: field_simps)
  ultimately show ?thesis
    unfolding e(2) unfolding e(1) power_int_minus by (simp only: power_int_of_nat inverse_eq_divide)
qed

text \<open>Round to the nearest integer, ties to even.\<close>

definition rne :: "rat \<Rightarrow> int" where
  "rne x = (let f = \<lfloor>x\<rfloor>; d = x - of_int f in
     if d < 1 / 2 then f else if 1 / 2 < d then f + 1 else if even f then f else f + 1)"

lemma rne_err: "\<bar>of_int (rne x) - x\<bar> \<le> 1 / 2"
  unfolding rne_def Let_def using of_int_floor_le [of x] floor_correct [of x] by auto

lemma rne_int [simp]: "rne (of_int k) = k"
  by (simp add: rne_def)

lemma rne_mono:
  assumes "x \<le> y"
  shows "rne x \<le> rne y"
proof (cases "\<lfloor>x\<rfloor> = \<lfloor>y\<rfloor>")
  case True
  with assms show ?thesis by (auto simp: rne_def Let_def)
next
  case False
  with assms have "\<lfloor>x\<rfloor> + 1 \<le> \<lfloor>y\<rfloor>" using floor_mono [OF assms] by linarith
  moreover have "rne x \<le> \<lfloor>x\<rfloor> + 1" and "\<lfloor>y\<rfloor> \<le> rne y" by (auto simp: rne_def Let_def)
  ultimately show ?thesis by linarith
qed

definition ulp :: "rat \<Rightarrow> rat" where
  "ulp q = 2 powi (expo \<bar>q\<bar> - 52)"

definition fl :: "rat \<Rightarrow> rat" where
  "fl q = (if q = 0 then 0 else of_int (rne (q / ulp q)) * ulp q)"

lemma ulp_pos: "0 < ulp q"
  by (simp add: ulp_def)

lemma fl_0 [simp]: "fl 0 = 0"
  by (simp add: fl_def)

text \<open>The relative error of one rounding is at most \<open>2 ^ (-53)\<close>.\<close>

lemma fl_err: "\<bar>fl q - q\<bar> \<le> \<bar>q\<bar> / 2 ^ 53"
proof (cases "q = 0")
  case False
  have "\<bar>of_int (rne (q / ulp q)) - q / ulp q\<bar> * ulp q \<le> 1 / 2 * ulp q"
    using rne_err ulp_pos [of q] by (intro mult_right_mono) simp_all
  then have "\<bar>(of_int (rne (q / ulp q)) - q / ulp q) * ulp q\<bar> \<le> ulp q / 2"
    using ulp_pos [of q] by (simp add: abs_mult)
  then have "\<bar>fl q - q\<bar> \<le> ulp q / 2"
    using False ulp_pos [of q] by (simp add: fl_def left_diff_distrib)
  also have "ulp q = 2 powi expo \<bar>q\<bar> / 2 ^ 52"
    by (simp add: ulp_def power_int_diff)
  also have "2 powi expo \<bar>q\<bar> / 2 ^ 52 / 2 \<le> \<bar>q\<bar> / 2 ^ 53"
    using expo_bounds [of "\<bar>q\<bar>"] False by simp
  finally show ?thesis .
qed simp

lemma fl_exact:
  assumes "q = of_int k * ulp q"
  shows "fl q = q"
proof (cases "q = 0")
  case False
  have "q / ulp q = of_int k" using assms ulp_pos [of q] by (simp add: field_simps)
  with False assms show ?thesis by (simp add: fl_def)
qed simp

text \<open>Rounding is monotone.\<close>

lemma powi_less_exp: "(2 :: rat) powi m < 2 powi n \<Longrightarrow> m < n"
  by (metis linorder_not_less one_le_numeral power_int_increasing)

lemma fl_pos_lower:
  assumes "0 < q" shows "2 powi expo q \<le> fl q"
proof -
  have "of_int (2 ^ 52) \<le> q / ulp q"
  proof -
    have "2 ^ 52 * ulp q = 2 powi expo q" using assms by (simp add: ulp_def power_int_diff)
    then have "2 ^ 52 * ulp q \<le> q" using expo_bounds [OF assms] by simp
    then show ?thesis using ulp_pos [of q] by (simp add: field_simps)
  qed
  then have "2 ^ 52 \<le> rne (q / ulp q)" by (metis rne_int rne_mono)
  then have "(2 ^ 52 :: rat) \<le> of_int (rne (q / ulp q))" by (metis of_int_le_iff of_int_numeral of_int_power)
  then have "2 ^ 52 * ulp q \<le> of_int (rne (q / ulp q)) * ulp q"
    using ulp_pos [of q] by (intro mult_right_mono) simp_all
  moreover have "2 ^ 52 * ulp q = 2 powi expo q" using assms by (simp add: ulp_def power_int_diff)
  ultimately show ?thesis using assms by (simp add: fl_def)
qed

lemma fl_pos_upper:
  assumes "0 < q" shows "fl q \<le> 2 powi (expo q + 1)"
proof -
  have u: "2 ^ 53 * ulp q = 2 powi (expo q + 1)"
    using assms by (simp add: ulp_def power_int_diff power_int_add)
  then have "q < 2 ^ 53 * ulp q" using expo_bounds [OF assms] by simp
  then have "q / ulp q \<le> of_int (2 ^ 53)" using ulp_pos [of q] by (simp add: field_simps)
  then have "rne (q / ulp q) \<le> 2 ^ 53" by (metis rne_int rne_mono)
  then have "of_int (rne (q / ulp q)) \<le> (2 ^ 53 :: rat)" by (metis of_int_le_iff of_int_numeral of_int_power)
  then have "of_int (rne (q / ulp q)) * ulp q \<le> 2 ^ 53 * ulp q"
    using ulp_pos [of q] by (intro mult_right_mono) simp_all
  with u assms show ?thesis by (simp add: fl_def)
qed

lemma fl_nonneg: "0 \<le> q \<Longrightarrow> 0 \<le> fl q"
  using fl_pos_lower [of q] zero_less_power_int [of "2 :: rat" "expo q"]
  by (cases "q = 0") (simp_all del: zero_less_power_int)

lemma fl_mono:
  assumes "0 \<le> q" and "q \<le> r"
  shows "fl q \<le> fl r"
proof (cases "q = 0")
  case True
  with assms show ?thesis by (simp add: fl_nonneg)
next
  case False
  with assms have q: "0 < q" and r: "0 < r" by simp_all
  show ?thesis
  proof (cases "expo q = expo r")
    case True
    then have u: "ulp q = ulp r" using q r by (simp add: ulp_def)
    have "q / ulp r \<le> r / ulp r" using assms(2) ulp_pos [of r] by (simp add: divide_right_mono)
    then have "rne (q / ulp r) \<le> rne (r / ulp r)" by (rule rne_mono)
    then have "(of_int (rne (q / ulp r)) :: rat) * ulp r \<le> of_int (rne (r / ulp r)) * ulp r"
      using ulp_pos [of r] by (intro mult_right_mono) simp_all
    with q r u show ?thesis by (simp add: fl_def)
  next
    case False
    have "2 powi expo q < (2 powi (expo r + 1) :: rat)"
      using expo_bounds [OF q] expo_bounds [OF r] assms(2) by linarith
    then have "expo q < expo r + 1" by (rule powi_less_exp)
    with False have "expo q + 1 \<le> expo r" by simp
    then have "(2 powi (expo q + 1) :: rat) \<le> 2 powi expo r" by (intro power_int_increasing) simp_all
    with fl_pos_upper [OF q] fl_pos_lower [OF r] show ?thesis by simp
  qed
qed

text \<open>Integers up to \<open>2 ^ 53\<close> are exact, and so are their halves.\<close>

lemma fl_scaled:
  assumes "\<bar>k\<bar> < 2 ^ 53"
  shows "fl (of_int k / 2 ^ n) = of_int k / 2 ^ n"
proof (cases "k = 0")
  case False
  let ?q = "of_int k / 2 ^ n :: rat"
  have "of_int \<bar>k\<bar> < (of_int (2 ^ 53) :: rat)" using assms by (simp only: of_int_less_iff)
  then have "\<bar>?q\<bar> < 2 ^ 53 / 2 ^ n" by (simp add: divide_strict_right_mono)
  also have "\<dots> = 2 powi (53 - int n)" by (simp add: power_int_diff)
  finally have "2 powi expo \<bar>?q\<bar> < (2 powi (53 - int n) :: rat)"
    using expo_bounds [of "\<bar>?q\<bar>"] False by simp
  then have "expo \<bar>?q\<bar> < 53 - int n" by (rule powi_less_exp)
  then have "0 \<le> 52 - int n - expo \<bar>?q\<bar>" by simp
  then obtain d where "52 - int n - expo \<bar>?q\<bar> = int d" by (metis nonneg_int_cases)
  then have d: "expo \<bar>?q\<bar> = 52 - int n - int d" by simp
  have "?q = of_int (k * 2 ^ d) * ulp ?q"
    unfolding ulp_def d by (simp add: power_int_diff power_int_minus field_simps)
  then show ?thesis by (rule fl_exact)
qed simp

lemma fl_of_int: "\<bar>k\<bar> < 2 ^ 53 \<Longrightarrow> fl (of_int k) = of_int k"
  using fl_scaled [of k 0] by simp

lemma fl_of_nat: "n < 2 ^ 53 \<Longrightarrow> fl (of_nat n) = of_nat n"
  using fl_of_int [of "int n"] by simp

subsection \<open>Operations\<close>

definition fdiv :: "rat \<Rightarrow> rat \<Rightarrow> rat" where "fdiv x y = fl (x / y)"
definition fmul :: "rat \<Rightarrow> rat \<Rightarrow> rat" where "fmul x y = fl (x * y)"
definition fsub :: "rat \<Rightarrow> rat \<Rightarrow> rat" where "fsub x y = fl (x - y)"

text \<open>Bounds on a rounded value from the relative error.\<close>

lemma fl_upper: "0 \<le> q \<Longrightarrow> fl q \<le> q * (1 + 1 / 2 ^ 53)"
  using fl_err [of q] by (simp add: algebra_simps abs_if split: if_splits)

lemma fl_lower: "0 \<le> q \<Longrightarrow> q * (1 - 1 / 2 ^ 53) \<le> fl q"
  using fl_err [of q] by (simp add: algebra_simps abs_if split: if_splits)

text \<open>\<open>float64(x)\<close> of an \<open>int\<close>.\<close>

definition float_of :: "int64 \<Rightarrow> rat" where
  "float_of x = fl (of_int (sval x))"

lemma float_of_nat: "n < 2 ^ 53 \<Longrightarrow> float_of (of_nat n) = of_nat n"
  using fl_of_int [of "int n"] by (simp add: float_of_def sval_of_nat_64)

end
