(* ===== verification/Dampening.thy ===== *)
theory Dampening
  imports Go_Float64
begin

section \<open>Dampening\<close>

text \<open>
  \<open>DampeningState\<close> of \<open>internal/latency/aggregator.go\<close>: one per policy, it holds the endpoint set that
  was applied last and how many evaluations in a row differed from it by at least the threshold
  percentage. An update is let through when there is no applied set yet or when that count reaches
  the required number.
\<close>

subsection \<open>The code\<close>

record DampeningState =
  previousSelected :: "string list"
  dampViolations :: int64

definition NewDampeningState :: DampeningState where
  "NewDampeningState = \<lparr>previousSelected = [], dampViolations = 0\<rparr>"

definition computeChangePercent :: "DampeningState \<Rightarrow> string list \<Rightarrow> rat" where
  "computeChangePercent d newSelected =
     (if previousSelected d = [] then 100
      else let prevSet = set (previousSelected d);
               changed = go_len (filter (\<lambda>ip. ip \<notin> prevSet) newSelected);
               total = go_len (previousSelected d);
               total = (if go_len newSelected > total then go_len newSelected else total)
           in fmul (fdiv (float_of changed) (float_of total)) 100)"

definition ShouldUpdate ::
  "string list \<Rightarrow> int64 \<Rightarrow> int64 \<Rightarrow> DampeningState \<Rightarrow> bool \<times> DampeningState" where
  "ShouldUpdate newSelected thresholdPercent requiredConsecutive d =
     (if previousSelected d = [] then (True, d\<lparr>previousSelected := newSelected, dampViolations := 0\<rparr>)
      else let changePercent = computeChangePercent d newSelected;
               d = (if changePercent \<ge> float_of thresholdPercent
                    then d\<lparr>dampViolations := dampViolations d + 1\<rparr>
                    else d\<lparr>dampViolations := 0\<rparr>)
           in if dampViolations d \<ge> requiredConsecutive
              then (True, d\<lparr>previousSelected := newSelected, dampViolations := 0\<rparr>)
              else (False, d))"

subsection \<open>The percentage\<close>

text \<open>
  The decision is taken on a rounded quotient. It agrees with exact arithmetic except where the
  exact percentage equals the threshold.
\<close>

lemma two_roundings:
  fixes q u :: rat
  assumes "0 \<le> q" and "0 \<le> u" and "u \<le> 1"
  shows "100 * q * (1 - 2 * u) \<le> q * (1 - u) * 100 * (1 - u)"
    and "q * (1 + u) * 100 * (1 + u) \<le> 100 * q * (1 + 3 * u)"
proof -
  have "0 \<le> 100 * q * (u * u)" and "0 \<le> 100 * q * (u * (1 - u))" using assms by simp_all
  then show "100 * q * (1 - 2 * u) \<le> q * (1 - u) * 100 * (1 - u)"
    and "q * (1 + u) * 100 * (1 + u) \<le> 100 * q * (1 + 3 * u)"
    by (simp_all add: algebra_simps)
qed

lemma rounded_percent:
  fixes q :: rat
  assumes "0 \<le> q" and "q \<le> 1"
  shows "100 * q - 1 / 2 ^ 40 \<le> fmul (fl q) 100" and "fmul (fl q) 100 \<le> 100 * q + 1 / 2 ^ 40"
proof -
  let ?u = "1 / 2 ^ 53 :: rat" and ?x = "fl q" and ?y = "fl (fl q * 100)"
  have x: "0 \<le> ?x" "q * (1 - ?u) \<le> ?x" "?x \<le> q * (1 + ?u)"
    using assms fl_nonneg fl_lower [of q] fl_upper [of q] by simp_all
  have y: "?x * 100 * (1 - ?u) \<le> ?y" "?y \<le> ?x * 100 * (1 + ?u)"
    using x fl_lower [of "?x * 100"] fl_upper [of "?x * 100"] by simp_all
  have "100 * q * (1 - 2 * ?u) \<le> q * (1 - ?u) * 100 * (1 - ?u)"
    using assms by (intro two_roundings) simp_all
  also have "\<dots> \<le> ?x * 100 * (1 - ?u)" using x by (intro mult_right_mono) simp_all
  finally have lo: "100 * q * (1 - 2 * ?u) \<le> ?y" using y(1) by linarith
  have "?x * 100 * (1 + ?u) \<le> q * (1 + ?u) * 100 * (1 + ?u)"
    using x by (intro mult_right_mono) simp_all
  also have "\<dots> \<le> 100 * q * (1 + 3 * ?u)" using assms by (intro two_roundings) simp_all
  finally have hi: "?y \<le> 100 * q * (1 + 3 * ?u)" using y(2) by linarith
  show "100 * q - 1 / 2 ^ 40 \<le> fmul (fl q) 100" and "fmul (fl q) 100 \<le> 100 * q + 1 / 2 ^ 40"
    using lo hi assms by (simp_all add: fmul_def algebra_simps)
qed

lemma percent_decision:
  fixes c t p :: nat
  assumes "0 < t" and "t < 2 ^ 40" and "c \<le> t" and ne: "100 * c \<noteq> p * t"
  shows "of_nat p \<le> fmul (fdiv (of_nat c) (of_nat t)) 100 \<longleftrightarrow> p * t \<le> 100 * c"
proof -
  let ?q = "of_nat c / of_nat t :: rat"
  have t: "0 < (of_nat t :: rat)" using assms(1) by simp
  have "(of_nat t :: rat) < of_nat (2 ^ 40)" using assms(2) by (simp only: of_nat_less_iff)
  then have inv: "1 / 2 ^ 40 < 1 / (of_nat t :: rat)" using t by (simp add: field_simps)
  have "0 \<le> ?q" "?q \<le> 1" using t assms(3) by simp_all
  note y = rounded_percent [OF this]
  show ?thesis
  proof (cases "p * t \<le> 100 * c")
    case True
    with ne have "p * t + 1 \<le> 100 * c" by simp
    then have "(of_nat (p * t + 1) :: rat) \<le> of_nat (100 * c)" by (simp only: of_nat_le_iff)
    then have "(of_nat p * of_nat t + 1) / of_nat t \<le> (100 * of_nat c) / (of_nat t :: rat)"
      using t by (simp add: divide_right_mono)
    then have "of_nat p + 1 / of_nat t \<le> 100 * ?q" using t by (simp add: add_divide_distrib)
    with y inv have "of_nat p \<le> fmul (fl ?q) 100" by linarith
    with True show ?thesis by (simp add: fdiv_def)
  next
    case False
    then have "100 * c + 1 \<le> p * t" by simp
    then have "(of_nat (100 * c + 1) :: rat) \<le> of_nat (p * t)" by (simp only: of_nat_le_iff)
    then have "(100 * of_nat c + 1) / of_nat t \<le> (of_nat p * of_nat t) / (of_nat t :: rat)"
      using t by (intro divide_right_mono) simp_all
    then have "100 * ?q + 1 / of_nat t \<le> of_nat p" using t by (simp add: add_divide_distrib)
    with y inv have "fmul (fl ?q) 100 < of_nat p" by linarith
    with False show ?thesis by (simp add: fdiv_def)
  qed
qed

abbreviation significant :: "int64 \<Rightarrow> DampeningState \<Rightarrow> string list \<Rightarrow> bool" where
  "significant pct d sel \<equiv> float_of pct \<le> computeChangePercent d sel"

text \<open>How many of the new endpoints are new, and the size of the larger of the two sets.\<close>

definition changed_count :: "DampeningState \<Rightarrow> string list \<Rightarrow> nat" where
  "changed_count d sel = length (filter (\<lambda>ip. ip \<notin> set (previousSelected d)) sel)"

definition total_count :: "DampeningState \<Rightarrow> string list \<Rightarrow> nat" where
  "total_count d sel = max (length (previousSelected d)) (length sel)"

lemma computeChangePercent_eq:
  assumes "previousSelected d \<noteq> []" and "total_count d sel < 2 ^ 40"
  shows "computeChangePercent d sel =
    fmul (fdiv (of_nat (changed_count d sel)) (of_nat (total_count d sel))) 100"
proof -
  have c: "changed_count d sel \<le> length sel" by (simp add: changed_count_def)
  have b: "changed_count d sel < 2 ^ 53" "length sel < 2 ^ 53" "length (previousSelected d) < 2 ^ 53"
    using assms(2) c by (simp_all add: total_count_def)
  have "(if go_len sel > go_len (previousSelected d) then go_len sel else go_len (previousSelected d))
      = of_nat (total_count d sel)"
    using b by (simp add: less_go_int_def sval_of_nat_64 total_count_def max_def)
  with assms(1) b show ?thesis
    by (simp add: computeChangePercent_def Let_def float_of_nat total_count_def
        flip: changed_count_def)
qed

lemma significant_iff:
  fixes pct :: int32
  assumes "previousSelected d \<noteq> []" and "total_count d sel < 2 ^ 40" and "0 \<le> sval pct"
    and "100 * int (changed_count d sel) \<noteq> sval pct * int (total_count d sel)"
  shows "significant (go_conv pct) d sel \<longleftrightarrow>
    sval pct * int (total_count d sel) \<le> 100 * int (changed_count d sel)"
proof -
  let ?p = "nat (sval pct)" and ?t = "total_count d sel" and ?c = "changed_count d sel"
  have "sval pct < 2 ^ 53" using sval_range_32 [of pct] by simp
  then have "float_of (go_conv pct) = of_nat ?p"
    using assms(3) fl_of_int [of "sval pct"] by (simp add: float_of_def)
  moreover have "0 < ?t" using assms(1) by (simp add: total_count_def less_max_iff_disj)
  moreover have "?c \<le> ?t"
    by (simp add: changed_count_def total_count_def le_max_iff_disj)
  moreover have "100 * ?c \<noteq> ?p * ?t"
  proof
    assume "100 * ?c = ?p * ?t"
    then have "int (100 * ?c) = int (?p * ?t)" by simp
    with assms(3,4) show False by simp
  qed
  ultimately have "significant (go_conv pct) d sel \<longleftrightarrow> ?p * ?t \<le> 100 * ?c"
    using assms(1,2) by (simp add: computeChangePercent_eq percent_decision)
  also have "\<dots> \<longleftrightarrow> int (?p * ?t) \<le> int (100 * ?c)" by (simp only: of_nat_le_iff)
  also have "\<dots> \<longleftrightarrow> sval pct * int ?t \<le> 100 * int ?c" using assms(3) by simp
  finally show ?thesis .
qed

text \<open>
  (C15) An evaluation counts as a significant change exactly when the new endpoints make up at least
  the threshold percentage of the larger of the two sets, compared in exact arithmetic, whenever the
  exact percentage is not equal to the threshold.
\<close>

theorem significant_exact:
  fixes pct :: int32
  assumes "previousSelected d \<noteq> []" and "total_count d sel < 2 ^ 40" and "0 \<le> sval pct"
    and "100 * int (changed_count d sel) \<noteq> sval pct * int (total_count d sel)"
  shows "significant (go_conv pct) d sel \<longleftrightarrow>
    sval pct * int (total_count d sel) \<le> 100 * int (changed_count d sel)"
  using assms by (rule significant_iff)

definition applied :: "string list \<Rightarrow> DampeningState" where
  "applied s = \<lparr>previousSelected = s, dampViolations = 0\<rparr>"

theorem significant_exact_witness:
  "significant (go_conv (20 :: int32)) (applied [''A'', ''B'', ''C'']) [''A'', ''B'', ''D'']"
  using significant_exact [of "applied [''A'', ''B'', ''C'']" "[''A'', ''B'', ''D'']" 20]
  by (simp add: applied_def total_count_def changed_count_def go_eval)

lemma computeChangePercent_cong:
  "previousSelected d = s \<Longrightarrow> computeChangePercent d sel = computeChangePercent (applied s) sel"
  by (simp add: computeChangePercent_def applied_def)

subsection \<open>Runs\<close>

text \<open>The evaluations of one policy, in order, with its two parameters.\<close>

fun run_dampener :: "int64 \<Rightarrow> int64 \<Rightarrow> string list list \<Rightarrow> DampeningState \<Rightarrow> bool list \<times> DampeningState" where
  "run_dampener pct req [] d = ([], d)"
| "run_dampener pct req (sel # sels) d =
     (let (u, d') = ShouldUpdate sel pct req d; (us, d'') = run_dampener pct req sels d'
      in (u # us, d''))"

text \<open>The branches of \<open>ShouldUpdate\<close> on a state with an applied set.\<close>

lemma ShouldUpdate_first:
  "previousSelected d = [] \<Longrightarrow> ShouldUpdate sel pct req d = (True, applied sel)"
  by (simp add: ShouldUpdate_def applied_def)

lemma ShouldUpdate_insignificant:
  "previousSelected d \<noteq> [] \<Longrightarrow> \<not> significant pct d sel \<Longrightarrow> 0 < req \<Longrightarrow>
     ShouldUpdate sel pct req d = (False, d\<lparr>dampViolations := 0\<rparr>)"
  by (simp add: ShouldUpdate_def Let_def not_le)

lemma ShouldUpdate_counts:
  "previousSelected d \<noteq> [] \<Longrightarrow> significant pct d sel \<Longrightarrow> dampViolations d + 1 < req \<Longrightarrow>
     ShouldUpdate sel pct req d = (False, d\<lparr>dampViolations := dampViolations d + 1\<rparr>)"
  by (simp add: ShouldUpdate_def Let_def not_le)

lemma ShouldUpdate_applies:
  "previousSelected d \<noteq> [] \<Longrightarrow> significant pct d sel \<Longrightarrow> req \<le> dampViolations d + 1 \<Longrightarrow>
     ShouldUpdate sel pct req d = (True, applied sel)"
  by (simp add: ShouldUpdate_def Let_def applied_def)

text \<open>The state while nothing is applied: the set is kept, the count is at most the evaluations seen.\<close>

definition waiting :: "string list \<Rightarrow> nat \<Rightarrow> DampeningState \<Rightarrow> bool" where
  "waiting s n d \<longleftrightarrow> previousSelected d = s \<and> 0 \<le> sval (dampViolations d) \<and> sval (dampViolations d) \<le> int n"

lemma waiting_step:
  assumes "waiting s n d" and "s \<noteq> []" and "int n + 1 < sval req"
  shows "\<exists>d'. ShouldUpdate sel pct req d = (False, d') \<and> waiting s (Suc n) d'"
proof (cases "significant pct d sel")
  case True
  have v: "0 \<le> sval (dampViolations d)" "sval (dampViolations d) \<le> int n"
    using assms(1) by (simp_all add: waiting_def)
  have "sval req < 2 ^ 63" by (rule sval_range_64)
  then have "sval (dampViolations d + 1) = sval (dampViolations d) + 1"
    using v assms(3) by (subst sval_add_64) simp_all
  then show ?thesis
    using True assms v by (subst ShouldUpdate_counts) (simp_all add: waiting_def less_go_int_def)
next
  case False
  moreover have "0 < req" using assms(3) by (simp add: less_go_int_def)
  ultimately show ?thesis
    using assms by (subst ShouldUpdate_insignificant) (simp_all add: waiting_def)
qed

lemma waiting_run:
  "waiting s n d \<Longrightarrow> s \<noteq> [] \<Longrightarrow> int n + int (length sels) < sval req \<Longrightarrow>
     fst (run_dampener pct req sels d) = replicate (length sels) False"
proof (induction sels arbitrary: n d)
  case (Cons sel sels)
  then obtain d' where d': "ShouldUpdate sel pct req d = (False, d')" "waiting s (Suc n) d'"
    using waiting_step [OF Cons.prems(1,2), of req sel pct] by auto
  with Cons show ?case by (simp add: case_prod_beta)
qed simp

lemma ShouldUpdate_TrueD: "ShouldUpdate sel pct req d = (True, d') \<Longrightarrow> d' = applied sel"
  by (auto simp: ShouldUpdate_def Let_def applied_def split: if_splits)

text \<open>
  (C17) Dampening limits the rate of updates: after an update that selected any pod at all, the next
  \<open>requiredConsecutive - 1\<close> evaluations are suppressed, whatever they select.
\<close>

theorem updates_are_spaced:
  assumes "ShouldUpdate sel pct req d = (True, d')" and "sel \<noteq> []"
    and "int (length sels) < sval req"
  shows "fst (run_dampener pct req sels d') = replicate (length sels) False"
proof -
  have "waiting sel 0 d'" using ShouldUpdate_TrueD [OF assms(1)] by (simp add: waiting_def applied_def)
  then show ?thesis using assms(2,3) by (intro waiting_run [where n = 0]) simp_all
qed

theorem updates_are_spaced_witness:
  "fst (run_dampener 20 3 [[''b''], [''c'']] (applied [''a''])) = [False, False]"
proof -
  have "ShouldUpdate [''a''] 20 3 NewDampeningState = (True, applied [''a''])"
    by (simp add: ShouldUpdate_first NewDampeningState_def)
  from updates_are_spaced [OF this, of "[[''b''], [''c'']]"] show ?thesis
    by (simp add: go_eval numeral_2_eq_2)
qed

text \<open>A run of significant evaluations counts up by one each.\<close>

lemma counting_run:
  "previousSelected d = s \<Longrightarrow> s \<noteq> [] \<Longrightarrow> sval (dampViolations d) = int n \<Longrightarrow>
   \<forall>sel \<in> set sels. significant pct (applied s) sel \<Longrightarrow> int n + int (length sels) < sval req \<Longrightarrow>
     \<exists>d'. run_dampener pct req sels d = (replicate (length sels) False, d') \<and>
       previousSelected d' = s \<and> sval (dampViolations d') = int n + int (length sels)"
proof (induction sels arbitrary: n d)
  case (Cons sel sels)
  have sig: "significant pct d sel"
    using Cons.prems(4) computeChangePercent_cong [OF Cons.prems(1)] by simp
  have "sval req < 2 ^ 63" by (rule sval_range_64)
  then have v: "sval (dampViolations d + 1) = int (Suc n)"
    using Cons.prems by (subst sval_add_64) simp_all
  then have "dampViolations d + 1 < req" using Cons.prems by (simp add: less_go_int_def)
  with sig Cons.prems(1,2) have step:
    "ShouldUpdate sel pct req d = (False, d\<lparr>dampViolations := dampViolations d + 1\<rparr>)"
    by (simp add: ShouldUpdate_counts)
  have "\<exists>d'. run_dampener pct req sels (d\<lparr>dampViolations := dampViolations d + 1\<rparr>)
        = (replicate (length sels) False, d') \<and>
      previousSelected d' = s \<and> sval (dampViolations d') = int (Suc n) + int (length sels)"
    by (rule Cons.IH) (use Cons.prems v in auto)
  with step show ?case by auto
qed simp

text \<open>
  (C18) A lasting change gets through: when, after an applied nonempty set, the next
  \<open>requiredConsecutive\<close> evaluations all differ significantly from it, all but the last are suppressed
  and the last one is applied.
\<close>

theorem lasting_change_applied:
  assumes "s \<noteq> []" and "sels \<noteq> []" and "int (length sels) = sval req"
    and "\<forall>sel \<in> set sels. significant pct (applied s) sel"
  shows "run_dampener pct req sels (applied s) =
    (replicate (length sels - 1) False @ [True], applied (last sels))"
proof -
  obtain init sel where sels: "sels = init @ [sel]" using assms(2) by (metis rev_exhaust)
  have lt: "int 0 + int (length init) < sval req" using assms(3) sels by simp
  have "previousSelected (applied s) = s" "sval (dampViolations (applied s)) = int 0"
    by (simp_all add: applied_def)
  from counting_run [OF this(1) assms(1) this(2) _ lt, of pct] assms(4) sels obtain d' where
    d': "run_dampener pct req init (applied s) = (replicate (length init) False, d')"
      "previousSelected d' = s" "sval (dampViolations d') = int (length init)" by auto
  have "sval req < 2 ^ 63" by (rule sval_range_64)
  then have "sval (dampViolations d' + 1) = int (length init) + 1"
    using d'(3) lt by (subst sval_add_64) simp_all
  then have "req \<le> dampViolations d' + 1" using assms(3) sels by (simp add: less_eq_go_int_def)
  moreover have "significant pct d' sel"
    using assms(4) computeChangePercent_cong [OF d'(2)] sels by simp
  ultimately have last: "ShouldUpdate sel pct req d' = (True, applied sel)"
    using d'(2) assms(1) by (simp add: ShouldUpdate_applies)
  have app: "run_dampener pct req (xs @ ys) d =
      (let (us, d1) = run_dampener pct req xs d; (vs, d2) = run_dampener pct req ys d1 in (us @ vs, d2))"
    for xs ys d by (induction xs arbitrary: d) (auto simp: case_prod_beta)
  show ?thesis using d'(1) last by (simp add: sels app)
qed

theorem lasting_change_applied_witness:
  "run_dampener (go_conv (20 :: int32)) 2 [[''b''], [''c'']] (applied [''a'']) = ([False, True], applied [''c''])"
proof -
  have sig: "significant (go_conv (20 :: int32)) (applied [''a'']) [x]" if "x \<noteq> ''a''" for x
    using significant_iff [of "applied [''a'']" "[x]" 20] that
    by (simp add: applied_def total_count_def changed_count_def go_eval)
  have "\<forall>sel \<in> set [[''b''], [''c'']]. significant (go_conv (20 :: int32)) (applied [''a'']) sel"
    by (simp add: sig)
  from lasting_change_applied [OF _ _ _ this, of 2] show ?thesis by (simp add: go_eval)
qed

lemma subset_suppressed:
  fixes pct :: int32
  assumes "s \<noteq> []" and "set sel \<subseteq> set s" and "1 \<le> sval pct" and "1 \<le> sval req"
  shows "ShouldUpdate sel (go_conv pct) req (applied s) = (False, applied s)"
proof -
  have "filter (\<lambda>ip. ip \<notin> set s) sel = []" using assms(2) by (auto simp: filter_empty_conv)
  then have "computeChangePercent (applied s) sel = 0"
    using assms(1) by (simp add: computeChangePercent_def applied_def Let_def float_of_def fdiv_def fmul_def)
  moreover have "float_of (go_conv pct) = of_int (sval pct)"
    using assms(3) sval_range_32 [of pct] fl_of_int [of "sval pct"] by (simp add: float_of_def)
  moreover have "(0 :: rat) < of_int (sval pct)" using assms(3) by simp
  ultimately have "\<not> significant (go_conv pct) (applied s) sel" by simp
  moreover have "0 < req" using assms(4) by (simp add: less_go_int_def)
  moreover have "previousSelected (applied s) \<noteq> []" using assms(1) by (simp add: applied_def)
  ultimately show ?thesis
    by (subst ShouldUpdate_insignificant) (simp_all add: applied_def)
qed

text \<open>
  (C19) Dampening never notices a set that only shrinks: if every evaluation selects only endpoints of
  the applied set (for instance because the other pods were deleted or ejected), then no update is
  let through and the applied set stays, however often the policy is evaluated.
\<close>

theorem shrinking_never_applied:
  fixes pct :: int32
  assumes "s \<noteq> []" and "\<forall>sel \<in> set sels. set sel \<subseteq> set s" and "1 \<le> sval pct" and "1 \<le> sval req"
  shows "run_dampener (go_conv pct) req sels (applied s) = (replicate (length sels) False, applied s)"
  using assms(2)
proof (induction sels)
  case (Cons sel sels)
  then have "ShouldUpdate sel (go_conv pct) req (applied s) = (False, applied s)"
    using assms by (intro subset_suppressed) simp_all
  with Cons show ?case by simp
qed simp

theorem shrinking_never_applied_witness:
  "run_dampener (go_conv (20 :: int32)) 3 [[''A''], [''A''], [''A''], [''A'']] (applied [''A'', ''B'', ''C''])
     = ([False, False, False, False], applied [''A'', ''B'', ''C''])"
  using shrinking_never_applied [of "[''A'', ''B'', ''C'']" "[[''A''], [''A''], [''A''], [''A'']]" 20 3]
  by (simp add: go_eval numeral_eq_Suc)

text \<open>
  The example of ARCHITECTURE.md (threshold 20 percent, 3 consecutive intervals): the first
  selection is applied, the third of three like changes is applied, and the last two are suppressed.
\<close>

theorem documented_example:
  "fst (run_dampener (go_conv (20 :: int32)) 3
      [[''A'', ''B'', ''C''], [''A'', ''B'', ''D''], [''A'', ''B'', ''D''], [''A'', ''B'', ''D''],
       [''A'', ''B'', ''C''], [''A'', ''B'', ''D'']] NewDampeningState)
    = [True, False, False, True, False, False]"
proof -
  let ?abc = "[''A'', ''B'', ''C'']" and ?abd = "[''A'', ''B'', ''D'']" and ?p = "go_conv (20 :: int32) :: int64"
  have sig: "significant ?p (applied s) t \<longleftrightarrow> t \<noteq> s" if "s \<in> {?abc, ?abd}" "t \<in> {?abc, ?abd}" for s t
    using significant_iff [of "applied s" t 20] that
    by (auto simp: applied_def total_count_def changed_count_def go_eval)
  have count: "ShouldUpdate t ?p 3 \<lparr>previousSelected = s, dampViolations = v\<rparr>
      = (if t \<noteq> s then if v = 2 then (True, applied t) else (False, \<lparr>previousSelected = s, dampViolations = v + 1\<rparr>)
         else (False, applied s))"
    if "s \<in> {?abc, ?abd}" "t \<in> {?abc, ?abd}" "v \<in> {0, 1, 2}" for s t v
  proof -
    have "computeChangePercent \<lparr>previousSelected = s, dampViolations = v\<rparr> t = computeChangePercent (applied s) t"
      by (rule computeChangePercent_cong) simp
    then have "significant ?p \<lparr>previousSelected = s, dampViolations = v\<rparr> t \<longleftrightarrow> t \<noteq> s"
      using sig [OF that(1,2)] by simp
    moreover have "s \<noteq> []" using that(1) by auto
    ultimately show ?thesis
      using that(3) by (elim insertE) (auto simp: ShouldUpdate_def Let_def applied_def go_eval)
  qed
  show ?thesis by (simp add: ShouldUpdate_first NewDampeningState_def applied_def count go_eval)
qed

end
