(* ===== verification/Dampening_Thresholds.thy ===== *)
theory Dampening_Thresholds
  imports Dampening
begin

section \<open>Changes of exactly the threshold\<close>

text \<open>
  When the exact percentage of a change equals the threshold, the comparison in \<open>float64\<close> is decided by rounding.
  The quotient \<open>c / t\<close> is then the same rational as \<open>p / 100\<close>, so the decision depends on the threshold \<open>p\<close> alone. To go
  through the hundred thresholds the API allows, rounding is carried out on integers.
\<close>

subsection \<open>Rounding a quotient of integers\<close>

definition rdiv :: "int \<Rightarrow> int \<Rightarrow> int" where
  "rdiv a b = (let f = a div b; r = a mod b in
     if 2 * r < b then f else if b < 2 * r then f + 1 else if even f then f else f + 1)"

lemma rne_rdiv:
  assumes "0 < b"
  shows "rne (of_int a / of_int b) = rdiv a b"
proof -
  let ?r = "a mod b"
  have floor: "\<lfloor>of_int a / of_int b :: rat\<rfloor> = a div b" by (rule floor_divide_of_int_eq)
  have "(of_int a :: rat) = of_int (a div b * b + ?r)" by simp
  then have "(of_int a :: rat) = of_int (a div b) * of_int b + of_int ?r" by (simp only: of_int_add of_int_mult)
  then have rest: "of_int a / of_int b - of_int (a div b) = (of_int ?r / of_int b :: rat)"
    using assms by (simp add: field_simps)
  have "(of_int ?r / of_int b < (1 / 2 :: rat)) = ((of_int (2 * ?r) :: rat) < of_int b)"
    "((1 / 2 :: rat) < of_int ?r / of_int b) = ((of_int b :: rat) < of_int (2 * ?r))"
    using assms by (simp_all add: field_simps)
  then show ?thesis
    unfolding rne_def rdiv_def Let_def floor rest by (simp only: of_int_less_iff)
qed

text \<open>A number whose \<open>2 ^ j\<close>-fold lies between \<open>2 ^ 52\<close> and \<open>2 ^ 53\<close> is rounded to a multiple of \<open>2 ^ (- j)\<close>.\<close>

lemma fl_at:
  assumes "2 ^ 52 \<le> q * 2 ^ j" and "q * 2 ^ j < 2 ^ 53"
  shows "fl q = of_int (rne (q * 2 ^ j)) / 2 ^ j"
proof -
  have "(0 :: rat) < 2 ^ 52" by simp
  then have "0 < q * 2 ^ j" using assms(1) by (rule less_le_trans)
  then have q: "0 < q" by (simp add: zero_less_mult_iff)
  have "q < 2 powi (53 - int j)" using assms(2) by (simp add: power_int_diff field_simps)
  then have "2 powi expo q < (2 powi (53 - int j) :: rat)" using expo_bounds [OF q] by simp
  then have hi: "expo q < 53 - int j" by (rule powi_less_exp)
  have "2 powi (52 - int j) \<le> q" using assms(1) by (simp add: power_int_diff field_simps)
  then have "2 powi (52 - int j) < (2 powi (expo q + 1) :: rat)" using expo_bounds [OF q] by simp
  then have "52 - int j < expo q + 1" by (rule powi_less_exp)
  with hi have e: "expo q - 52 = - int j" by simp
  have "ulp q = 1 / 2 ^ j" unfolding ulp_def abs_of_pos [OF q] e by (simp add: power_int_minus field_simps)
  with q show ?thesis by (simp add: fl_def)
qed

lemma fl_ratio:
  assumes "0 < b" and "2 ^ 52 * b \<le> a * 2 ^ j" and "a * 2 ^ j < 2 ^ 53 * b"
  shows "fl (of_int a / of_int b) = of_int (rdiv (a * 2 ^ j) b) / 2 ^ j"
proof -
  have b: "0 < (of_int b :: rat)" using assms(1) by simp
  have q: "of_int a / of_int b * 2 ^ j = (of_int (a * 2 ^ j) / of_int b :: rat)" by simp
  have "(of_int (2 ^ 52 * b) :: rat) \<le> of_int (a * 2 ^ j)" using assms(2) by (simp only: of_int_le_iff)
  then have lo: "2 ^ 52 \<le> of_int a / of_int b * (2 ^ j :: rat)" using b by (simp add: field_simps)
  have "(of_int (a * 2 ^ j) :: rat) < of_int (2 ^ 53 * b)" using assms(3) by (simp only: of_int_less_iff)
  then have hi: "of_int a / of_int b * (2 ^ j :: rat) < 2 ^ 53" using b by (simp add: field_simps)
  from fl_at [OF lo hi] show ?thesis unfolding q rne_rdiv [OF assms(1)] .
qed

subsection \<open>The hundred thresholds\<close>

text \<open>\<open>p / 100 * 100\<close> in \<open>float64\<close>, rounded to multiples of \<open>2 ^ (- j)\<close> and then of \<open>2 ^ (- i)\<close>: whether it is below \<open>p\<close>.\<close>

definition quotient :: "int \<Rightarrow> nat \<Rightarrow> int" where
  "quotient p j = rdiv (p * 2 ^ j) 100"

definition in_range :: "int \<Rightarrow> nat \<Rightarrow> nat \<Rightarrow> bool" where
  "in_range p j i \<longleftrightarrow> 2 ^ 52 * 100 \<le> p * 2 ^ j \<and> p * 2 ^ j < 2 ^ 53 * 100
     \<and> 2 ^ 52 * 2 ^ j \<le> quotient p j * 100 * 2 ^ i \<and> quotient p j * 100 * 2 ^ i < 2 ^ 53 * 2 ^ j"

definition product :: "int \<Rightarrow> nat \<Rightarrow> nat \<Rightarrow> int" where
  "product p j i = rdiv (quotient p j * 100 * 2 ^ i) (2 ^ j)"

lemma percent_product:
  assumes "in_range p j i"
  shows "fmul (fdiv (of_int p) 100) 100 = of_int (product p j i) / 2 ^ i"
proof -
  have "fdiv (of_int p) 100 = of_int (quotient p j) / 2 ^ j"
    using fl_ratio [of 100 p j] assms by (simp add: in_range_def fdiv_def quotient_def)
  then have "fmul (fdiv (of_int p) 100) 100 = fl (of_int (quotient p j * 100) / of_int (2 ^ j))"
    by (simp add: fmul_def)
  also have "\<dots> = of_int (product p j i) / 2 ^ i"
    unfolding product_def by (rule fl_ratio) (use assms in \<open>simp_all add: in_range_def\<close>)
  finally show ?thesis .
qed

definition shift_of :: "int \<Rightarrow> nat" where
  "shift_of p = 52 + length (takeWhile (\<lambda>k. p * 2 ^ k < 100) [0..<8])"

definition unit_of :: "int \<Rightarrow> nat" where
  "unit_of p = 46 + length (takeWhile (\<lambda>k. p * 2 ^ k < 64) [0..<7])"

lemma all_thresholds:
  "list_all (\<lambda>p. in_range p (shift_of p) (unit_of p)
     \<and> (product p (shift_of p) (unit_of p) < p * 2 ^ unit_of p) = (p \<in> {29, 57, 58})) [1..100]"
  by code_simp

lemma percent_below:
  assumes "1 \<le> p" and "p \<le> 100"
  shows "fmul (fdiv (of_int p) 100) 100 < of_int p \<longleftrightarrow> p \<in> {29, 57, 58}"
proof -
  have "p \<in> set [1..100]" using assms by simp
  with all_thresholds have p: "in_range p (shift_of p) (unit_of p)"
    "(product p (shift_of p) (unit_of p) < p * 2 ^ unit_of p) = (p \<in> {29, 57, 58})" unfolding list_all_iff by blast+
  have "(of_int (product p (shift_of p) (unit_of p)) / 2 ^ unit_of p < (of_int p :: rat))
      = ((of_int (product p (shift_of p) (unit_of p)) :: rat) < of_int (p * 2 ^ unit_of p))"
    by (simp add: field_simps)
  with p(2) show ?thesis unfolding percent_product [OF p(1)] by (simp only: of_int_less_iff)
qed

subsection \<open>The property\<close>

text \<open>
  (C16) A change of exactly the threshold percentage counts as significant, as it should, for every threshold the
  API allows but three: at 29, 57 and 58 percent the quotient is rounded below the threshold, and the change
  is missed, whatever the sets.
\<close>

theorem significant_at_threshold:
  fixes pct :: int32
  assumes "previousSelected d \<noteq> []" and "total_count d sel < 2 ^ 40" and "1 \<le> sval pct" and "sval pct \<le> 100"
    and "100 * int (changed_count d sel) = sval pct * int (total_count d sel)"
  shows "significant (go_conv pct) d sel \<longleftrightarrow> sval pct \<notin> {29, 57, 58}"
proof -
  let ?t = "total_count d sel" and ?c = "changed_count d sel"
  have t: "0 < (of_int (int ?t) :: rat)" using assms(1) by (simp add: total_count_def less_max_iff_disj)
  have "(of_int (100 * int ?c) :: rat) = of_int (sval pct * int ?t)" by (simp only: assms(5))
  then have ratio: "(of_nat ?c / of_nat ?t :: rat) = of_int (sval pct) / 100" using t by (simp add: field_simps)
  have "computeChangePercent d sel = fmul (fdiv (of_int (sval pct)) 100) 100"
    unfolding computeChangePercent_eq [OF assms(1,2)] fdiv_def ratio ..
  moreover have "float_of (go_conv pct) = of_int (sval pct)"
    using assms(3,4) fl_of_int [of "sval pct"] by (simp add: float_of_def)
  ultimately show ?thesis using percent_below [OF assms(3,4)] by (simp add: not_less [symmetric])
qed

text \<open>Replacing one of four endpoints is a quarter; replacing 29 of a hundred is missed at 29 percent.\<close>

definition ip_list :: "nat \<Rightarrow> nat \<Rightarrow> string list" where
  "ip_list m n = map show_nat [m..<n]"

lemma replaced:
  assumes "k \<le> n" and "0 < n"
  shows "changed_count (applied (ip_list 0 n)) (ip_list k (n + k)) = k" and "total_count (applied (ip_list 0 n)) (ip_list k (n + k)) = n"
    and "previousSelected (applied (ip_list 0 n)) \<noteq> []"
proof -
  have "filter (\<lambda>ip. ip \<notin> set (ip_list 0 n)) (ip_list k (n + k)) = ip_list n (n + k)"
  proof -
    have "show_nat i \<in> set (ip_list 0 n) \<longleftrightarrow> i < n" for i by (auto simp: ip_list_def)
    moreover have "filter (\<lambda>i. \<not> i < n) [k..<n + k] = [n..<n + k]"
    proof -
      have "[k..<n + k] = [k..<n] @ [n..<n + k]" using assms(1) by (metis le_add1 upt_add_eq_append le_add_diff_inverse)
      then show ?thesis by (simp add: filter_empty_conv)
    qed
    ultimately show ?thesis by (simp add: ip_list_def [of k] filter_map o_def) (simp add: ip_list_def)
  qed
  then show "changed_count (applied (ip_list 0 n)) (ip_list k (n + k)) = k"
    by (simp add: changed_count_def applied_def) (simp add: ip_list_def)
  show "total_count (applied (ip_list 0 n)) (ip_list k (n + k)) = n"
    by (simp add: total_count_def applied_def ip_list_def)
  show "previousSelected (applied (ip_list 0 n)) \<noteq> []" using assms(2) by (simp add: applied_def ip_list_def)
qed

theorem significant_at_threshold_witness:
  "significant (go_conv (25 :: int32)) (applied (ip_list 0 4)) (ip_list 1 5)
   \<and> \<not> significant (go_conv (29 :: int32)) (applied (ip_list 0 100)) (ip_list 29 129)"
proof -
  note quarter = replaced [of 1 4, simplified] and most = replaced [of 29 100, simplified]
  from significant_at_threshold [OF quarter(3), of "ip_list 1 5" 25] significant_at_threshold [OF most(3), of "ip_list 29 129" 29]
  show ?thesis using quarter(1,2) most(1,2) by (simp add: go_eval)
qed

end
