(* ===== verification/Source_Interface.thy ===== *)
theory Source_Interface
  imports Latency_Types
begin

section \<open>The latency source\<close>

text \<open>
  The Go interface \<open>latency.Source\<close> of \<open>internal/latency/source.go\<close>, as the record of its three
  methods, and the contract both implementations keep and the reconciler relies on.  A method that
  runs requests is a function of the world outside the process; \<open>None\<close> is a panic.
\<close>

type_synonym latencies = "Stats gomap"

record 'w Source =
  sourceGetLatencies :: "string list \<Rightarrow> ('w world, (go_error + latencies) option) state"
  sourceName :: string
  sourceReady :: bool

text \<open>
  \<open>GetLatencies\<close> does not panic; the map it returns is a map; asked for some IPs it answers
  about those only; and all it does to the clock is to let time pass.
\<close>

locale latency_source =
  fixes get :: "string list \<Rightarrow> ('w world, (go_error + latencies) option) state"
  assumes no_panic: "fst (run_state (get ips) s) \<noteq> None"
    and keys_distinct: "run_state (get ips) s = (Some (Inr m), s') \<Longrightarrow> wf_map m"
    and keys_requested:
      "run_state (get ips) s = (Some (Inr m), s') \<Longrightarrow> ips \<noteq> [] \<Longrightarrow> fst ` set m \<subseteq> set ips"
    and time_passes: "run_state (get ips) s = (r, s') \<Longrightarrow> advances s s'"
begin

text \<open>The two outcomes the client sees.\<close>

lemma outcome:
  obtains (failed) e s' where "run_state (get ips) s = (Some (Inl e), s')" "advances s s'"
  | (measured) m s' where "run_state (get ips) s = (Some (Inr m), s')" "advances s s'" "wf_map m"
      "ips \<noteq> [] \<Longrightarrow> fst ` set m \<subseteq> set ips"
proof -
  obtain r s' where run: "run_state (get ips) s = (r, s')" by (metis surj_pair)
  moreover have "r \<noteq> None" using no_panic [of ips s] run by simp
  ultimately show thesis
    using time_passes [OF run] keys_distinct keys_requested failed measured
    by (cases r; cases "the r") auto
qed

text \<open>A range over the result, in whatever order, sees every measured IP once.\<close>

lemma measured_entries:
  assumes "run_state (get ips) s = (Some (Inr m), s')"
  shows "distinct (map fst (permute cs m))" and "set (permute cs m) = set m"
    and "\<And>ip st. (ip, st) \<in> set (permute cs m) \<longleftrightarrow> map_of m ip = Some st"
  using keys_distinct [OF assms] by (simp_all add: map_of_SomeD_wf)

end

text \<open>A world for the examples: the clock counts, the runtime picks as if at random.\<close>

definition counting_world :: "unit world" where
  "counting_world = \<lparr>clock = int, choice = (\<lambda>n. [3, 1, 4, 1, 5]), outside = ()\<rparr>"

lemma monotonic_counting_world: "monotonic counting_world"
  by (simp add: counting_world_def monotonic_def mono_def)

end
