(* ===== verification/Goroutines.thy ===== *)
theory Goroutines
  imports Go_Prelude
begin

section \<open>Goroutines that report on a channel\<close>

text \<open>
  Both latency sources start one goroutine per target and collect one result from each on a buffered
  channel. A goroutine is a machine with a bounded number of steps; the runtime chooses the order in
  which the machines take their turns, so every interleaving of their steps is a run of the model.
  The channel is as large as the number of goroutines, so sending never blocks.
\<close>

record ('g, 'o) pool =
  routines :: "'g list"
  sent :: "'o list"

text \<open>
  A schedule gives each of \<open>n\<close> goroutines \<open>k\<close> turns, in an order the runtime chooses. A machine that is
  done ignores the turns it has left.
\<close>

definition schedule :: "nat list \<Rightarrow> nat \<Rightarrow> nat \<Rightarrow> nat list" where
  "schedule cs k n = permute cs (concat (replicate k [0..<n]))"

definition take_turn ::
  "('g \<Rightarrow> ('x runtime_scheme, 'g \<times> 'o list) state) \<Rightarrow> nat \<Rightarrow> ('g, 'o) pool
     \<Rightarrow> ('x runtime_scheme, ('g, 'o) pool) state" where
  "take_turn step i p = do {
     (g, out) \<leftarrow> step (routines p ! i);
     ret \<lparr>routines = (routines p)[i := g], sent = sent p @ out\<rparr>
   }"

definition run_pool ::
  "('g \<Rightarrow> ('x runtime_scheme, 'g \<times> 'o list) state) \<Rightarrow> nat \<Rightarrow> 'g list \<Rightarrow> ('x runtime_scheme, 'o list) state" where
  "run_pool step k gs = do {
     cs \<leftarrow> next_choice;
     p \<leftarrow> for_each (schedule cs k (length gs)) (take_turn step) \<lparr>routines = gs, sent = []\<rparr>;
     ret (sent p)
   }"

lemma schedule_turns:
  "set (schedule cs k n) \<subseteq> {..<n}" "i < n \<Longrightarrow> count_list (schedule cs k n) i = k"
proof -
  have once: "count_list [0..<n] i = (if i < n then 1 else 0)" for i
    by (induction n) simp_all
  have count: "count_list (concat (replicate k [0..<n])) i = (if i < n then k else 0)" for k i
    by (induction k) (simp_all add: once)
  have perm: "count_list (permute cs xs) i = count_list xs i" for xs :: "nat list" and i
    by (metis count_list_eq_length_filter mset_filter mset_permute size_mset)
  show "set (schedule cs k n) \<subseteq> {..<n}" by (auto simp: schedule_def)
  show "i < n \<Longrightarrow> count_list (schedule cs k n) i = k"
    by (simp add: schedule_def perm count)
qed

text \<open>
  The contract of such a machine: \<open>inv\<close> is its invariant and \<open>good\<close> what holds of a result, both between
  the start of the pool and the present; \<open>need\<close> bounds the turns it still needs; it sends exactly one
  result, in the turn that ends it.
\<close>

locale goroutine =
  fixes step :: "'g \<Rightarrow> ('x runtime_scheme, 'g \<times> 'o list) state"
    and task :: "'g \<Rightarrow> 'i" and owner :: "'o \<Rightarrow> 'i" and need :: "'g \<Rightarrow> nat"
    and inv :: "'x runtime_scheme \<Rightarrow> 'x runtime_scheme \<Rightarrow> 'g \<Rightarrow> bool"
    and good :: "'x runtime_scheme \<Rightarrow> 'x runtime_scheme \<Rightarrow> 'o \<Rightarrow> bool"
  assumes step_advances:
      "inv s0 s g \<Longrightarrow> advances s0 s \<Longrightarrow> run_state (step g) s = ((g', out), s') \<Longrightarrow> advances s s'"
    and step_inv: "inv s0 s g \<Longrightarrow> advances s0 s \<Longrightarrow> run_state (step g) s = ((g', out), s') \<Longrightarrow> inv s0 s' g'"
    and step_task: "run_state (step g) s = ((g', out), s') \<Longrightarrow> task g' = task g"
    and step_need: "inv s0 s g \<Longrightarrow> advances s0 s \<Longrightarrow> run_state (step g) s = ((g', out), s')
      \<Longrightarrow> need g' \<le> need g - 1"
    and step_sends: "inv s0 s g \<Longrightarrow> advances s0 s \<Longrightarrow> run_state (step g) s = ((g', out), s')
      \<Longrightarrow> map owner out = (if need g \<noteq> 0 \<and> need g' = 0 then [task g] else [])"
    and step_good: "inv s0 s g \<Longrightarrow> advances s0 s \<Longrightarrow> run_state (step g) s = ((g', out), s')
      \<Longrightarrow> r \<in> set out \<Longrightarrow> good s0 s' r"
    and inv_later: "inv s0 s g \<Longrightarrow> advances s0 s \<Longrightarrow> advances s s' \<Longrightarrow> inv s0 s' g"
    and good_later: "good s0 s r \<Longrightarrow> advances s0 s \<Longrightarrow> advances s s' \<Longrightarrow> good s0 s' r"
begin

definition pool_ok :: "'i list \<Rightarrow> 'x runtime_scheme \<Rightarrow> 'x runtime_scheme \<Rightarrow> ('g, 'o) pool \<Rightarrow> bool" where
  "pool_ok tasks s0 s p \<longleftrightarrow> advances s0 s \<and> map task (routines p) = tasks
     \<and> (\<forall>g \<in> set (routines p). inv s0 s g) \<and> (\<forall>r \<in> set (sent p). good s0 s r)
     \<and> mset (map owner (sent p)) = mset (map task (filter (\<lambda>g. need g = 0) (routines p)))"

lemma filter_update_done:
  assumes "i < length gs" and "need (gs ! i) = 0 \<Longrightarrow> need g = 0" and "task g = task (gs ! i)"
  shows "mset (map task (filter (\<lambda>g. need g = 0) (gs[i := g]))) =
    mset (map task (filter (\<lambda>g. need g = 0) gs))
      + (if need (gs ! i) \<noteq> 0 \<and> need g = 0 then {#task g#} else {#})"
proof -
  have "mset gs = add_mset (gs ! i) (mset (take i gs) + mset (drop (Suc i) gs))"
    using assms(1) mset_drop_nth by metis
  moreover have "mset (gs[i := g]) = add_mset g (mset (take i gs) + mset (drop (Suc i) gs))"
    using assms(1) by (simp add: upd_conv_take_nth_drop)
  ultimately show ?thesis using assms(2,3) by (auto simp: mset_filter)
qed

lemma take_turn_ok:
  assumes p: "pool_ok tasks s0 s p" and i: "i < length tasks"
    and run: "run_state (take_turn step i p) s = (p', s')"
  shows "pool_ok tasks s0 s' p'" and "need (routines p' ! i) \<le> need (routines p ! i) - 1"
    and "j \<noteq> i \<Longrightarrow> routines p' ! j = routines p ! j"
proof -
  let ?g = "routines p ! i"
  have len: "i < length (routines p)" using p i by (auto simp: pool_ok_def)
  obtain g out where turn: "run_state (step ?g) s = ((g, out), s')"
    and p': "p' = \<lparr>routines = (routines p)[i := g], sent = sent p @ out\<rparr>"
    using run by (auto simp: take_turn_def split: prod.splits)
  have adv0: "advances s0 s" and inv: "inv s0 s ?g" using p len by (simp_all add: pool_ok_def)
  note stepped = step_advances [OF inv adv0 turn] step_inv [OF inv adv0 turn] step_task [OF turn]
    step_need [OF inv adv0 turn] step_sends [OF inv adv0 turn] step_good [OF inv adv0 turn]
  have "map task (routines p') = tasks"
    using p len stepped(3) p' by (simp add: pool_ok_def map_update) (metis list_update_id nth_map)
  moreover have "inv s0 s' h" if "h \<in> set (routines p')" for h
  proof -
    have "h = g \<or> h \<in> set (routines p)" using that set_update_subset_insert p' by fastforce
    then show ?thesis using stepped(1,2) p inv_later [OF _ adv0] by (auto simp: pool_ok_def)
  qed
  moreover have "good s0 s' r" if "r \<in> set (sent p')" for r
    using that p' p stepped(1,6) good_later [OF _ adv0] by (auto simp: pool_ok_def)
  moreover have "mset (map owner (sent p')) = mset (map task (filter (\<lambda>g. need g = 0) (routines p')))"
  proof -
    have "mset (map task (filter (\<lambda>g. need g = 0) (routines p'))) =
        mset (map owner (sent p)) + (if need ?g \<noteq> 0 \<and> need g = 0 then {#task ?g#} else {#})"
      using filter_update_done [OF len, of g] stepped(3,4) p p' by (simp add: pool_ok_def)
    also have "\<dots> = mset (map owner (sent p) @ map owner out)" unfolding stepped(5) by simp
    finally show ?thesis using p' by simp
  qed
  ultimately show "pool_ok tasks s0 s' p'"
    using advances_trans [OF adv0 stepped(1)] by (simp add: pool_ok_def)
  show "need (routines p' ! i) \<le> need (routines p ! i) - 1" using stepped(4) p' len by simp
  show "j \<noteq> i \<Longrightarrow> routines p' ! j = routines p ! j" using p' by simp
qed

lemma all_turns:
  "pool_ok tasks s0 s p \<Longrightarrow> set sch \<subseteq> {..<length tasks} \<Longrightarrow>
   run_state (for_each sch (take_turn step) p) s = (p', s') \<Longrightarrow>
     pool_ok tasks s0 s' p'
     \<and> (\<forall>i < length tasks. need (routines p' ! i) \<le> need (routines p ! i) - count_list sch i)"
proof (induction sch arbitrary: p s)
  case (Cons i sch)
  obtain p1 s1 where turn: "run_state (take_turn step i p) s = (p1, s1)" by fastforce
  have i: "i < length tasks" using Cons.prems(2) by simp
  note first = take_turn_ok [OF Cons.prems(1) i turn]
  have "run_state (for_each sch (take_turn step) p1) s1 = (p', s')" using Cons.prems(3) turn by simp
  with Cons.IH [OF first(1)] Cons.prems(2)
  have rest: "pool_ok tasks s0 s' p'"
    "\<forall>j < length tasks. need (routines p' ! j) \<le> need (routines p1 ! j) - count_list sch j" by simp_all
  have "need (routines p' ! j) \<le> need (routines p ! j) - count_list (i # sch) j" if "j < length tasks" for j
  proof -
    have "need (routines p' ! j) \<le> need (routines p1 ! j) - count_list sch j" using rest(2) that by blast
    then show ?thesis using first(2) first(3) [of j] by (cases "j = i") auto
  qed
  with rest(1) show ?case by blast
qed simp

text \<open>
  A pool whose goroutines all get the turns they need ends with exactly one good result from each, in
  some order.
\<close>

lemma run_pool_ok:
  assumes run: "run_state (run_pool step k gs) s = (out, s')"
    and start: "\<And>g. g \<in> set gs \<Longrightarrow> inv s s g \<and> 0 < need g \<and> need g \<le> k"
  shows "mset (map owner out) = mset (map task gs) \<and> (\<forall>r \<in> set out. good s s' r) \<and> advances s s'"
proof -
  let ?p = "\<lparr>routines = gs, sent = []\<rparr>" and ?s1 = "s\<lparr>choice := (\<lambda>n. choice s (Suc n))\<rparr>"
  obtain p where loop: "run_state (for_each (schedule (choice s 0) k (length gs)) (take_turn step) ?p) ?s1 = (p, s')"
    and out: "out = sent p"
    using run by (auto simp: run_pool_def split: prod.splits)
  have adv: "advances s ?s1" by (rule advances_refl) simp
  have "filter (\<lambda>g. need g = 0) gs = []" using start by (auto simp: filter_empty_conv)
  then have "pool_ok (map task gs) s ?s1 ?p"
    using adv start inv_later [OF _ _ adv] by (auto simp: pool_ok_def)
  from all_turns [OF this _ loop] have ok: "pool_ok (map task gs) s s' p"
    and need: "i < length gs \<Longrightarrow> need (routines p ! i) \<le> need (gs ! i) - k" for i
    using schedule_turns [where n = "length gs"] by auto
  have len: "length (routines p) = length gs" using ok by (metis pool_ok_def length_map)
  have "need g = 0" if "g \<in> set (routines p)" for g
  proof -
    from that len obtain i where i: "i < length gs" "g = routines p ! i" by (auto simp: in_set_conv_nth)
    then show ?thesis using need [OF i(1)] start [of "gs ! i"] by simp
  qed
  then have "filter (\<lambda>g. need g = 0) (routines p) = routines p" by simp
  then show ?thesis using ok out by (metis pool_ok_def)
qed

text \<open>Every result has an owner among the tasks, and every task has a result.\<close>

lemma run_pool_owners:
  assumes "run_state (run_pool step k gs) s = (out, s')"
    and "\<And>g. g \<in> set gs \<Longrightarrow> inv s s g \<and> 0 < need g \<and> need g \<le> k"
  shows "owner ` set out = task ` set gs" and "length out = length gs"
proof -
  have "mset (map owner out) = mset (map task gs)" using run_pool_ok [OF assms] by blast
  then show "owner ` set out = task ` set gs" and "length out = length gs"
    by (metis list.set_map mset_eq_setD) (metis \<open>mset (map owner out) = mset (map task gs)\<close> length_map size_mset)
qed

end

end
