(* ===== verification/Http.thy ===== *)
theory Http
  imports Go_Prelude
begin

section \<open>HTTP and JSON as the program uses them\<close>

text \<open>
  An HTTP client is a parameter of the model: whether a request can be built from a URL, and what
  performing a GET yields in the outside world. The body of a response is what the JSON scanner
  makes of it, a \<open>json\<close> value, or nothing when it is not JSON; reading it may fail first.
\<close>

datatype json =
    JNull
  | JBool bool
  | JInt int
  | JFrac int int
  | JStr string
  | JArr "json list"
  | JObj "(string \<times> json) list"

record http_response =
  statusCode :: int
  respBody :: "go_error + json option"

record 'w http_client =
  newRequest :: "string \<Rightarrow> go_error option"
  httpDo :: "string \<Rightarrow> 'w \<Rightarrow> (go_error + http_response) \<times> 'w"

subsection \<open>Decoding into Go values\<close>

text \<open>
  \<open>encoding/json\<close> matches an object key to a struct field by its name, and where no field has
  exactly that name, by its name up to Unicode case folding. A name is its UTF-8 bytes: ASCII letters fold
  to upper case, and so do the two other runes that fold to ASCII letters, \<open>U+017F\<close> (long s) and \<open>U+212A\<close> (the
  Kelvin sign). The fields here have ASCII names, which no name with another rune folds to.
\<close>

definition fold_char :: "char \<Rightarrow> char" where
  "fold_char c = (let n = of_char c :: nat in if 97 \<le> n \<and> n \<le> 122 then char_of (n - 32) else c)"

fun fold_name :: "string \<Rightarrow> string" where
  "fold_name [] = []"
| "fold_name (c # cs) =
     (if c = CHR 0xC5 \<and> cs \<noteq> [] \<and> hd cs = CHR 0xBF then CHR ''S'' # fold_name (tl cs)
      else if c = CHR 0xE2 \<and> 2 \<le> length cs \<and> cs ! 0 = CHR 0x84 \<and> cs ! 1 = CHR 0xAA then CHR ''K'' # fold_name (drop 2 cs)
      else fold_char c # fold_name cs)"

declare fold_name.simps [simp del]

definition match_field :: "string list \<Rightarrow> string \<Rightarrow> string option" where
  "match_field names k =
     (if k \<in> set names then Some k else find (\<lambda>f. fold_name f = fold_name k) names)"

text \<open>An \<open>int64\<close> target: \<open>null\<close> leaves it alone, an integer in range is stored, the rest is an error.\<close>

definition decode_int64 :: "json \<Rightarrow> int64 \<Rightarrow> go_error + int64" where
  "decode_int64 j old = (case j of
     JNull \<Rightarrow> Inr old
   | JInt k \<Rightarrow> if - (2 ^ 63) \<le> k \<and> k < 2 ^ 63 then Inr (of_int k)
               else Inl (Errorf ''json: cannot unmarshal number into Go value of type int64'')
   | _ \<Rightarrow> Inl (Errorf ''json: cannot unmarshal value into Go value of type int64''))"

definition decode_string :: "json \<Rightarrow> string \<Rightarrow> go_error + string" where
  "decode_string j old = (case j of
     JNull \<Rightarrow> Inr old
   | JStr s \<Rightarrow> Inr s
   | _ \<Rightarrow> Inl (Errorf ''json: cannot unmarshal value into Go value of type string''))"

text \<open>
  A struct target is a list of field names with the decoder that stores into each. Keys are taken in
  the order of the document, unknown keys are skipped, \<open>null\<close> changes nothing. The first error ends
  the model's decoding; Go goes on after a type error, but reports it all the same, and no caller
  here looks at a target whose decoding failed.
\<close>

type_synonym 'a fields = "(string \<times> (json \<Rightarrow> 'a \<Rightarrow> go_error + 'a)) list"

fun decode_fields :: "'a fields \<Rightarrow> (string \<times> json) list \<Rightarrow> 'a \<Rightarrow> go_error + 'a" where
  "decode_fields fs [] x = Inr x"
| "decode_fields fs ((k, j) # kjs) x =
     (case match_field (map fst fs) k of
        None \<Rightarrow> decode_fields fs kjs x
      | Some f \<Rightarrow> (case the (map_of fs f) j x of Inl e \<Rightarrow> Inl e | Inr y \<Rightarrow> decode_fields fs kjs y))"

definition decode_struct :: "'a fields \<Rightarrow> json \<Rightarrow> 'a \<Rightarrow> go_error + 'a" where
  "decode_struct fs j old = (case j of
     JNull \<Rightarrow> Inr old
   | JObj kjs \<Rightarrow> decode_fields fs kjs old
   | _ \<Rightarrow> Inl (Errorf ''json: cannot unmarshal value into Go struct''))"

text \<open>A map target: every value is decoded into a fresh element; \<open>null\<close> makes the map nil.\<close>

fun decode_entries :: "(json \<Rightarrow> 'v \<Rightarrow> go_error + 'v) \<Rightarrow> 'v \<Rightarrow> (string \<times> json) list \<Rightarrow> 'v gomap \<Rightarrow> go_error + 'v gomap" where
  "decode_entries dec zero [] m = Inr m"
| "decode_entries dec zero ((k, j) # kjs) m =
     (case dec j zero of Inl e \<Rightarrow> Inl e | Inr v \<Rightarrow> decode_entries dec zero kjs (AList.update k v m))"

definition decode_map :: "(json \<Rightarrow> 'v \<Rightarrow> go_error + 'v) \<Rightarrow> 'v \<Rightarrow> json \<Rightarrow> 'v gomap \<Rightarrow> go_error + 'v gomap" where
  "decode_map dec zero j old = (case j of
     JNull \<Rightarrow> Inr []
   | JObj kjs \<Rightarrow> decode_entries dec zero kjs old
   | _ \<Rightarrow> Inl (Errorf ''json: cannot unmarshal value into Go map''))"

lemma decode_entries_wf: "decode_entries dec zero kjs m = Inr m' \<Longrightarrow> wf_map m \<Longrightarrow> wf_map m'"
  by (induction kjs arbitrary: m) (auto split: sum.splits)

lemma decode_map_wf: "decode_map dec zero j m = Inr m' \<Longrightarrow> wf_map m \<Longrightarrow> wf_map m'"
  by (auto simp: decode_map_def decode_entries_wf split: json.splits)

text \<open>A map whose values all decode is decoded value by value.\<close>

lemma decode_entries_map:
  assumes "\<And>k j. (k, j) \<in> set kjs \<Longrightarrow> dec j zero = Inr (f j)" and "distinct (map fst kjs)"
  shows "decode_entries dec zero kjs [] = Inr (map (\<lambda>(k, j). (k, f j)) kjs)"
proof -
  have "decode_entries dec zero kjs m = Inr (m @ map (\<lambda>(k, j). (k, f j)) kjs)"
    if "fst ` set m \<inter> fst ` set kjs = {}" "distinct (map fst kjs)" "\<And>k j. (k, j) \<in> set kjs \<Longrightarrow> dec j zero = Inr (f j)"
    for m
    using that
  proof (induction kjs arbitrary: m)
    case (Cons e kjs)
    obtain k j where e: "e = (k, j)" by fastforce
    with Cons.prems have fresh: "k \<notin> fst ` set m" by auto
    have "AList.update k v m = m @ [(k, v)]" for v
      using fresh by (induction m) auto
    moreover have "fst ` set (m @ [(k, f j)]) \<inter> fst ` set kjs = {}" using Cons.prems(1,2) e by auto
    moreover have "dec j zero = Inr (f j)" by (rule Cons.prems(3) [of k]) (simp add: e)
    moreover have "decode_entries dec zero kjs (m @ [(k, f j)])
        = Inr ((m @ [(k, f j)]) @ map (\<lambda>(k, j). (k, f j)) kjs)" if "fst ` set (m @ [(k, f j)]) \<inter> fst ` set kjs = {}"
      by (rule Cons.IH [OF that]) (use Cons.prems(2) in \<open>auto intro: Cons.prems(3)\<close>)
    ultimately show ?case by (simp add: e)
  qed simp
  from this [of "[]"] show ?thesis using assms by simp
qed

text \<open>A property every field decoder keeps is kept by decoding a struct.\<close>

lemma match_field_mem: "match_field names k = Some f \<Longrightarrow> f \<in> set names"
  by (auto simp: match_field_def find_Some_iff split: if_splits)

lemma map_sum_Inr: "map_sum id f x = Inr y \<longleftrightarrow> (\<exists>v. x = Inr v \<and> y = f v)"
  by (cases x) auto

definition keeps :: "('a \<Rightarrow> bool) \<Rightarrow> 'a fields \<Rightarrow> bool" where
  "keeps P fs \<longleftrightarrow> (\<forall>(f, dec) \<in> set fs. \<forall>j x y. P x \<longrightarrow> dec j x = Inr y \<longrightarrow> P y)"

lemma keepsD: "keeps P fs \<Longrightarrow> (f, dec) \<in> set fs \<Longrightarrow> P x \<Longrightarrow> dec j x = Inr y \<Longrightarrow> P y"
  unfolding keeps_def by fast

lemma decode_fields_keeps: "decode_fields fs kjs x = Inr y \<Longrightarrow> keeps P fs \<Longrightarrow> P x \<Longrightarrow> P y"
proof (induction fs kjs x rule: decode_fields.induct)
  case (2 fs k j kjs x)
  show ?case
  proof (cases "match_field (map fst fs) k")
    case None
    with 2 show ?thesis by simp
  next
    case (Some f)
    with 2(3) obtain z where z: "the (map_of fs f) j x = Inr z" "decode_fields fs kjs z = Inr y"
      by (auto split: sum.splits)
    have "f \<in> fst ` set fs" using match_field_mem [OF Some] by simp
    then have "(f, the (map_of fs f)) \<in> set fs"
      by (metis domIff dom_map_of_conv_image_fst map_of_SomeD option.collapse)
    then have "P z" using keepsD [where P = P and x = x and y = z] 2(4,5) z(1) by blast
    then show ?thesis using 2(2) [OF Some z(1) z(2)] 2(4) by blast
  qed
qed simp

lemma decode_struct_keeps: "decode_struct fs j x = Inr y \<Longrightarrow> keeps P fs \<Longrightarrow> P x \<Longrightarrow> P y"
  using decode_fields_keeps [where P = P] by (auto simp: decode_struct_def split: json.splits)

end
