(* ===== verification/Probe_Source.thy ===== *)
theory Probe_Source
  imports Source_Interface Sorting_Contract Goroutines Http "HOL-Library.Monad_Syntax"
begin

section \<open>The probing latency source\<close>

text \<open>
  \<open>internal/latency/probe_source.go\<close>: three HTTP requests per pod, one goroutine per pod. The
  goroutines interleave: a probing goroutine is a small machine whose steps are the readings of the
  clock, the request and the delivery of its result, and the runtime chooses in which order the
  machines take their turns. The HTTP client is a parameter.
\<close>

subsection \<open>Sorting and percentiles\<close>

text \<open>The inner loop of \<open>sortDurations\<close> from index \<open>j\<close> on; \<open>j\<close> stays below the length.\<close>

fun bubble_down :: "nat \<Rightarrow> duration list \<Rightarrow> duration list" where
  "bubble_down 0 d = d"
| "bubble_down (Suc j) d =
     (if d ! Suc j < d ! j then bubble_down j (d[Suc j := d ! j, j := d ! Suc j]) else d)"

definition sortDurations :: "duration list \<Rightarrow> duration list" where
  "sortDurations d = fold bubble_down [1..<length d] d"

definition percentile :: "duration list \<Rightarrow> int64 \<Rightarrow> duration option" where
  "percentile ds pct =
     (if ds = [] then Some 0
      else let idx = go_div (pct * go_len ds) 100;
               idx = (if idx \<ge> go_len ds then go_len ds - 1 else idx)
           in go_index ds idx)"

subsection \<open>One goroutine\<close>

definition unreachableLatency :: duration where
  "unreachableLatency = 9999 * millisecond"

definition probeSamplesPerRound :: nat where
  "probeSamplesPerRound = 3"

record 'w ProbeSource =
  probePort :: int32
  probeClient :: "'w http_client"

definition NewProbeSource :: "'w http_client \<Rightarrow> int32 \<Rightarrow> 'w ProbeSource" where
  "NewProbeSource client port = \<lparr>probePort = port, probeClient = client\<rparr>"

definition probe_url :: "'w ProbeSource \<Rightarrow> string \<Rightarrow> string" where
  "probe_url src podIP = ''http://'' @ podIP @ '':'' @ show_int (sval (probePort src)) @ ''/''"

text \<open>
  Where a goroutine is: at the head of the loop of \<open>probePod\<close>, before the request, after it, with
  its statistics computed (\<open>None\<close>: it panicked), or done.
\<close>

datatype phase =
    LoopHead
  | Requesting time
  | Responded time "go_error + http_response"
  | Computed "Stats option"
  | Delivered

record prober =
  probedIP :: string
  samples :: "duration list"
  phase :: phase

text \<open>The end of \<open>probePod\<close>, once the loop is left.\<close>

definition probe_stats :: "duration list \<Rightarrow> time \<Rightarrow> Stats option" where
  "probe_stats d t =
     (if d = [] then Some \<lparr>P50 = unreachableLatency, P99 = unreachableLatency, SampleCount = 0,
        LastUpdated = t\<rparr>
      else let ds = sortDurations d in do {
        p50 \<leftarrow> percentile ds 50;
        p99 \<leftarrow> percentile ds 99;
        Some \<lparr>P50 = p50, P99 = p99, SampleCount = go_len ds, LastUpdated = t\<rparr>
      })"

definition probe_turn ::
  "'w ProbeSource \<Rightarrow> prober \<Rightarrow> ('w world, prober \<times> (string \<times> Stats option) list) state" where
  "probe_turn src g = (let url = probe_url src (probedIP g) in case phase g of
     LoopHead \<Rightarrow>
       (if length (samples g) < probeSamplesPerRound then do {
          start \<leftarrow> now;
          (case newRequest (probeClient src) url of
             Some err \<Rightarrow> ret (g\<lparr>samples := samples g @ [unreachableLatency]\<rparr>, [])
           | None \<Rightarrow> ret (g\<lparr>phase := Requesting start\<rparr>, []))
        } else do {
          t \<leftarrow> now;
          ret (g\<lparr>phase := Computed (probe_stats (samples g) t)\<rparr>, [])
        })
   | Requesting start \<Rightarrow> do {
       resp \<leftarrow> call_out (httpDo (probeClient src) url);
       ret (g\<lparr>phase := Responded start resp\<rparr>, [])
     }
   | Responded start resp \<Rightarrow> do {
       lat \<leftarrow> time_since start;
       (case resp of
          Inl err \<Rightarrow> ret (g\<lparr>samples := samples g @ [unreachableLatency], phase := LoopHead\<rparr>, [])
        | Inr r \<Rightarrow> ret (g\<lparr>samples := samples g @ [lat], phase := LoopHead\<rparr>, []))
     }
   | Computed stat \<Rightarrow> ret (g\<lparr>phase := Delivered\<rparr>, [(probedIP g, stat)])
   | Delivered \<Rightarrow> ret (g, []))"

subsection \<open>All goroutines\<close>

text \<open>
  A goroutine has at most eleven steps: three per request, the statistics, the delivery.
\<close>

definition start_prober :: "string \<Rightarrow> prober" where
  "start_prober podIP = \<lparr>probedIP = podIP, samples = [], phase = LoopHead\<rparr>"

definition probe_turns :: nat where
  "probe_turns = 11"

definition collect :: "(string \<times> Stats option) list \<Rightarrow> latencies option" where
  "collect rs = (if None \<in> snd ` set rs then None
     else Some (fold (\<lambda>(ip, stat). AList.update ip (the stat)) rs []))"

definition ProbeSource_GetLatencies ::
  "'w ProbeSource \<Rightarrow> string list \<Rightarrow> ('w world, (go_error + latencies) option) state" where
  "ProbeSource_GetLatencies src podIPs =
     (if podIPs = [] then ret (Some (Inr []))
      else do {
        results \<leftarrow> run_pool (probe_turn src) probe_turns (map start_prober podIPs);
        ret (map_option Inr (collect results))
      })"

definition probe_Source :: "'w ProbeSource \<Rightarrow> 'w Source" where
  "probe_Source src = \<lparr>sourceGetLatencies = ProbeSource_GetLatencies src,
     sourceName = ''probe'', sourceReady = True\<rparr>"

subsection \<open>The insertion sort\<close>

lemma insort_snoc_less: "sorted (xs @ [y]) \<Longrightarrow> x < y \<Longrightarrow> insort x (xs @ [y]) = insort x xs @ [y :: 'a::linorder]"
  by (induction xs) auto

lemma insort_snoc_ge: 
  assumes "sorted (xs @ [y])" and "y \<le> (x :: 'a::linorder)"
  shows "insort x (xs @ [y]) = xs @ [y, x]"
proof -
  have "sorted (xs @ [y, x])" using assms by (auto simp: sorted_append)
  then have "sort (x # xs @ [y]) = xs @ [y, x]" by (intro properties_for_sort) simp_all
  then show ?thesis using assms(1) by (simp add: sorted_sort_id)
qed

lemma bubble_down_insort:
  "sorted xs \<Longrightarrow> bubble_down (length xs) (xs @ x # ys) = insort x xs @ ys"
proof (induction xs arbitrary: ys rule: rev_induct)
  case Nil
  then show ?case by simp
next
  case (snoc y xs)
  have nths: "((xs @ [y]) @ x # ys) ! Suc (length xs) = x" "((xs @ [y]) @ x # ys) ! length xs = y"
    by (simp_all add: nth_append)
  have upd: "((xs @ [y]) @ x # ys)[Suc (length xs) := y, length xs := x] = xs @ x # y # ys"
    by (simp add: list_update_append)
  show ?case
  proof (cases "x < y")
    case True
    moreover have "sorted xs" using snoc.prems by (simp add: sorted_append)
    ultimately have "bubble_down (length (xs @ [y])) ((xs @ [y]) @ x # ys) = insort x xs @ y # ys"
      using snoc.IH [of "y # ys"] by (simp only: length_append_singleton bubble_down.simps nths upd if_True)
    then show ?thesis using insort_snoc_less [OF snoc.prems True] by simp
  next
    case False
    then have "bubble_down (length (xs @ [y])) ((xs @ [y]) @ x # ys) = (xs @ [y]) @ x # ys"
      by (simp only: length_append_singleton bubble_down.simps nths if_False)
    with False show ?thesis using insort_snoc_ge [OF snoc.prems, of x] by simp
  qed
qed

lemma sort_snoc: "sort (xs @ [x]) = insort x (sort xs)"
  by (rule properties_for_sort) (simp_all add: sorted_insort)

lemma bubble_prefix: "i \<le> length d \<Longrightarrow> fold bubble_down [1..<i] d = sort (take i d) @ drop i d"
proof (induction i)
  case (Suc i)
  show ?case
  proof (cases "i = 0")
    case True
    with Suc.prems show ?thesis by (cases d) simp_all
  next
    case False
    have "fold bubble_down [1..<Suc i] d = bubble_down i (sort (take i d) @ drop i d)"
      using False Suc by simp
    also have "drop i d = d ! i # drop (Suc i) d" using Suc.prems by (simp add: Cons_nth_drop_Suc)
    also have "bubble_down i (sort (take i d) @ d ! i # drop (Suc i) d)
        = insort (d ! i) (sort (take i d)) @ drop (Suc i) d"
      using bubble_down_insort [of "sort (take i d)" "d ! i" "drop (Suc i) d"] Suc.prems by simp
    also have "insort (d ! i) (sort (take i d)) = sort (take (Suc i) d)"
      using Suc.prems by (simp add: take_Suc_conv_app_nth sort_snoc)
    finally show ?thesis .
  qed
qed simp

lemma sortDurations_sort: "sortDurations d = sort d"
  using bubble_prefix [of "length d" d] by (simp add: sortDurations_def)

interpretation durations: sorter sortDurations "\<lambda>d. d"
  by unfold_locales (simp_all add: sortDurations_sort)

lemma percentile_nth:
  assumes "length ds < 2 ^ 32" and "ds \<noteq> []" and "p < 100"
  shows "percentile ds (of_nat p) = Some (ds ! (p * length ds div 100))"
proof -
  have n: "0 < length ds" using assms(2) by simp
  have "p * length ds < 100 * length ds" using assms by simp
  then have "p * length ds div 100 < length ds" by (simp add: div_less_iff_less_mult mult.commute)
  moreover have "percentile ds (of_nat p) = go_index ds (of_nat (p * length ds div 100))"
    using go_percentile_index [OF n assms(1,3)] assms(2)
    unfolding percentile_def by (simp only: Let_def if_False)
  ultimately show ?thesis using assms(1) by (simp add: go_index_of_nat)
qed

text \<open>
  The percentiles of a probing round, for any number of samples below \<open>2 ^ 32\<close>: \<open>percentile\<close> on the
  sorted samples does not panic for a percentage below 100, returns one of the samples, more than
  \<open>p\<close> percent of the samples are at or below it and at most \<open>p\<close> percent strictly below.
\<close>

theorem percentile_of_samples:
  assumes "d \<noteq> []" and "length d < 2 ^ 32" and "p < 100"
  shows "\<exists>v. percentile (sortDurations d) (of_nat p) = Some v \<and> v \<in> set d
    \<and> p * length d < 100 * length (filter (\<lambda>x. x \<le> v) d)
    \<and> 100 * length (filter (\<lambda>x. x < v) d) \<le> p * length d"
proof -
  have "sortDurations d \<noteq> []" using assms(1) by (metis durations.length_srt length_0_conv)
  then have "percentile (sortDurations d) (of_nat p) = Some (sortDurations d ! (p * length d div 100))"
    using percentile_nth [of "sortDurations d" p] assms(2,3) by simp
  then show ?thesis using durations.percentile_entry [OF assms(3,1)] by blast
qed

theorem percentile_of_samples_witness:
  "\<exists>v. percentile (sortDurations [7, 3, 5]) (of_nat 50) = Some v \<and> v \<in> {7, 3, 5}"
  using percentile_of_samples [of "[7, 3, 5]" 50] by auto

text \<open>The statistics of a round of three probes: the P50 is the middle sample, the P99 the largest.\<close>

lemma probe_stats_three:
  "probe_stats [a, b, c] t = Some \<lparr>P50 = max (min a b) (min (max a b) c), P99 = max (max a b) c,
     SampleCount = 3, LastUpdated = t\<rparr>"
proof -
  let ?d = "sortDurations [a, b, c]"
  have d: "?d = [min (min a b) c, max (min a b) (min (max a b) c), max (max a b) c]"
    by (auto simp: sortDurations_sort min_def max_def insort_is_Cons)
  have "percentile ?d (of_nat 50) = Some (?d ! 1)" "percentile ?d (of_nat 99) = Some (?d ! 2)"
    by (subst percentile_nth; simp add: d)+
  then show ?thesis by (simp add: probe_stats_def Let_def d)
qed

subsection \<open>What a goroutine has measured\<close>

text \<open>
  A pod answers at all when its URL is well formed and some state of the world has it respond. A
  sample is the constant for unreachable pods, or was measured on a pod that answers, within the
  time between the start \<open>s0\<close> of the round and the present \<open>s\<close>.
\<close>

definition responsive :: "'w ProbeSource \<Rightarrow> string \<Rightarrow> bool" where
  "responsive src ip \<longleftrightarrow> newRequest (probeClient src) (probe_url src ip) = None
     \<and> (\<exists>w r. fst (httpDo (probeClient src) (probe_url src ip) w) = Inr r)"

definition within :: "'w world \<Rightarrow> 'w world \<Rightarrow> time \<Rightarrow> bool" where
  "within s0 s t \<longleftrightarrow> (monotonic s0 \<longrightarrow> clock s0 0 \<le> t \<and> t \<le> clock s 0)"

definition sample_ok :: "'w ProbeSource \<Rightarrow> 'w world \<Rightarrow> 'w world \<Rightarrow> string \<Rightarrow> duration \<Rightarrow> bool" where
  "sample_ok src s0 s ip x \<longleftrightarrow> x = unreachableLatency \<or> responsive src ip
     \<and> (monotonic s0 \<longrightarrow> 0 \<le> x \<and> x \<le> time_sub (clock s 0) (clock s0 0))"

definition stat_ok :: "'w ProbeSource \<Rightarrow> 'w world \<Rightarrow> 'w world \<Rightarrow> string \<Rightarrow> Stats option \<Rightarrow> bool" where
  "stat_ok src s0 s ip stat \<longleftrightarrow> (\<exists>a b c t. stat = probe_stats [a, b, c] t
     \<and> sample_ok src s0 s ip a \<and> sample_ok src s0 s ip b \<and> sample_ok src s0 s ip c \<and> within s0 s t)"

definition prober_ok :: "'w ProbeSource \<Rightarrow> 'w world \<Rightarrow> 'w world \<Rightarrow> prober \<Rightarrow> bool" where
  "prober_ok src s0 s g \<longleftrightarrow> length (samples g) \<le> 3
     \<and> (\<forall>x \<in> set (samples g). sample_ok src s0 s (probedIP g) x)
     \<and> (case phase g of
          LoopHead \<Rightarrow> True
        | Requesting start \<Rightarrow> length (samples g) < 3 \<and> within s0 s start
            \<and> newRequest (probeClient src) (probe_url src (probedIP g)) = None
        | Responded start resp \<Rightarrow> length (samples g) < 3 \<and> within s0 s start
            \<and> (\<forall>r. resp = Inr r \<longrightarrow> responsive src (probedIP g))
        | Computed stat \<Rightarrow> stat_ok src s0 s (probedIP g) stat
        | Delivered \<Rightarrow> True)"

text \<open>How many turns a goroutine still needs.\<close>

definition need :: "prober \<Rightarrow> nat" where
  "need g = (case phase g of
     LoopHead \<Rightarrow> 3 * (3 - length (samples g)) + 2
   | Requesting start \<Rightarrow> 3 * (3 - length (samples g)) + 1
   | Responded start resp \<Rightarrow> 3 * (3 - length (samples g))
   | Computed stat \<Rightarrow> 1
   | Delivered \<Rightarrow> 0)"

lemma within_later: "within s0 s t \<Longrightarrow> advances s0 s \<Longrightarrow> advances s s' \<Longrightarrow> within s0 s' t"
  unfolding within_def using advances_le advances_monotonic by (metis order.trans)

lemma sample_ok_later:
  "sample_ok src s0 s ip x \<Longrightarrow> advances s0 s \<Longrightarrow> advances s s' \<Longrightarrow> sample_ok src s0 s' ip x"
  unfolding sample_ok_def using advances_le advances_monotonic time_sub_mono by (metis order.trans)

lemma stat_ok_later:
  "stat_ok src s0 s ip stat \<Longrightarrow> advances s0 s \<Longrightarrow> advances s s' \<Longrightarrow> stat_ok src s0 s' ip stat"
  unfolding stat_ok_def using within_later sample_ok_later by metis

lemma prober_ok_later:
  "prober_ok src s0 s g \<Longrightarrow> advances s0 s \<Longrightarrow> advances s s' \<Longrightarrow> prober_ok src s0 s' g"
  unfolding prober_ok_def
  by (auto split: phase.splits intro: within_later sample_ok_later stat_ok_later)

lemma within_now: "advances s0 s \<Longrightarrow> within s0 (tick s) (clock s 0)"
  using advances_le [of s "tick s"] advances_le [of s0 s] advances_monotonic [of s0 s]
  by (auto simp: within_def)

lemma sample_ok_measured:
  assumes "within s0 s start" and "advances s0 s" and "responsive src ip"
  shows "sample_ok src s0 (tick s) ip (time_sub (clock s 0) start)"
proof -
  have "0 \<le> time_sub (clock s 0) start \<and> time_sub (clock s 0) start \<le> time_sub (clock (tick s) 0) (clock s0 0)"
    if "monotonic s0"
  proof -
    have "start \<le> clock s 0" "clock s0 0 \<le> start" using assms(1) that by (simp_all add: within_def)
    moreover have "clock s 0 \<le> clock (tick s) 0"
      using advances_le [of s "tick s"] advances_monotonic [OF assms(2) that] by simp
    ultimately show ?thesis by (simp add: less_eq_go_int_def sval_time_sub)
  qed
  with assms(3) show ?thesis by (simp add: sample_ok_def)
qed

text \<open>One turn.\<close>

definition result_ok :: "'w ProbeSource \<Rightarrow> 'w world \<Rightarrow> 'w world \<Rightarrow> string \<times> Stats option \<Rightarrow> bool" where
  "result_ok src s0 s r \<longleftrightarrow> stat_ok src s0 s (fst r) (snd r)"

definition turn_ok ::
  "'w ProbeSource \<Rightarrow> 'w world \<Rightarrow> 'w world \<Rightarrow> prober \<Rightarrow> prober \<times> (string \<times> Stats option) list \<Rightarrow> bool" where
  "turn_ok src s0 s' g = (\<lambda>(g', out). prober_ok src s0 s' g' \<and> need g' \<le> need g - 1
     \<and> (\<forall>r \<in> set out. result_ok src s0 s' r)
     \<and> map fst out = (if need g \<noteq> 0 \<and> need g' = 0 then [probedIP g] else []))"

lemma probe_turn_ok:
  assumes "prober_ok src s0 s g" and "advances s0 s" and run: "run_state (probe_turn src g) s = (go, s')"
  shows "advances s s' \<and> turn_ok src s0 s' g go"
proof (cases "phase g")
  case LoopHead
  show ?thesis
  proof (cases "length (samples g) < 3")
    case True
    with LoopHead run have s': "s' = tick s" and go: "go = (case newRequest (probeClient src) (probe_url src (probedIP g)) of
        Some err \<Rightarrow> (g\<lparr>samples := samples g @ [unreachableLatency]\<rparr>, [])
      | None \<Rightarrow> (g\<lparr>phase := Requesting (clock s 0)\<rparr>, []))"
      by (auto simp: probe_turn_def Let_def probeSamplesPerRound_def split: option.splits)
    have "prober_ok src s0 s' g" unfolding s' using prober_ok_later [OF assms(1,2)] by simp
    moreover have "within s0 s' (clock s 0)" unfolding s' using within_now [OF assms(2)] .
    ultimately show ?thesis
      using LoopHead True go s'
      by (auto simp: turn_ok_def prober_ok_def need_def sample_ok_def split: option.splits)
  next
    case False
    with assms(1) have len: "length (samples g) = 3" by (simp add: prober_ok_def)
    then obtain a b c where abc: "samples g = [a, b, c]"
      by (auto simp: numeral_3_eq_3 length_Suc_conv)
    from LoopHead len run have s': "s' = tick s"
      and go: "go = (g\<lparr>phase := Computed (probe_stats (samples g) (clock s 0))\<rparr>, [])"
      by (simp_all add: probe_turn_def Let_def probeSamplesPerRound_def)
    have ok: "prober_ok src s0 s' g" unfolding s' using prober_ok_later [OF assms(1,2)] by simp
    moreover have "within s0 s' (clock s 0)" unfolding s' using within_now [OF assms(2)] .
    ultimately have "stat_ok src s0 s' (probedIP g) (probe_stats (samples g) (clock s 0))"
      using abc unfolding stat_ok_def prober_ok_def by (intro exI [of _ a] exI [of _ b] exI [of _ c] exI) auto
    with ok LoopHead len go s' show ?thesis by (simp add: turn_ok_def prober_ok_def need_def)
  qed
next
  case (Requesting start)
  let ?f = "httpDo (probeClient src) (probe_url src (probedIP g))"
  from Requesting run have go: "go = (g\<lparr>phase := Responded start (fst (?f (outside s)))\<rparr>, [])"
    and s': "s' = s\<lparr>outside := snd (?f (outside s))\<rparr>"
    by (simp_all add: probe_turn_def Let_def)
  have adv: "advances s s'" unfolding s' by (rule advances_refl) simp
  have "prober_ok src s0 s' g" by (rule prober_ok_later [OF assms(1,2) adv])
  with Requesting go adv show ?thesis
    by (auto simp: turn_ok_def prober_ok_def need_def responsive_def)
next
  case (Responded start resp)
  from Responded run have s': "s' = tick s" and go: "go = (case resp of
        Inl err \<Rightarrow> (g\<lparr>samples := samples g @ [unreachableLatency], phase := LoopHead\<rparr>, [])
      | Inr r \<Rightarrow> (g\<lparr>samples := samples g @ [time_sub (clock s 0) start], phase := LoopHead\<rparr>, []))"
    by (auto simp: probe_turn_def Let_def split: sum.splits)
  have "prober_ok src s0 s' g" unfolding s' using prober_ok_later [OF assms(1,2)] by simp
  moreover have "sample_ok src s0 s' (probedIP g) (time_sub (clock s 0) start)" if "resp = Inr r" for r
    unfolding s' using Responded assms(1,2) that
    by (intro sample_ok_measured) (auto simp: prober_ok_def)
  ultimately show ?thesis
    using Responded go s' by (auto simp: turn_ok_def prober_ok_def need_def sample_ok_def split: sum.splits)
next
  case (Computed stat)
  with assms(1) run show ?thesis
    by (auto simp: probe_turn_def Let_def turn_ok_def prober_ok_def need_def result_ok_def)
next
  case Delivered
  with assms(1) run show ?thesis
    by (auto simp: probe_turn_def Let_def turn_ok_def prober_ok_def need_def)
qed

lemma probe_turn_task: "run_state (probe_turn src g) s = ((g', out), s') \<Longrightarrow> probedIP g' = probedIP g"
  by (auto simp: probe_turn_def Let_def split: phase.splits if_splits option.splits sum.splits)

interpretation probing: goroutine "probe_turn src" probedIP fst need "prober_ok src" "result_ok src"
proof
  fix g g' out and s0 s s' :: "'a world"
  assume turn: "run_state (probe_turn src g) s = ((g', out), s')"
  show "probedIP g' = probedIP g" by (rule probe_turn_task [OF turn])
  assume "prober_ok src s0 s g" and "advances s0 s"
  note ok = probe_turn_ok [OF this turn]
  show "advances s s'" "prober_ok src s0 s' g'" "need g' \<le> need g - 1"
    "map fst out = (if need g \<noteq> 0 \<and> need g' = 0 then [probedIP g] else [])"
    using ok by (simp_all add: turn_ok_def)
  show "r \<in> set out \<Longrightarrow> result_ok src s0 s' r" for r using ok by (simp add: turn_ok_def)
qed (auto simp: result_ok_def intro: prober_ok_later stat_ok_later)

subsection \<open>The whole round\<close>

lemma stat_ok_Some: "stat_ok src s0 s ip stat \<Longrightarrow> stat \<noteq> None"
  by (auto simp: stat_ok_def probe_stats_three)

text \<open>Collecting results: the keys are the IPs delivered, each value is one that was delivered.\<close>

lemma collect_step:
  "wf_map m \<Longrightarrow> wf_map (fold (\<lambda>(ip, stat). AList.update ip (the stat)) rs m)
     \<and> fst ` set (fold (\<lambda>(ip, stat). AList.update ip (the stat)) rs m) = fst ` set m \<union> fst ` set rs
     \<and> set (fold (\<lambda>(ip, stat). AList.update ip (the stat)) rs m) \<subseteq> set m \<union> (\<lambda>(ip, stat). (ip, the stat)) ` set rs"
proof (induction rs arbitrary: m)
  case (Cons e rs)
  obtain ip stat where e: "e = (ip, stat)" by fastforce
  have keys: "fst ` set (AList.update ip (the stat) m) = insert ip (fst ` set m)"
    unfolding dom_map_of_conv_image_fst [symmetric] by (auto simp: map_of_update split: if_splits)
  have new: "set (AList.update ip (the stat) m) \<subseteq> insert (ip, the stat) (set m)"
    by (rule set_update_subset)
  from Cons.IH [of "AList.update ip (the stat) m"] Cons.prems keys new e show ?case by auto
qed auto

lemma collect_ok:
  assumes "None \<notin> snd ` set rs"
  obtains m where "collect rs = Some m" and "wf_map m" and "fst ` set m = fst ` set rs"
    and "\<And>ip st. (ip, st) \<in> set m \<Longrightarrow> (ip, Some st) \<in> set rs"
proof -
  let ?m = "fold (\<lambda>(ip, stat). AList.update ip (the stat)) rs []"
  note step = collect_step [of "[]" rs]
  have "(ip, Some st) \<in> set rs" if "(ip, st) \<in> set ?m" for ip st
  proof -
    from that step obtain stat where "(ip, stat) \<in> set rs" "st = the stat" by auto
    moreover from this assms have "stat \<noteq> None" by force
    ultimately show ?thesis by auto
  qed
  then show thesis using assms step by (intro that [of ?m]) (simp_all add: collect_def)
qed

lemma probe_round_run:
  assumes "podIPs \<noteq> []" and "run_state (ProbeSource_GetLatencies src podIPs) s = (res, s')"
  obtains m where "res = Some (Inr m)" and "advances s s'" and "wf_map m" and "fst ` set m = set podIPs"
    and "\<And>ip st. (ip, st) \<in> set m \<Longrightarrow> stat_ok src s s' ip (Some st)"
proof -
  let ?gs = "map start_prober podIPs"
  obtain out where pool: "run_state (run_pool (probe_turn src) probe_turns ?gs) s = (out, s')"
    and res: "res = map_option Inr (collect out)"
    using assms by (auto simp: ProbeSource_GetLatencies_def split: prod.splits)
  have start: "prober_ok src s s g \<and> 0 < need g \<and> need g \<le> probe_turns" if "g \<in> set ?gs" for g
    using that by (auto simp: prober_ok_def need_def start_prober_def probe_turns_def)
  have good: "stat_ok src s s' ip stat" if "(ip, stat) \<in> set out" for ip stat
    using probing.run_pool_ok [OF pool start] that by (auto simp: result_ok_def)
  have adv: "advances s s'" using probing.run_pool_ok [OF pool start] by blast
  have keys: "fst ` set out = set podIPs"
    using probing.run_pool_owners(1) [OF pool start] by (force simp: start_prober_def image_image)
  have "None \<notin> snd ` set out" using good stat_ok_Some by fastforce
  then obtain m where "collect out = Some m" "wf_map m" "fst ` set m = fst ` set out"
    "\<And>ip st. (ip, st) \<in> set m \<Longrightarrow> (ip, Some st) \<in> set out" by (rule collect_ok) blast
  with res keys good adv show thesis by (intro that [of m]) auto
qed

interpretation probe: latency_source "ProbeSource_GetLatencies src"
proof
  fix ips :: "string list" and s :: "'a world"
  show "fst (run_state (ProbeSource_GetLatencies src ips) s) \<noteq> None"
  proof (cases "ips = []")
    case False
    then show ?thesis using probe_round_run [OF False] by (metis option.distinct(1) prod.collapse)
  qed (simp add: ProbeSource_GetLatencies_def)
next
  fix ips m and s s' :: "'a world"
  assume run: "run_state (ProbeSource_GetLatencies src ips) s = (Some (Inr m), s')"
  show "wf_map m"
  proof (cases "ips = []")
    case True
    with run show ?thesis by (simp add: ProbeSource_GetLatencies_def)
  next
    case False
    from probe_round_run [OF False run] show ?thesis by auto
  qed
  assume "ips \<noteq> []"
  from probe_round_run [OF this run] show "fst ` set m \<subseteq> set ips" by auto
next
  fix ips r and s s' :: "'a world"
  assume run: "run_state (ProbeSource_GetLatencies src ips) s = (r, s')"
  show "advances s s'"
  proof (cases "ips = []")
    case True
    with run show ?thesis by (simp add: ProbeSource_GetLatencies_def)
  next
    case False
    from probe_round_run [OF False run] show ?thesis by blast
  qed
qed

subsection \<open>What a round of probes reports\<close>

text \<open>
  (C22) A round of probes never panics or fails and reports on every requested pod, and on no other,
  whatever the interleaving of the goroutines: three samples, a P50 not above the P99, an update time
  within the round, and as latencies either the constant for unreachable pods or, for a pod that
  answers at all, a duration between zero and the time the whole round took.
\<close>

theorem probe_round_measures:
  assumes "podIPs \<noteq> []" and "monotonic s"
    and "run_state (ProbeSource_GetLatencies src podIPs) s = (res, s')"
  shows "\<exists>m. res = Some (Inr m) \<and> wf_map m \<and> fst ` set m = set podIPs
    \<and> (\<forall>ip st. map_of m ip = Some st \<longrightarrow> SampleCount st = 3 \<and> P50 st \<le> P99 st
         \<and> clock s 0 \<le> LastUpdated st \<and> LastUpdated st \<le> clock s' 0
         \<and> (\<forall>x \<in> {P50 st, P99 st}. x = unreachableLatency
              \<or> responsive src ip \<and> 0 \<le> x \<and> x \<le> time_sub (clock s' 0) (clock s 0)))"
proof -
  obtain m where m: "res = Some (Inr m)" "wf_map m" "fst ` set m = set podIPs"
    and ok: "\<And>ip st. (ip, st) \<in> set m \<Longrightarrow> stat_ok src s s' ip (Some st)"
    by (rule probe_round_run [OF assms(1,3)]) blast
  have "SampleCount st = 3 \<and> P50 st \<le> P99 st \<and> clock s 0 \<le> LastUpdated st \<and> LastUpdated st \<le> clock s' 0
         \<and> (\<forall>x \<in> {P50 st, P99 st}. x = unreachableLatency
              \<or> responsive src ip \<and> 0 \<le> x \<and> x \<le> time_sub (clock s' 0) (clock s 0))"
    if entry: "map_of m ip = Some st" for ip st
  proof -
    obtain a b c t where st: "st = \<lparr>P50 = max (min a b) (min (max a b) c), P99 = max (max a b) c,
        SampleCount = 3, LastUpdated = t\<rparr>"
      and abc: "\<forall>x \<in> {a, b, c}. sample_ok src s s' ip x" and t: "within s s' t"
      using ok [OF map_of_SomeD [OF entry]] by (auto simp: stat_ok_def probe_stats_three)
    have "max (min a b) (min (max a b) c) \<in> {a, b, c}" "max (max a b) c \<in> {a, b, c}"
      by (auto simp: max_def min_def)
    from this [THEN bspec [OF abc]] have "\<forall>x \<in> {P50 st, P99 st}. sample_ok src s s' ip x"
      by (simp add: st)
    moreover have "P50 st \<le> P99 st" by (auto simp: st max_def min_def)
    ultimately show ?thesis using t assms(2) by (auto simp: st sample_ok_def within_def)
  qed
  with m show ?thesis by blast
qed

text \<open>A client whose every request fails, and one that always answers, for the examples.\<close>

definition dead_client :: "unit http_client" where
  "dead_client = \<lparr>newRequest = (\<lambda>url. None), httpDo = (\<lambda>url w. (Inl (Errorf ''connection refused''), w))\<rparr>"

definition live_client :: "unit http_client" where
  "live_client = \<lparr>newRequest = (\<lambda>url. None),
     httpDo = (\<lambda>url w. (Inr \<lparr>statusCode = 200, respBody = Inr None\<rparr>, w))\<rparr>"

theorem probe_round_measures_witness:
  "\<exists>m s'. run_state (ProbeSource_GetLatencies (NewProbeSource live_client 8080) [''10.0.0.1'', ''10.0.0.2''])
       counting_world = (Some (Inr m), s') \<and> fst ` set m = {''10.0.0.1'', ''10.0.0.2''}"
proof -
  let ?ips = "[''10.0.0.1'', ''10.0.0.2'']"
  obtain res s' where run: "run_state (ProbeSource_GetLatencies (NewProbeSource live_client 8080) ?ips)
      counting_world = (res, s')" by fastforce
  have "?ips \<noteq> []" by simp
  from probe_round_measures [OF this monotonic_counting_world run] run show ?thesis by auto
qed

lemma sval_unreachableLatency: "sval unreachableLatency = 9999 * 10 ^ 6"
  by (simp add: unreachableLatency_def go_eval)

text \<open>
  (C23) A pod that answers no request is reported with a P50 and a P99 of 9999 milliseconds, in every
  interleaving with the probes of other pods.
\<close>

theorem unresponsive_pod_reported:
  assumes "run_state (ProbeSource_GetLatencies src podIPs) s = (res, s')" and "ip \<in> set podIPs"
    and "\<not> responsive src ip"
  shows "\<exists>m st. res = Some (Inr m) \<and> map_of m ip = Some st \<and> SampleCount st = 3
    \<and> sval (P50 st) = 9999 * 10 ^ 6 \<and> sval (P99 st) = 9999 * 10 ^ 6"
proof -
  have "podIPs \<noteq> []" using assms(2) by auto
  then obtain m where m: "res = Some (Inr m)" "wf_map m" "fst ` set m = set podIPs"
    and ok: "\<And>ip st. (ip, st) \<in> set m \<Longrightarrow> stat_ok src s s' ip (Some st)"
    by (rule probe_round_run [OF _ assms(1)]) blast
  from m(3) assms(2) obtain st where st: "(ip, st) \<in> set m" by force
  then have "map_of m ip = Some st" using m(2) by (simp add: map_of_SomeD_wf)
  moreover have "P50 st = unreachableLatency \<and> P99 st = unreachableLatency \<and> SampleCount st = 3"
    using ok [OF st] assms(3) by (auto simp: stat_ok_def sample_ok_def probe_stats_three)
  ultimately show ?thesis
    using m(1) sval_unreachableLatency by (intro exI [of _ m] exI [of _ st]) simp
qed

theorem unresponsive_pod_reported_witness:
  "\<exists>m st s'. run_state (ProbeSource_GetLatencies (NewProbeSource dead_client 8080) [''10.0.0.1''])
       counting_world = (Some (Inr m), s') \<and> map_of m ''10.0.0.1'' = Some st \<and> sval (P99 st) = 9999000000"
proof -
  obtain res s' where run: "run_state (ProbeSource_GetLatencies (NewProbeSource dead_client 8080) [''10.0.0.1''])
      counting_world = (res, s')" by fastforce
  have "\<not> responsive (NewProbeSource dead_client 8080) ''10.0.0.1''"
    by (simp add: responsive_def NewProbeSource_def dead_client_def)
  from unresponsive_pod_reported [OF run _ this] run show ?thesis by fastforce
qed

end
