(* ===== verification/Ebpf_Source.thy ===== *)
theory Ebpf_Source
  imports Source_Interface Goroutines Http
begin

section \<open>The eBPF latency source\<close>

text \<open>
  \<open>internal/latency/ebpf_source.go\<close>: ask every known agent for its latencies, one goroutine per agent,
  and keep for each pod the answer that rests on the most samples. The HTTP client is a parameter.
\<close>

subsection \<open>The response of an agent\<close>

record AgentPodStats =
  agentP50Us :: int64
  agentP99Us :: int64
  agentSampleCount :: int64

record AgentResponse =
  agentPodLatencies :: "AgentPodStats gomap"
  agentNodeName :: string

definition zero_AgentPodStats :: AgentPodStats where
  "zero_AgentPodStats = \<lparr>agentP50Us = 0, agentP99Us = 0, agentSampleCount = 0\<rparr>"

definition zero_AgentResponse :: AgentResponse where
  "zero_AgentResponse = \<lparr>agentPodLatencies = [], agentNodeName = []\<rparr>"

definition AgentPodStats_fields :: "AgentPodStats fields" where
  "AgentPodStats_fields =
    [(''p50Us'', \<lambda>j s. map_sum id (\<lambda>v. s\<lparr>agentP50Us := v\<rparr>) (decode_int64 j (agentP50Us s))),
     (''p99Us'', \<lambda>j s. map_sum id (\<lambda>v. s\<lparr>agentP99Us := v\<rparr>) (decode_int64 j (agentP99Us s))),
     (''sampleCount'', \<lambda>j s. map_sum id (\<lambda>v. s\<lparr>agentSampleCount := v\<rparr>) (decode_int64 j (agentSampleCount s)))]"

definition AgentResponse_fields :: "AgentResponse fields" where
  "AgentResponse_fields =
    [(''podLatencies'', \<lambda>j r. map_sum id (\<lambda>m. r\<lparr>agentPodLatencies := m\<rparr>)
        (decode_map (decode_struct AgentPodStats_fields) zero_AgentPodStats j (agentPodLatencies r))),
     (''nodeName'', \<lambda>j r. map_sum id (\<lambda>v. r\<lparr>agentNodeName := v\<rparr>) (decode_string j (agentNodeName r)))]"

text \<open>\<open>json.Unmarshal(body, &agentResp)\<close>.\<close>

definition unmarshal_AgentResponse :: "json option \<Rightarrow> go_error + AgentResponse" where
  "unmarshal_AgentResponse body = (case body of
     None \<Rightarrow> Inl (Errorf ''invalid character in JSON'')
   | Some j \<Rightarrow> decode_struct AgentResponse_fields j zero_AgentResponse)"

subsection \<open>The source\<close>

record 'w EBPFSource =
  ebpfClient :: "'w http_client"
  agentEndpoints :: "string list"

definition NewEBPFSource :: "'w http_client \<Rightarrow> 'w EBPFSource" where
  "NewEBPFSource client = \<lparr>ebpfClient = client, agentEndpoints = []\<rparr>"

definition UpdateAgentEndpoints :: "string list \<Rightarrow> 'w EBPFSource \<Rightarrow> 'w EBPFSource" where
  "UpdateAgentEndpoints endpoints src = src\<lparr>agentEndpoints := endpoints\<rparr>"

definition EBPFSource_Ready :: "'w EBPFSource \<Rightarrow> bool" where
  "EBPFSource_Ready src \<longleftrightarrow> agentEndpoints src \<noteq> []"

definition agent_url :: "string \<Rightarrow> string" where
  "agent_url endpoint = ''http://'' @ endpoint @ ''/latencies''"

text \<open>Everything \<open>fetchFromAgent\<close> does with a response up to the decoded answer.\<close>

definition read_response :: "string \<Rightarrow> go_error + http_response \<Rightarrow> go_error + AgentResponse" where
  "read_response endpoint r = (case r of
     Inl err \<Rightarrow> Inl (Wrap (''fetching from agent '' @ endpoint) err)
   | Inr resp \<Rightarrow>
       (if statusCode resp \<noteq> 200
        then Inl (Errorf (''agent '' @ endpoint @ '' returned status '' @ show_int (statusCode resp)))
        else (case respBody resp of
          Inl err \<Rightarrow> Inl (Wrap ''reading response body'' err)
        | Inr body \<Rightarrow> (case unmarshal_AgentResponse body of
            Inl err \<Rightarrow> Inl (Wrap ''unmarshaling agent response'' err)
          | Inr agentResp \<Rightarrow> Inr agentResp))))"

text \<open>The loop that filters the answer and converts it.\<close>

definition convert_one ::
  "string list \<Rightarrow> string \<times> AgentPodStats \<Rightarrow> latencies \<Rightarrow> ('x runtime_scheme, latencies) state" where
  "convert_one podIPs e stats = (case e of (ip, agentStat) \<Rightarrow>
     (if podIPs \<noteq> [] \<and> ip \<notin> set podIPs then ret stats
      else do {
        t \<leftarrow> now;
        ret (AList.update ip \<lparr>P50 = agentP50Us agentStat * microsecond,
               P99 = agentP99Us agentStat * microsecond,
               SampleCount = agentSampleCount agentStat, LastUpdated = t\<rparr> stats)
      }))"

definition convert_response ::
  "string list \<Rightarrow> go_error + AgentResponse \<Rightarrow> ('x runtime_scheme, go_error + latencies) state" where
  "convert_response podIPs r = (case r of
     Inl err \<Rightarrow> ret (Inl err)
   | Inr agentResp \<Rightarrow> do {
       entries \<leftarrow> range_map (agentPodLatencies agentResp);
       stats \<leftarrow> for_each entries (convert_one podIPs) [];
       ret (Inr stats)
     })"

text \<open>
  A goroutine of \<open>GetLatencies\<close>: \<open>fetchFromAgent\<close> builds the request, performs it, and converts what it
  got; then the result is sent. Reading a converted answer is one turn: its clock readings only
  stamp the entries, and nothing reads the stamps.
\<close>

datatype fetch_phase =
    Asking
  | Answered "go_error + http_response"
  | Fetched "go_error + latencies"
  | Sent

record fetcher =
  fetchEndpoint :: string
  fetchPhase :: fetch_phase

definition start_fetcher :: "string \<Rightarrow> fetcher" where
  "start_fetcher ep = \<lparr>fetchEndpoint = ep, fetchPhase = Asking\<rparr>"

definition fetch_turns :: nat where
  "fetch_turns = 3"

definition fetch_turn ::
  "'w EBPFSource \<Rightarrow> string list \<Rightarrow> fetcher
     \<Rightarrow> ('w world, fetcher \<times> (string \<times> (go_error + latencies)) list) state" where
  "fetch_turn src podIPs g = (let endpoint = fetchEndpoint g; url = agent_url endpoint in case fetchPhase g of
     Asking \<Rightarrow> (case newRequest (ebpfClient src) url of
         Some err \<Rightarrow> ret (g\<lparr>fetchPhase := Fetched (Inl (Wrap ''creating request'' err))\<rparr>, [])
       | None \<Rightarrow> do {
           r \<leftarrow> call_out (httpDo (ebpfClient src) url);
           ret (g\<lparr>fetchPhase := Answered r\<rparr>, [])
         })
   | Answered r \<Rightarrow> do {
       stats \<leftarrow> convert_response podIPs (read_response endpoint r);
       ret (g\<lparr>fetchPhase := Fetched stats\<rparr>, [])
     }
   | Fetched stats \<Rightarrow> ret (g\<lparr>fetchPhase := Sent\<rparr>, [(endpoint, stats)])
   | Sent \<Rightarrow> ret (g, []))"

text \<open>The receiving loop: one result per agent, in order of arrival.\<close>

definition merge_one :: "string \<times> Stats \<Rightarrow> latencies \<Rightarrow> latencies" where
  "merge_one e aggregated = (case e of (ip, stat) \<Rightarrow>
     (case map_of aggregated ip of
        None \<Rightarrow> AList.update ip stat aggregated
      | Some existing \<Rightarrow>
          (if SampleCount stat > SampleCount existing then AList.update ip stat aggregated
           else aggregated)))"

definition receive_one ::
  "string \<times> (go_error + latencies) \<Rightarrow> latencies \<times> go_error option
     \<Rightarrow> ('x runtime_scheme, latencies \<times> go_error option) state" where
  "receive_one r s = (case (snd r, s) of
     (Inl err, (aggregated, lastErr)) \<Rightarrow> ret (aggregated, Some err)
   | (Inr stats, (aggregated, lastErr)) \<Rightarrow> do {
       entries \<leftarrow> range_map stats;
       ret (fold merge_one entries aggregated, lastErr)
     })"

definition EBPFSource_GetLatencies ::
  "'w EBPFSource \<Rightarrow> string list \<Rightarrow> ('w world, (go_error + latencies) option) state" where
  "EBPFSource_GetLatencies src podIPs =
     (if agentEndpoints src = [] then ret (Some (Inl (Errorf ''no eBPF agent endpoints available'')))
      else do {
        results \<leftarrow> run_pool (fetch_turn src podIPs) fetch_turns (map start_fetcher (agentEndpoints src));
        (aggregated, lastErr) \<leftarrow> for_each results receive_one ([], None);
        (case (aggregated, lastErr) of
           ([], Some err) \<Rightarrow> ret (Some (Inl (Wrap ''all agent fetches failed, last error'' err)))
         | _ \<Rightarrow> ret (Some (Inr aggregated)))
      })"

definition ebpf_Source :: "'w EBPFSource \<Rightarrow> 'w Source" where
  "ebpf_Source src = \<lparr>sourceGetLatencies = EBPFSource_GetLatencies src,
     sourceName = ''ebpf'', sourceReady = EBPFSource_Ready src\<rparr>"

subsection \<open>What an agent answered\<close>

text \<open>
  The answer of an agent in a state \<open>w\<close> of the world, as \<open>fetchFromAgent\<close> reads it, and what the source
  makes of it: the requested pods, microseconds turned into durations, the sample count kept.
\<close>

definition agent_answer :: "'w EBPFSource \<Rightarrow> string \<Rightarrow> 'w \<Rightarrow> go_error + AgentResponse" where
  "agent_answer src ep w = (case newRequest (ebpfClient src) (agent_url ep) of
     Some err \<Rightarrow> Inl (Wrap ''creating request'' err)
   | None \<Rightarrow> read_response ep (fst (httpDo (ebpfClient src) (agent_url ep) w)))"

definition relevant :: "string list \<Rightarrow> string \<Rightarrow> bool" where
  "relevant podIPs ip \<longleftrightarrow> podIPs = [] \<or> ip \<in> set podIPs"

definition reported :: "Stats \<Rightarrow> duration \<times> duration \<times> int64" where
  "reported st = (P50 st, P99 st, SampleCount st)"

definition converted :: "AgentPodStats \<Rightarrow> duration \<times> duration \<times> int64" where
  "converted a = (agentP50Us a * microsecond, agentP99Us a * microsecond, agentSampleCount a)"

definition matches :: "string list \<Rightarrow> go_error + AgentResponse \<Rightarrow> go_error + latencies \<Rightarrow> bool" where
  "matches podIPs ans res = (case ans of
     Inl e \<Rightarrow> res = Inl e
   | Inr r \<Rightarrow> (\<exists>m. res = Inr m \<and> wf_map m \<and> (\<forall>ip. map_option reported (map_of m ip) =
       (if relevant podIPs ip then map_option converted (map_of (agentPodLatencies r) ip) else None))))"

text \<open>The names agents use, in upper case.\<close>

lemma field_names [go_eval]:
  "fold_name ''p50Us'' = ''P50US''" "fold_name ''P50Us'' = ''P50US''"
  "fold_name ''p99Us'' = ''P99US''" "fold_name ''P99Us'' = ''P99US''"
  "fold_name ''sampleCount'' = ''SAMPLECOUNT''" "fold_name ''SampleCount'' = ''SAMPLECOUNT''"
  "fold_name ''LastUpdated'' = ''LASTUPDATED''"
  by code_simp+

lemma unmarshal_wf:
  assumes "unmarshal_AgentResponse body = Inr r"
  shows "wf_map (agentPodLatencies r)"
proof -
  obtain j where "decode_struct AgentResponse_fields j zero_AgentResponse = Inr r"
    using assms by (auto simp: unmarshal_AgentResponse_def split: option.splits)
  moreover have "keeps (\<lambda>r. wf_map (agentPodLatencies r)) AgentResponse_fields"
    using decode_map_wf by (fastforce simp: keeps_def AgentResponse_fields_def map_sum_Inr)
  ultimately show ?thesis
    using decode_struct_keeps [where P = "\<lambda>r. wf_map (agentPodLatencies r)"]
    by (fastforce simp: zero_AgentResponse_def)
qed

lemma read_response_wf: "read_response ep r = Inr a \<Longrightarrow> wf_map (agentPodLatencies a)"
  by (auto simp: read_response_def split: sum.splits if_splits dest: unmarshal_wf)

lemma agent_answer_wf: "agent_answer src ep w = Inr a \<Longrightarrow> wf_map (agentPodLatencies a)"
  by (auto simp: agent_answer_def split: option.splits dest: read_response_wf)

text \<open>The converting loop, started on any map.\<close>

lemma convert_loop:
  "run_state (for_each es (convert_one podIPs) m) s = (m', s') \<Longrightarrow> wf_map es \<Longrightarrow> wf_map m \<Longrightarrow>
     wf_map m' \<and> advances s s' \<and> (\<forall>ip. map_option reported (map_of m' ip) =
       (if relevant podIPs ip \<and> map_of es ip \<noteq> None then map_option converted (map_of es ip)
        else map_option reported (map_of m ip)))"
proof (induction es arbitrary: m s)
  case (Cons e es)
  obtain jp a where e: "e = (jp, a)" by fastforce
  show ?case
  proof (cases "relevant podIPs jp")
    case False
    then have "run_state (convert_one podIPs e m) s = (m, s)"
      by (auto simp: convert_one_def e relevant_def)
    with Cons.prems(1) have "run_state (for_each es (convert_one podIPs) m) s = (m', s')" by simp
    from Cons.IH [OF this] Cons.prems(2,3) False e show ?thesis by auto
  next
    case True
    let ?st = "\<lparr>P50 = agentP50Us a * microsecond, P99 = agentP99Us a * microsecond,
        SampleCount = agentSampleCount a, LastUpdated = clock s 0\<rparr>"
    let ?m1 = "AList.update jp ?st m"
    from True have "run_state (convert_one podIPs e m) s = (?m1, tick s)"
      by (auto simp: convert_one_def e relevant_def)
    with Cons.prems(1) have "run_state (for_each es (convert_one podIPs) ?m1) (tick s) = (m', s')" by simp
    from Cons.IH [OF this] Cons.prems(2,3) e
    have ok: "wf_map m' \<and> advances (tick s) s' \<and> (\<forall>ip. map_option reported (map_of m' ip) =
       (if relevant podIPs ip \<and> map_of es ip \<noteq> None then map_option converted (map_of es ip)
        else map_option reported (map_of ?m1 ip)))" by simp
    have "map_of es jp = None" using Cons.prems(2) e by (simp add: map_of_eq_None_iff)
    moreover have "reported ?st = converted a" by (simp add: reported_def converted_def)
    moreover have "advances s s'" using ok advances_trans [OF advances_tick] by blast
    ultimately show ?thesis using ok True e by (simp add: map_of_update) auto
  qed
qed simp

lemma convert_response_matches:
  assumes "run_state (convert_response podIPs a) s = (res, s')"
    and "\<And>r. a = Inr r \<Longrightarrow> wf_map (agentPodLatencies r)"
  shows "matches podIPs a res \<and> advances s s'"
proof (cases a)
  case (Inl e)
  with assms(1) show ?thesis by (simp add: convert_response_def matches_def)
next
  case (Inr r)
  let ?es = "permute (choice s 0) (agentPodLatencies r)" and ?s1 = "s\<lparr>choice := (\<lambda>n. choice s (Suc n))\<rparr>"
  obtain m where loop: "run_state (for_each ?es (convert_one podIPs) []) ?s1 = (m, s')" and res: "res = Inr m"
    using assms(1) Inr by (auto simp: convert_response_def split: prod.splits)
  have wf: "wf_map (agentPodLatencies r)" by (rule assms(2) [OF Inr])
  then have es: "wf_map ?es" "map_of ?es = map_of (agentPodLatencies r)" by simp_all
  have adv: "advances s ?s1" by (rule advances_refl) simp
  from convert_loop [OF loop es(1)] res Inr es(2) advances_trans [OF adv] show ?thesis
    by (auto simp: matches_def)
qed

subsection \<open>The goroutines\<close>

definition fetched_ok :: "'w EBPFSource \<Rightarrow> string list \<Rightarrow> string \<times> (go_error + latencies) \<Rightarrow> bool" where
  "fetched_ok src podIPs r \<longleftrightarrow> (\<exists>w. matches podIPs (agent_answer src (fst r) w) (snd r))"

definition fetcher_ok :: "'w EBPFSource \<Rightarrow> string list \<Rightarrow> fetcher \<Rightarrow> bool" where
  "fetcher_ok src podIPs g = (case fetchPhase g of
     Asking \<Rightarrow> True
   | Answered r \<Rightarrow> (\<exists>w. agent_answer src (fetchEndpoint g) w = read_response (fetchEndpoint g) r)
   | Fetched stats \<Rightarrow> fetched_ok src podIPs (fetchEndpoint g, stats)
   | Sent \<Rightarrow> True)"

definition fetch_need :: "fetcher \<Rightarrow> nat" where
  "fetch_need g = (case fetchPhase g of Asking \<Rightarrow> 3 | Answered r \<Rightarrow> 2 | Fetched stats \<Rightarrow> 1 | Sent \<Rightarrow> 0)"

lemma fetch_turn_ok:
  assumes "fetcher_ok src podIPs g" and "run_state (fetch_turn src podIPs g) s = ((g', out), s')"
  shows "advances s s' \<and> fetcher_ok src podIPs g' \<and> fetch_need g' \<le> fetch_need g - 1
    \<and> map fst out = (if fetch_need g \<noteq> 0 \<and> fetch_need g' = 0 then [fetchEndpoint g] else [])
    \<and> (\<forall>r \<in> set out. fetched_ok src podIPs r)"
proof (cases "fetchPhase g")
  case Asking
  let ?url = "agent_url (fetchEndpoint g)"
  show ?thesis
  proof (cases "newRequest (ebpfClient src) ?url")
    case None
    then have "agent_answer src (fetchEndpoint g) (outside s)
        = read_response (fetchEndpoint g) (fst (httpDo (ebpfClient src) ?url (outside s)))"
      by (simp add: agent_answer_def)
    with None Asking assms(2) show ?thesis
      by (auto simp: fetch_turn_def Let_def fetcher_ok_def fetch_need_def)
  next
    case (Some err)
    then have "fetched_ok src podIPs (fetchEndpoint g, Inl (Wrap ''creating request'' err))"
      by (simp add: fetched_ok_def agent_answer_def matches_def)
    with Some Asking assms(2) show ?thesis
      by (auto simp: fetch_turn_def Let_def fetcher_ok_def fetch_need_def)
  qed
next
  case (Answered r)
  obtain stats where conv: "run_state (convert_response podIPs (read_response (fetchEndpoint g) r)) s = (stats, s')"
    and g': "g' = g\<lparr>fetchPhase := Fetched stats\<rparr>" "out = []"
    using Answered assms(2) by (auto simp: fetch_turn_def Let_def split: prod.splits)
  have "matches podIPs (read_response (fetchEndpoint g) r) stats \<and> advances s s'"
    by (rule convert_response_matches [OF conv]) (rule read_response_wf)
  moreover obtain w where "agent_answer src (fetchEndpoint g) w = read_response (fetchEndpoint g) r"
    using Answered assms(1) by (auto simp: fetcher_ok_def)
  ultimately have "fetched_ok src podIPs (fetchEndpoint g, stats)" "advances s s'"
    by (auto simp: fetched_ok_def) metis
  then show ?thesis using Answered g' by (auto simp: fetcher_ok_def fetch_need_def)
next
  case (Fetched stats)
  with assms show ?thesis by (auto simp: fetch_turn_def Let_def fetcher_ok_def fetch_need_def)
next
  case Sent
  with assms show ?thesis by (auto simp: fetch_turn_def Let_def fetcher_ok_def fetch_need_def)
qed

lemma fetch_turn_task:
  "run_state (fetch_turn src podIPs g) s = ((g', out), s') \<Longrightarrow> fetchEndpoint g' = fetchEndpoint g"
  by (auto simp: fetch_turn_def Let_def split: fetch_phase.splits option.splits prod.splits)

interpretation fetching: goroutine "fetch_turn src podIPs" fetchEndpoint fst fetch_need
    "\<lambda>s0 s. fetcher_ok src podIPs" "\<lambda>s0 s. fetched_ok src podIPs"
proof
  fix g g' out and s0 s s' :: "'a world"
  assume turn: "run_state (fetch_turn src podIPs g) s = ((g', out), s')"
  show "fetchEndpoint g' = fetchEndpoint g" by (rule fetch_turn_task [OF turn])
  assume "fetcher_ok src podIPs g"
  note ok = fetch_turn_ok [OF this turn]
  show "advances s s'" "fetcher_ok src podIPs g'" "fetch_need g' \<le> fetch_need g - 1"
    "map fst out = (if fetch_need g \<noteq> 0 \<and> fetch_need g' = 0 then [fetchEndpoint g] else [])"
    using ok by simp_all
  show "r \<in> set out \<Longrightarrow> fetched_ok src podIPs r" for r using ok by simp
qed

subsection \<open>Aggregation\<close>

text \<open>
  \<open>best E m\<close>: for each pod the map \<open>m\<close> holds one of its entries in \<open>E\<close>, one with the largest sample
  count, and nothing where \<open>E\<close> has no entry.
\<close>

definition best :: "(string \<times> Stats) set \<Rightarrow> latencies \<Rightarrow> bool" where
  "best E m \<longleftrightarrow> wf_map m \<and> (\<forall>ip. map_of m ip = None \<longrightarrow> (\<forall>st. (ip, st) \<notin> E))
     \<and> (\<forall>ip st. map_of m ip = Some st \<longrightarrow> (ip, st) \<in> E
          \<and> (\<forall>st'. (ip, st') \<in> E \<longrightarrow> SampleCount st' \<le> SampleCount st))"

lemma best_empty: "best {} []"
  by (simp add: best_def)

lemma best_merge: "best E m \<Longrightarrow> best (insert e E) (merge_one e m)"
proof -
  assume best: "best E m"
  obtain ip st where e: "e = (ip, st)" by fastforce
  show ?thesis
  proof (cases "map_of m ip")
    case None
    then have "merge_one e m = AList.update ip st m" by (simp add: merge_one_def e)
    with None best show ?thesis by (auto simp: best_def map_of_update e)
  next
    case (Some old)
    show ?thesis
    proof (cases "SampleCount st > SampleCount old")
      case True
      with Some have "merge_one e m = AList.update ip st m" by (simp add: merge_one_def e)
      moreover have "SampleCount st' \<le> SampleCount st" if "(ip, st') \<in> E" for st'
      proof -
        have "SampleCount st' \<le> SampleCount old" using best Some that by (auto simp: best_def)
        with True show ?thesis by simp
      qed
      ultimately show ?thesis using best by (auto simp: best_def map_of_update e split: if_splits)
    next
      case False
      with Some have "merge_one e m = m" by (simp add: merge_one_def e)
      with False Some best show ?thesis
        by (auto simp: best_def e not_less simp del: map_of_eq_Some_iff)
    qed
  qed
qed

lemma best_fold: "best E m \<Longrightarrow> best (E \<union> set es) (fold merge_one es m)"
proof (induction es arbitrary: E m)
  case (Cons e es)
  from Cons.IH [OF best_merge [OF Cons.prems, of e]] show ?case by simp
qed simp

text \<open>The entries a list of results contributes, and the receiving loop.\<close>

definition contributed :: "(string \<times> (go_error + latencies)) list \<Rightarrow> (string \<times> Stats) set" where
  "contributed rs = {e. \<exists>ep m. (ep, Inr m) \<in> set rs \<and> e \<in> set m}"

definition failures :: "(string \<times> (go_error + latencies)) list \<Rightarrow> go_error set" where
  "failures rs = {err. \<exists>ep. (ep, Inl err) \<in> set rs}"

lemma contributed_simps:
  "contributed [] = {}" "contributed ((ep, Inl e) # rs) = contributed rs"
  "contributed ((ep, Inr m) # rs) = set m \<union> contributed rs"
  by (auto simp: contributed_def)

lemma failures_simps:
  "failures [] = {}" "failures ((ep, Inl e) # rs) = insert e (failures rs)"
  "failures ((ep, Inr m) # rs) = failures rs"
  by (auto simp: failures_def)

lemma receive_loop:
  "run_state (for_each rs receive_one (agg, le)) s = ((agg', le'), s') \<Longrightarrow> best E agg \<Longrightarrow>
     best (E \<union> contributed rs) agg' \<and> advances s s'
     \<and> (le' = None \<longleftrightarrow> le = None \<and> failures rs = {}) \<and> (\<forall>e. le' = Some e \<longrightarrow> le = Some e \<or> e \<in> failures rs)"
proof (induction rs arbitrary: agg le s E)
  case (Cons r rs)
  obtain ep res where r: "r = (ep, res)" by fastforce
  show ?case
  proof (cases res)
    case (Inl e)
    then have "run_state (receive_one r (agg, le)) s = ((agg, Some e), s)" by (simp add: receive_one_def r)
    with Cons.prems(1) have "run_state (for_each rs receive_one (agg, Some e)) s = ((agg', le'), s')" by simp
    from Cons.IH [OF this Cons.prems(2)] show ?thesis
      by (auto simp: r Inl contributed_simps failures_simps)
  next
    case (Inr m)
    let ?s1 = "s\<lparr>choice := (\<lambda>n. choice s (Suc n))\<rparr>" and ?agg1 = "fold merge_one (permute (choice s 0) m) agg"
    from Inr have "run_state (receive_one r (agg, le)) s = ((?agg1, le), ?s1)" by (simp add: receive_one_def r)
    with Cons.prems(1) have rest: "run_state (for_each rs receive_one (?agg1, le)) ?s1 = ((agg', le'), s')" by simp
    have "best (E \<union> set m) ?agg1" using best_fold [OF Cons.prems(2)] by (metis set_permute)
    note IH = Cons.IH [OF rest this]
    have "advances s ?s1" by (rule advances_refl) simp
    from advances_trans [OF this] IH show ?thesis
      by (simp add: r Inr contributed_simps failures_simps Un_assoc)
  qed
qed (auto simp: contributed_simps failures_simps)

text \<open>One poll of all agents.\<close>

lemma poll:
  assumes "run_state (EBPFSource_GetLatencies src podIPs) s = (res, s')" and "agentEndpoints src \<noteq> []"
  obtains rs agg where "mset (map fst rs) = mset (agentEndpoints src)" and "\<forall>r \<in> set rs. fetched_ok src podIPs r"
    and "best (contributed rs) agg" and "advances s s'"
    and "if agg = [] \<and> failures rs \<noteq> {}
      then \<exists>e \<in> failures rs. res = Some (Inl (Wrap ''all agent fetches failed, last error'' e))
      else res = Some (Inr agg)"
proof -
  let ?gs = "map start_fetcher (agentEndpoints src)"
  obtain rs s1 where pool: "run_state (run_pool (fetch_turn src podIPs) fetch_turns ?gs) s = (rs, s1)" by fastforce
  obtain agg le where recv: "run_state (for_each rs receive_one ([], None)) s1 = ((agg, le), s')"
    and res: "res = (case (agg, le) of ([], Some err) \<Rightarrow> Some (Inl (Wrap ''all agent fetches failed, last error'' err))
       | _ \<Rightarrow> Some (Inr agg))"
    using assms pool
    by (auto simp: EBPFSource_GetLatencies_def split: prod.splits list.splits option.splits)
  have start: "fetcher_ok src podIPs g \<and> 0 < fetch_need g \<and> fetch_need g \<le> fetch_turns" if "g \<in> set ?gs" for g
    using that by (auto simp: fetcher_ok_def fetch_need_def start_fetcher_def fetch_turns_def)
  from fetching.run_pool_ok [OF pool start]
  have rs: "mset (map fst rs) = mset (agentEndpoints src)" "\<forall>r \<in> set rs. fetched_ok src podIPs r" "advances s s1"
    by (simp_all add: start_fetcher_def o_def)
  from receive_loop [OF recv best_empty] have agg: "best (contributed rs) agg" "advances s1 s'"
    "le = None \<longleftrightarrow> failures rs = {}" "\<And>e. le = Some e \<Longrightarrow> e \<in> failures rs" by auto
  have "if agg = [] \<and> failures rs \<noteq> {}
      then \<exists>e \<in> failures rs. res = Some (Inl (Wrap ''all agent fetches failed, last error'' e))
      else res = Some (Inr agg)"
    using res agg(3,4) by (cases agg; cases le) auto
  with rs agg(1) advances_trans [OF rs(3) agg(2)] show thesis by (rule_tac that)
qed

text \<open>Answers behind results, and what the requested pods have in them.\<close>

definition behind ::
  "string list \<Rightarrow> (string \<times> (go_error + AgentResponse)) list \<Rightarrow> (string \<times> (go_error + latencies)) list \<Rightarrow> bool" where
  "behind podIPs answers rs \<longleftrightarrow> list_all2 (\<lambda>a r. fst a = fst r \<and> matches podIPs (snd a) (snd r)) answers rs"

definition found ::
  "string list \<Rightarrow> (string \<times> (go_error + AgentResponse)) list \<Rightarrow> (string \<times> AgentPodStats) set" where
  "found podIPs answers = {(ip, a). relevant podIPs ip
     \<and> (\<exists>ep r. (ep, Inr r) \<in> set answers \<and> map_of (agentPodLatencies r) ip = Some a)}"

lemma behind_results:
  assumes "\<forall>r \<in> set rs. fetched_ok src podIPs r"
  obtains answers where "behind podIPs answers rs" and "\<forall>(ep, a) \<in> set answers. \<exists>w. a = agent_answer src ep w"
proof -
  obtain f where f: "\<forall>r \<in> set rs. matches podIPs (agent_answer src (fst r) (f r)) (snd r)"
    using assms unfolding fetched_ok_def by metis
  let ?as = "map (\<lambda>r. (fst r, agent_answer src (fst r) (f r))) rs"
  have "behind podIPs ?as rs" using f by (simp add: behind_def list_all2_conv_all_nth)
  then show thesis by (rule that) auto
qed

lemma behind_contributed:
  assumes "behind podIPs answers rs"
  shows "e \<in> contributed rs \<Longrightarrow> \<exists>a. (fst e, a) \<in> found podIPs answers \<and> reported (snd e) = converted a"
    and "(ip, a) \<in> found podIPs answers \<Longrightarrow> \<exists>st. (ip, st) \<in> contributed rs \<and> reported st = converted a"
    and "failures rs = {err. \<exists>ep. (ep, Inl err) \<in> set answers}"
proof -
  have pair: "\<exists>r. (ep, r) \<in> set rs \<and> matches podIPs a r" if "(ep, a) \<in> set answers" for ep a
    using assms that unfolding behind_def by (force simp: list_all2_conv_all_nth in_set_conv_nth)
  have unpair: "\<exists>a. (ep, a) \<in> set answers \<and> matches podIPs a r" if "(ep, r) \<in> set rs" for ep r
    using assms that unfolding behind_def
    by (force simp: list_all2_conv_all_nth in_set_conv_nth)
  show "\<exists>a. (fst e, a) \<in> found podIPs answers \<and> reported (snd e) = converted a" if e: "e \<in> contributed rs"
  proof -
    obtain ip st where ip: "e = (ip, st)" by fastforce
    from e obtain ep m where m: "(ep, Inr m) \<in> set rs" "(ip, st) \<in> set m" by (auto simp: contributed_def ip)
    from unpair [OF m(1)] obtain a where a: "(ep, a) \<in> set answers" "matches podIPs a (Inr m)" by blast
    then obtain r where r: "a = Inr r" "wf_map m" "\<forall>ip. map_option reported (map_of m ip) =
        (if relevant podIPs ip then map_option converted (map_of (agentPodLatencies r) ip) else None)"
      by (auto simp: matches_def split: sum.splits)
    have "map_of m ip = Some st" using m(2) r(2) by simp
    with r(3) [rule_format, of ip] obtain ag where "relevant podIPs ip" "map_of (agentPodLatencies r) ip = Some ag"
      "reported st = converted ag" by (cases "map_of (agentPodLatencies r) ip") (auto split: if_splits)
    with a(1) r(1) show ?thesis by (auto simp: found_def ip)
  qed
  show "\<exists>st. (ip, st) \<in> contributed rs \<and> reported st = converted a" if "(ip, a) \<in> found podIPs answers"
  proof -
    from that obtain ep r where r: "relevant podIPs ip" "(ep, Inr r) \<in> set answers"
      "map_of (agentPodLatencies r) ip = Some a" by (auto simp: found_def)
    from pair [OF r(2)] obtain m where m: "(ep, Inr m) \<in> set rs" "wf_map m" "\<forall>ip. map_option reported (map_of m ip) =
        (if relevant podIPs ip then map_option converted (map_of (agentPodLatencies r) ip) else None)"
      by (auto simp: matches_def)
    from m(3) [rule_format, of ip] r(1,3) obtain st where "map_of m ip = Some st" "reported st = converted a"
      by auto
    with m(1) show ?thesis by (auto simp: contributed_def dest: map_of_SomeD)
  qed
  show "failures rs = {err. \<exists>ep. (ep, Inl err) \<in> set answers}"
    using pair unpair unfolding failures_def matches_def by (fastforce split: sum.splits)
qed

interpretation ebpf: latency_source "EBPFSource_GetLatencies src"
proof
  fix ips :: "string list" and s :: "'a world"
  show "fst (run_state (EBPFSource_GetLatencies src ips) s) \<noteq> None"
  proof (cases "agentEndpoints src = []")
    case False
    obtain res s' where run: "run_state (EBPFSource_GetLatencies src ips) s = (res, s')" by fastforce
    from poll [OF run False] have "res \<noteq> None" by (metis option.distinct(1))
    with run show ?thesis by simp
  qed (simp add: EBPFSource_GetLatencies_def)
next
  fix ips m and s s' :: "'a world"
  assume run: "run_state (EBPFSource_GetLatencies src ips) s = (Some (Inr m), s')"
  then have ne: "agentEndpoints src \<noteq> []" by (auto simp: EBPFSource_GetLatencies_def)
  obtain rs where rs: "\<forall>r \<in> set rs. fetched_ok src ips r" "best (contributed rs) m"
    by (rule poll [OF run ne]) (auto split: if_splits)
  then show "wf_map m" by (simp add: best_def)
  assume ips: "ips \<noteq> []"
  obtain answers where "behind ips answers rs" by (rule behind_results [OF rs(1)])
  note origin = behind_contributed(1) [OF this]
  show "fst ` set m \<subseteq> set ips"
  proof
    fix ip assume "ip \<in> fst ` set m"
    then obtain st where "map_of m ip = Some st" using rs(2) by (auto simp: best_def)
    then have "(ip, st) \<in> contributed rs" using rs(2) by (auto simp: best_def simp del: map_of_eq_Some_iff)
    from origin [OF this] ips show "ip \<in> set ips" by (auto simp: found_def relevant_def)
  qed
next
  fix ips r and s s' :: "'a world"
  assume run: "run_state (EBPFSource_GetLatencies src ips) s = (r, s')"
  show "advances s s'"
  proof (cases "agentEndpoints src = []")
    case True
    with run show ?thesis by (simp add: EBPFSource_GetLatencies_def)
  next
    case False
    then show ?thesis by (rule poll [OF run])
  qed
qed

subsection \<open>What a poll of the agents reports\<close>

text \<open>
  The specification of a poll, in terms of the answers of the agents: a pod is reported if and only
  if it was asked for and some agent knows it, with the figures of an answer with the most samples
  among all agents; the poll fails only if no agent knew a requested pod and some agent failed, with
  the error of a failed agent.
\<close>

definition poll_spec ::
  "string list \<Rightarrow> (string \<times> (go_error + AgentResponse)) list \<Rightarrow> (go_error + latencies) option \<Rightarrow> bool" where
  "poll_spec podIPs answers res \<longleftrightarrow>
    (if found podIPs answers = {} \<and> (\<exists>ep err. (ep, Inl err) \<in> set answers)
     then \<exists>ep err. (ep, Inl err) \<in> set answers
            \<and> res = Some (Inl (Wrap ''all agent fetches failed, last error'' err))
     else \<exists>m. res = Some (Inr m)
            \<and> (\<forall>ip. (map_of m ip = None) = (\<forall>a. (ip, a) \<notin> found podIPs answers))
            \<and> (\<forall>ip st. map_of m ip = Some st \<longrightarrow> (\<exists>a. (ip, a) \<in> found podIPs answers
                  \<and> reported st = converted a
                  \<and> (\<forall>a'. (ip, a') \<in> found podIPs answers \<longrightarrow> agentSampleCount a' \<le> agentSampleCount a))))"

text \<open>
  (C20) A poll of the agents refines its specification: each agent answers once, at some moment and in
  some order, and for every requested pod the result carries the figures with the most samples of
  all answers; the failure of some agents does not hide the answers of the others.
\<close>

theorem agents_aggregated:
  assumes "run_state (EBPFSource_GetLatencies src podIPs) s = (res, s')" and "agentEndpoints src \<noteq> []"
  shows "\<exists>answers. mset (map fst answers) = mset (agentEndpoints src)
    \<and> (\<forall>(ep, a) \<in> set answers. \<exists>w. a = agent_answer src ep w) \<and> poll_spec podIPs answers res"
proof -
  obtain rs agg where rs: "mset (map fst rs) = mset (agentEndpoints src)" "\<forall>r \<in> set rs. fetched_ok src podIPs r"
    "best (contributed rs) agg"
    and res: "if agg = [] \<and> failures rs \<noteq> {}
      then \<exists>e \<in> failures rs. res = Some (Inl (Wrap ''all agent fetches failed, last error'' e))
      else res = Some (Inr agg)"
    by (rule poll [OF assms]) blast
  obtain answers where behind: "behind podIPs answers rs"
    and real: "\<forall>(ep, a) \<in> set answers. \<exists>w. a = agent_answer src ep w"
    by (rule behind_results [OF rs(2)])
  note link = behind_contributed [OF behind]
  have "map fst answers = map fst rs"
    using behind by (auto simp: behind_def list_all2_conv_all_nth intro: nth_equalityI)
  moreover have none: "(map_of agg ip = None) = (\<forall>a. (ip, a) \<notin> found podIPs answers)" for ip
  proof
    assume "map_of agg ip = None"
    then have "\<forall>st. (ip, st) \<notin> contributed rs" using rs(3) by (auto simp: best_def)
    then show "\<forall>a. (ip, a) \<notin> found podIPs answers" using link(2) by blast
  next
    assume no: "\<forall>a. (ip, a) \<notin> found podIPs answers"
    show "map_of agg ip = None"
    proof (cases "map_of agg ip")
      case (Some st)
      with rs(3) have "(ip, st) \<in> contributed rs" by (auto simp: best_def simp del: map_of_eq_Some_iff)
      from link(1) [OF this] no show ?thesis by simp
    qed
  qed
  moreover have "\<exists>a. (ip, a) \<in> found podIPs answers \<and> reported st = converted a
      \<and> (\<forall>a'. (ip, a') \<in> found podIPs answers \<longrightarrow> agentSampleCount a' \<le> agentSampleCount a)"
    if "map_of agg ip = Some st" for ip st
  proof -
    have st: "(ip, st) \<in> contributed rs" "\<And>st'. (ip, st') \<in> contributed rs \<Longrightarrow> SampleCount st' \<le> SampleCount st"
      using rs(3) that by (auto simp: best_def simp del: map_of_eq_Some_iff)
    from link(1) [OF st(1)] obtain a where a: "(ip, a) \<in> found podIPs answers" "reported st = converted a" by auto
    have "agentSampleCount a' \<le> agentSampleCount a" if "(ip, a') \<in> found podIPs answers" for a'
    proof -
      from link(2) [OF that] obtain st' where "(ip, st') \<in> contributed rs" "reported st' = converted a'" by blast
      with st(2) [of st'] a(2) show ?thesis by (simp add: reported_def converted_def)
    qed
    with a show ?thesis by blast
  qed
  moreover have "agg = [] \<longleftrightarrow> found podIPs answers = {}"
  proof
    assume "agg = []"
    then show "found podIPs answers = {}" using none by auto
  next
    assume "found podIPs answers = {}"
    then have "map_of agg (fst (hd agg)) = None" using none by simp
    then show "agg = []" by (cases agg) auto
  qed
  moreover have "failures rs \<noteq> {} \<longleftrightarrow> (\<exists>ep err. (ep, Inl err) \<in> set answers)" using link(3) by auto
  ultimately have "poll_spec podIPs answers res"
    using res link(3) unfolding poll_spec_def by (cases "found podIPs answers = {} \<and> failures rs \<noteq> {}") auto
  moreover have "mset (map fst answers) = mset (agentEndpoints src)"
    using rs(1) \<open>map fst answers = map fst rs\<close> by simp
  ultimately show ?thesis using real by blast
qed

text \<open>Two agents that know the same pod, and one that is down, for the example.\<close>

definition stats_json :: "int \<Rightarrow> int \<Rightarrow> int \<Rightarrow> json" where
  "stats_json p50 p99 n = JObj [(''P50Us'', JInt p50), (''P99Us'', JInt p99), (''SampleCount'', JInt n)]"

definition agents_client :: "unit http_client" where
  "agents_client = \<lparr>newRequest = (\<lambda>url. None),
     httpDo = (\<lambda>url w. (if url = ''http://a:9100/latencies''
       then Inr \<lparr>statusCode = 200, respBody = Inr (Some (JObj [(''podLatencies'',
              JObj [(''10.0.0.1'', stats_json 10 20 5)])]))\<rparr>
       else if url = ''http://b:9100/latencies''
       then Inr \<lparr>statusCode = 200, respBody = Inr (Some (JObj [(''podLatencies'',
              JObj [(''10.0.0.1'', stats_json 30 40 7)])]))\<rparr>
       else Inl (Errorf ''connection refused''), w))\<rparr>"

lemma agents_client_answers:
  "src = UpdateAgentEndpoints eps (NewEBPFSource agents_client) \<Longrightarrow>
     agent_answer src ''a:9100'' w = Inr \<lparr>agentPodLatencies =
         [(''10.0.0.1'', \<lparr>agentP50Us = 10, agentP99Us = 20, agentSampleCount = 5\<rparr>)], agentNodeName = []\<rparr>
   \<and> agent_answer src ''b:9100'' w = Inr \<lparr>agentPodLatencies =
         [(''10.0.0.1'', \<lparr>agentP50Us = 30, agentP99Us = 40, agentSampleCount = 7\<rparr>)], agentNodeName = []\<rparr>
   \<and> agent_answer src ''c:9100'' w = Inl (Wrap ''fetching from agent c:9100'' (Errorf ''connection refused''))"
  by (simp add: agent_answer_def read_response_def UpdateAgentEndpoints_def NewEBPFSource_def agents_client_def
      agent_url_def unmarshal_AgentResponse_def decode_struct_def decode_map_def match_field_def
      AgentResponse_fields_def AgentPodStats_fields_def stats_json_def field_names
      zero_AgentResponse_def zero_AgentPodStats_def decode_int64_def)

theorem agents_aggregated_witness:
  "\<exists>m st s'. run_state (EBPFSource_GetLatencies (UpdateAgentEndpoints [''a:9100'', ''b:9100'', ''c:9100'']
       (NewEBPFSource agents_client)) [''10.0.0.1'']) counting_world = (Some (Inr m), s')
     \<and> map_of m ''10.0.0.1'' = Some st \<and> reported st = (30 * microsecond, 40 * microsecond, 7)"
proof -
  let ?src = "UpdateAgentEndpoints [''a:9100'', ''b:9100'', ''c:9100''] (NewEBPFSource agents_client)"
  let ?ag = "\<lparr>agentP50Us = 30, agentP99Us = 40, agentSampleCount = 7\<rparr>"
  obtain res s' where run: "run_state (EBPFSource_GetLatencies ?src [''10.0.0.1'']) counting_world = (res, s')"
    by fastforce
  have "agentEndpoints ?src \<noteq> []" by (simp add: UpdateAgentEndpoints_def)
  from agents_aggregated [OF run this] obtain answers where
    eps: "mset (map fst answers) = mset (agentEndpoints ?src)"
    and real: "\<forall>(ep, a) \<in> set answers. \<exists>w. a = agent_answer ?src ep w"
    and spec: "poll_spec [''10.0.0.1''] answers res" by blast
  have "set (map fst answers) = {''a:9100'', ''b:9100'', ''c:9100''}"
    using mset_eq_setD [OF eps] by (simp add: UpdateAgentEndpoints_def)
  note ans = agents_client_answers [OF refl, of "[''a:9100'', ''b:9100'', ''c:9100'']"]
  have in_b: "(''b:9100'', Inr \<lparr>agentPodLatencies = [(''10.0.0.1'', ?ag)], agentNodeName = []\<rparr>) \<in> set answers"
  proof -
    have "''b:9100'' \<in> fst ` set answers" using \<open>set (map fst answers) = _\<close> by simp
    then show ?thesis using real ans by force
  qed
  have ag: "(''10.0.0.1'', ?ag) \<in> found [''10.0.0.1''] answers"
    using in_b by (force simp: found_def relevant_def)
  have all: "a \<in> {\<lparr>agentP50Us = 10, agentP99Us = 20, agentSampleCount = 5\<rparr>, ?ag}"
    if "(''10.0.0.1'', a) \<in> found [''10.0.0.1''] answers" for a
  proof -
    from that obtain ep r where r: "(ep, Inr r) \<in> set answers" "map_of (agentPodLatencies r) ''10.0.0.1'' = Some a"
      by (auto simp: found_def)
    then have "ep \<in> {''a:9100'', ''b:9100'', ''c:9100''}" using \<open>set (map fst answers) = _\<close> by force
    then show ?thesis using r real ans by fastforce
  qed
  from spec ag obtain m where m: "res = Some (Inr m)" "map_of m ''10.0.0.1'' \<noteq> None"
    "\<And>st. map_of m ''10.0.0.1'' = Some st \<Longrightarrow> \<exists>a. (''10.0.0.1'', a) \<in> found [''10.0.0.1''] answers
       \<and> reported st = converted a
       \<and> (\<forall>a'. (''10.0.0.1'', a') \<in> found [''10.0.0.1''] answers \<longrightarrow> agentSampleCount a' \<le> agentSampleCount a)"
    unfolding poll_spec_def by (metis empty_iff)
  then obtain st where st: "map_of m ''10.0.0.1'' = Some st" by blast
  from m(3) [OF this] ag obtain a where a: "(''10.0.0.1'', a) \<in> found [''10.0.0.1''] answers"
    "reported st = converted a" "agentSampleCount ?ag \<le> agentSampleCount a" by blast
  then have "a = ?ag" using all [OF a(1)] by (auto simp: less_eq_go_int_def go_eval)
  then show ?thesis using run m(1) st a(2) by (simp add: converted_def)
qed

end
