(* ===== verification/Latency_Event.thy ===== *)
theory Latency_Event
  imports Go_Prelude
begin

section \<open>Latency events between kernel and agent\<close>

text \<open>
  The event the kernel probe puts into the ring buffer (\<open>struct latency_event\<close> of
  \<open>internal/ebpf/bpf/tcp_latency.c\<close>) and its reading in the agent (\<open>LatencyEvent\<close>,
  \<open>ParseLatencyEvent\<close> and \<open>uint32ToIP\<close> of \<open>internal/ebpf/collector.go\<close>).
\<close>

subsection \<open>Little-endian bytes\<close>

fun le_nat :: "8 word list \<Rightarrow> nat" where
  "le_nat [] = 0"
| "le_nat (b # bs) = unat b + 256 * le_nat bs"

fun le_bytes :: "nat \<Rightarrow> nat \<Rightarrow> 8 word list" where
  "le_bytes 0 k = []"
| "le_bytes (Suc n) k = of_nat k # le_bytes n (k div 256)"

lemma length_le_bytes [simp]: "length (le_bytes n k) = n"
  by (induction n arbitrary: k) simp_all

lemma unat_byte: "unat (of_nat k :: 8 word) = k mod 256"
  by (simp add: unat_of_nat)

lemma le_nat_bytes: "le_nat (le_bytes n k) = k mod 256 ^ n"
proof (induction n arbitrary: k)
  case (Suc n)
  have "k mod 256 ^ Suc n = k mod 256 + 256 * (k div 256 mod 256 ^ n)"
    by (simp add: mod_mult2_eq)
  with Suc show ?case by (simp add: unat_byte)
qed simp

lemma le_bytes_nat: "le_bytes (length bs) (le_nat bs) = bs"
proof (induction bs)
  case (Cons b bs)
  have "unat b < 256" using unsigned_less [of b, where ?'a = nat] by simp
  then have "(unat b + 256 * le_nat bs) div 256 = le_nat bs" by simp
  moreover have "of_nat (unat b + 256 * le_nat bs) = b"
  proof -
    have zero: "(256 :: 8 word) = 0" by simp
    have "of_nat (unat b + 256 * le_nat bs) = of_nat (unat b) + (256 :: 8 word) * of_nat (le_nat bs)"
      by (simp only: of_nat_add of_nat_mult of_nat_numeral)
    also have "\<dots> = b" unfolding zero by simp
    finally show ?thesis .
  qed
  ultimately show ?case using Cons by simp
qed simp

lemma le_bytes_add: "le_bytes (m + n) k = le_bytes m k @ le_bytes n (k div 256 ^ m)"
  by (induction m arbitrary: k) (simp_all add: div_mult2_eq)

lemma le_nat_append: "le_nat (xs @ ys) = le_nat xs + 256 ^ length xs * le_nat ys"
  by (induction xs) (simp_all add: algebra_simps)

lemma le_nat_bound: "le_nat bs < 256 ^ length bs"
proof (induction bs)
  case (Cons b bs)
  have "unat b < 256" using unsigned_less [of b, where ?'a = nat] by simp
  with Cons show ?case by simp
qed simp

subsection \<open>The event in the agent\<close>

record LatencyEvent =
  SrcIP :: "32 word"
  DstIP :: "32 word"
  SrcPort :: "16 word"
  DstPort :: "16 word"
  RTTNs :: "64 word"
  TimestampNs :: "64 word"

text \<open>\<open>data[i:j]\<close>, in range here because the length is checked first.\<close>

definition bytes_at :: "8 word list \<Rightarrow> nat \<Rightarrow> nat \<Rightarrow> 8 word list" where
  "bytes_at data i j = take (j - i) (drop i data)"

definition ParseLatencyEvent :: "8 word list \<Rightarrow> go_error + LatencyEvent" where
  "ParseLatencyEvent data =
     (if length data < 28
      then Inl (Errorf (''data too short: '' @ show_nat (length data) @ '' bytes''))
      else Inr \<lparr>SrcIP = of_nat (le_nat (bytes_at data 0 4)),
        DstIP = of_nat (le_nat (bytes_at data 4 8)),
        SrcPort = of_nat (le_nat (bytes_at data 8 10)),
        DstPort = of_nat (le_nat (bytes_at data 10 12)),
        RTTNs = of_nat (le_nat (bytes_at data 12 20)),
        TimestampNs = of_nat (le_nat (bytes_at data 20 28))\<rparr>)"

text \<open>\<open>binary.LittleEndian.PutUint32\<close> and \<open>net.IP.String\<close> of four bytes.\<close>

definition uint32ToIP :: "32 word \<Rightarrow> string" where
  "uint32ToIP ip =
     concat (map (\<lambda>b. show_nat (unat b) @ ''.'') (butlast (le_bytes 4 (unat ip))))
       @ show_nat (unat (last (le_bytes 4 (unat ip))))"

subsection \<open>The event in the kernel\<close>

text \<open>
  The kernel's struct has the same six fields in the same order. C aligns the 64-bit fields at
  multiples of eight, so four bytes of padding separate \<open>dst_port\<close> (at 10) from \<open>rtt_ns\<close> (at 16), and
  \<open>sizeof\<close> is 32. The probe assigns the fields one by one into memory it has reserved; the padding
  keeps whatever the ring buffer held.
\<close>

definition kernel_bytes :: "8 word list \<Rightarrow> LatencyEvent \<Rightarrow> 8 word list" where
  "kernel_bytes padding e = le_bytes 4 (unat (SrcIP e)) @ le_bytes 4 (unat (DstIP e))
     @ le_bytes 2 (unat (SrcPort e)) @ le_bytes 2 (unat (DstPort e))
     @ padding @ le_bytes 8 (unat (RTTNs e)) @ le_bytes 8 (unat (TimestampNs e))"

text \<open>The layout the agent's reader expects is the one without padding.\<close>

abbreviation packed_bytes :: "LatencyEvent \<Rightarrow> 8 word list" where
  "packed_bytes \<equiv> kernel_bytes []"

lemma read_field:
  fixes w :: "'a::len word"
  assumes "2 ^ LENGTH('a) = (256 :: nat) ^ n"
  shows "of_nat (le_nat (le_bytes n (unat w))) = w"
  using unsigned_less [of w, where ?'a = nat] by (simp add: le_nat_bytes flip: assms)

text \<open>
  (C26) \<open>ParseLatencyEvent\<close> inverts the packed layout, whatever follows it; and it accepts exactly the
  buffers of at least 28 bytes, so it never indexes out of range.
\<close>

theorem parse_packed:
  "ParseLatencyEvent (packed_bytes e @ rest) = Inr e
   \<and> (isl (ParseLatencyEvent data) \<longleftrightarrow> length data < 28)"
proof -
  have "ParseLatencyEvent (packed_bytes e @ rest) = Inr e"
    by (simp add: ParseLatencyEvent_def kernel_bytes_def bytes_at_def read_field)
  then show ?thesis by (simp add: ParseLatencyEvent_def)
qed

text \<open>
  (C27) The events the kernel really sends are misread: with the four bytes of padding, addresses and
  ports come out right, but the low half of the RTT lands in the high half of the RTT the agent
  records, and the RTT is lost in its timestamp. An RTT of \<open>r\<close> nanoseconds, \<open>0 < r < 2 ^ 32\<close>, is recorded as
  at least \<open>r * 2 ^ 32\<close> nanoseconds.
\<close>

theorem kernel_events_misread:
  assumes "length padding = 4" and "0 < unat (RTTNs e)" and "unat (RTTNs e) < 2 ^ 32"
  shows "\<exists>e'. ParseLatencyEvent (kernel_bytes padding e) = Inr e'
    \<and> (SrcIP e', DstIP e', SrcPort e', DstPort e') = (SrcIP e, DstIP e, SrcPort e, DstPort e)
    \<and> unat (RTTNs e') = le_nat padding + 2 ^ 32 * unat (RTTNs e) \<and> RTTNs e' \<noteq> RTTNs e"
proof -
  let ?r = "unat (RTTNs e)"
  have split: "le_bytes 8 k = le_bytes 4 k @ le_bytes 4 (k div 2 ^ 32)" for k
    using le_bytes_add [of 4 4 k] by simp
  have pad: "le_nat padding < 2 ^ 32" using le_nat_bound [of padding] assms(1) by simp
  have "le_nat (padding @ le_bytes 4 ?r) = le_nat padding + 2 ^ 32 * ?r"
    using assms(1,3) by (simp add: le_nat_append le_nat_bytes)
  moreover have "le_nat padding + 2 ^ 32 * ?r < 2 ^ 64" using pad assms(3) by simp
  ultimately have rtt: "unat (of_nat (le_nat (padding @ le_bytes 4 ?r)) :: 64 word) = le_nat padding + 2 ^ 32 * ?r"
    using unat_of_nat [of "le_nat (padding @ le_bytes 4 ?r)", where ?'a = 64] by simp
  obtain t where parsed: "ParseLatencyEvent (kernel_bytes padding e) = Inr \<lparr>SrcIP = SrcIP e, DstIP = DstIP e,
      SrcPort = SrcPort e, DstPort = DstPort e,
      RTTNs = of_nat (le_nat (padding @ le_bytes 4 ?r)), TimestampNs = t\<rparr>"
    using assms(1) by (simp add: ParseLatencyEvent_def kernel_bytes_def bytes_at_def read_field split)
  have "of_nat (le_nat (padding @ le_bytes 4 ?r)) \<noteq> RTTNs e"
    using rtt assms(2) by auto
  with parsed rtt show ?thesis by simp
qed

definition sample_event :: LatencyEvent where
  "sample_event = \<lparr>SrcIP = 0x0100000A, DstIP = 0x0200000A, SrcPort = 40000, DstPort = 8080,
     RTTNs = 1000000, TimestampNs = 5\<rparr>"

theorem kernel_events_misread_witness:
  "\<exists>e'. ParseLatencyEvent (kernel_bytes [0, 0, 0, 0] sample_event) = Inr e'
     \<and> unat (RTTNs e') = 4294967296000000"
proof -
  have "length [0, 0, 0, 0 :: 8 word] = 4" "0 < unat (RTTNs sample_event)" "unat (RTTNs sample_event) < 2 ^ 32"
    by (simp_all add: sample_event_def)
  from kernel_events_misread [OF this] show ?thesis by (auto simp: sample_event_def)
qed

subsection \<open>Addresses\<close>

text \<open>Splitting at the first dot.\<close>

lemma dot_not_digit: "CHR ''.'' \<notin> set (show_nat n)"
proof
  assume "CHR ''.'' \<in> set (show_nat n)"
  then obtain d where "d < 10" "CHR ''.'' = digit_char d" using show_nat_digits by blast
  moreover have "of_char (CHR ''.'') < (48 :: nat)" by simp
  ultimately show False using digit_char_noteq by metis
qed

lemma split_dot: "show_nat a @ ''.'' @ x = show_nat b @ ''.'' @ y \<longleftrightarrow> a = b \<and> x = y"
proof -
  have "takeWhile (\<lambda>c. c \<noteq> CHR ''.'') (show_nat n @ ''.'' @ z) = show_nat n" for n z
    using dot_not_digit [of n] by (subst takeWhile_append2) auto
  then show ?thesis by (metis append_same_eq same_append_eq show_nat_inject append.assoc)
qed

lemma list_of_four: "length xs = 4 \<Longrightarrow> xs = [xs ! 0, xs ! 1, xs ! 2, xs ! 3]"
  by (auto simp: length_Suc_conv numeral_eq_Suc)

lemma uint32ToIP_inject: "uint32ToIP ip = uint32ToIP jp \<longleftrightarrow> ip = jp"
proof
  let ?b = "\<lambda>ip i. le_bytes 4 (unat ip) ! i"
  have four: "le_bytes 4 (unat ip) = [?b ip 0, ?b ip 1, ?b ip 2, ?b ip 3]" for ip :: "32 word"
    by (rule list_of_four) simp
  have dotted: "uint32ToIP ip = show_nat (unat (?b ip 0)) @ ''.'' @ show_nat (unat (?b ip 1)) @ ''.''
      @ show_nat (unat (?b ip 2)) @ ''.'' @ show_nat (unat (?b ip 3))" for ip
    unfolding uint32ToIP_def by (subst (1 2) four) simp
  assume "uint32ToIP ip = uint32ToIP jp"
  then have "unat (?b ip 0) = unat (?b jp 0) \<and> unat (?b ip 1) = unat (?b jp 1)
      \<and> unat (?b ip 2) = unat (?b jp 2) \<and> unat (?b ip 3) = unat (?b jp 3)"
    by (simp only: dotted split_dot show_nat_inject)
  then have eqs: "?b ip 0 = ?b jp 0" "?b ip 1 = ?b jp 1" "?b ip 2 = ?b jp 2" "?b ip 3 = ?b jp 3"
    by (simp_all only: word_eq_iff_unsigned [where ?'a = nat])
  have "le_bytes 4 (unat ip) = [?b jp 0, ?b jp 1, ?b jp 2, ?b jp 3]" unfolding eqs [symmetric] by (rule four)
  also have "\<dots> = le_bytes 4 (unat jp)" by (rule four [symmetric])
  finally have bytes: "le_bytes 4 (unat ip) = le_bytes 4 (unat jp)" .
  have inverse: "of_nat (le_nat (le_bytes 4 (unat w))) = w" for w :: "32 word"
    by (rule read_field) simp
  show "ip = jp" using inverse [of ip] unfolding bytes inverse by (rule sym)
qed simp

text \<open>
  The address strings keep pods apart: different 32-bit addresses have different strings, so the
  samples of two pods are never filed under one key.
\<close>

theorem uint32ToIP_injective: "inj uint32ToIP"
  by (rule injI) (simp add: uint32ToIP_inject)

end
