(* ===== verification/Collector.thy ===== *)
theory Collector
  imports Latency_Event Go_Float64 Sorting_Contract "HOL-Library.Monad_Syntax"
begin

section \<open>The collector of an agent\<close>

text \<open>
  \<open>internal/ebpf/collector.go\<close>: the RTT samples of every pod IP, the most recent ten thousand of each,
  and the statistics computed from them. The mutex makes every operation atomic.
\<close>

subsection \<open>The code\<close>

record PodStats =
  podP50Us :: int64
  podP99Us :: int64
  podSampleCount :: int64
  podLastUpdated :: time

record Collector =
  rttSamples :: "64 word list gomap"
  maxAge :: duration

definition NewCollector :: "duration \<Rightarrow> Collector" where
  "NewCollector age = \<lparr>rttSamples = [], maxAge = age\<rparr>"

definition maxSamples :: nat where
  "maxSamples = 10000"

text \<open>\<open>c.samples[ip]\<close>, nil for a key that is not there.\<close>

definition samples_of :: "Collector \<Rightarrow> string \<Rightarrow> 64 word list" where
  "samples_of c ip = (case map_of (rttSamples c) ip of None \<Rightarrow> [] | Some s \<Rightarrow> s)"

definition RecordEvent :: "LatencyEvent \<Rightarrow> Collector \<Rightarrow> Collector" where
  "RecordEvent evt c =
     (let ip = uint32ToIP (DstIP evt);
          s = samples_of c ip @ [RTTNs evt];
          s = (if length s > maxSamples then drop (length s - maxSamples) s else s)
      in c\<lparr>rttSamples := AList.update ip s (rttSamples c)\<rparr>)"

text \<open>
  The rank is computed in \<open>float64\<close>; the conversions back truncate values that are never negative and
  in range, so they are \<open>floor\<close>. Index panics are \<open>None\<close>.
\<close>

definition percentileUint64 :: "64 word list \<Rightarrow> int64 \<Rightarrow> 64 word option" where
  "percentileUint64 ds pct =
     (if ds = [] then Some 0
      else let rank = fmul (fdiv (float_of pct) 100) (float_of (go_len ds - 1));
               lower = of_int \<lfloor>rank\<rfloor>;
               upper = of_int \<lceil>rank\<rceil>
           in if lower = upper \<or> upper \<ge> go_len ds then go_index ds lower
              else let frac = fsub rank (float_of lower) in do {
                lo \<leftarrow> go_index ds lower;
                hi \<leftarrow> go_index ds upper;
                Some (lo + of_int \<lfloor>fmul frac (fl (of_nat (unat (hi - lo))))\<rfloor>)
              })"

definition microseconds_of :: "64 word \<Rightarrow> int64" where
  "microseconds_of ns = of_nat (unat (ns div 1000))"

definition stats_one ::
  "string \<times> 64 word list \<Rightarrow> PodStats gomap option \<Rightarrow> ('x runtime_scheme, PodStats gomap option) state" where
  "stats_one e result = (case e of (ip, samples) \<Rightarrow>
     (if samples = [] then ret result
      else do {
        let ds = sort samples;
        t \<leftarrow> now;
        ret (do {
          m \<leftarrow> result;
          p50 \<leftarrow> percentileUint64 ds 50;
          p99 \<leftarrow> percentileUint64 ds 99;
          Some (AList.update ip \<lparr>podP50Us = microseconds_of p50, podP99Us = microseconds_of p99,
                  podSampleCount = go_len samples, podLastUpdated = t\<rparr> m)
        })
      }))"

definition GetStats :: "Collector \<Rightarrow> ('x runtime_scheme, PodStats gomap option) state" where
  "GetStats c = do {
     entries \<leftarrow> range_map (rttSamples c);
     for_each entries stats_one (Some [])
   }"

definition filter_stats :: "PodStats gomap \<Rightarrow> string list \<Rightarrow> PodStats gomap" where
  "filter_stats stats ips = fold (\<lambda>ip filtered. case map_of stats ip of
       None \<Rightarrow> filtered
     | Some stat \<Rightarrow> AList.update ip stat filtered) ips []"

definition GetStatsForIPs :: "string list \<Rightarrow> Collector \<Rightarrow> ('x runtime_scheme, PodStats gomap option) state" where
  "GetStatsForIPs ips c = do {
     stats \<leftarrow> GetStats c;
     ret (if ips = [] then stats else map_option (\<lambda>m. filter_stats m ips) stats)
   }"

definition ResetCollector :: "Collector \<Rightarrow> Collector" where
  "ResetCollector c = c\<lparr>rttSamples := []\<rparr>"

text \<open>\<open>activeIPs\<close> is a set: a \<open>map[string]bool\<close> read at keys that may be missing.\<close>

definition EvictStale :: "(string \<Rightarrow> bool) \<Rightarrow> Collector \<Rightarrow> ('x runtime_scheme, Collector) state" where
  "EvictStale activeIPs c = do {
     entries \<leftarrow> range_map (rttSamples c);
     ret (fold (\<lambda>(ip, _) c. if activeIPs ip then c else c\<lparr>rttSamples := AList.delete ip (rttSamples c)\<rparr>)
            entries c)
   }"

subsection \<open>What is kept\<close>

definition last_n :: "nat \<Rightarrow> 'a list \<Rightarrow> 'a list" where
  "last_n k xs = drop (length xs - k) xs"

lemma last_n_snoc: "last_n k (last_n k xs @ [x]) = last_n k (xs @ [x])"
proof -
  have rev: "last_n k ys = rev (take k (rev ys))" for k and ys :: "'a list"
    by (simp add: last_n_def rev_take)
  show ?thesis by (cases k) (simp_all add: rev min_def)
qed

lemma samples_of_RecordEvent:
  "samples_of (RecordEvent evt c) ip =
     (if ip = uint32ToIP (DstIP evt) then last_n maxSamples (samples_of c ip @ [RTTNs evt]) else samples_of c ip)"
  by (auto simp: RecordEvent_def samples_of_def Let_def map_of_update last_n_def)

lemma samples_recorded:
  "samples_of (fold RecordEvent evts (NewCollector age)) ip =
     last_n maxSamples (map RTTNs (filter (\<lambda>e. uint32ToIP (DstIP e) = ip) evts))"
proof (induction evts rule: rev_induct)
  case Nil
  then show ?case by (simp add: NewCollector_def samples_of_def last_n_def)
next
  case (snoc e evts)
  then show ?case by (auto simp: samples_of_RecordEvent last_n_snoc)
qed

text \<open>
  (C24) The collector keeps, for every pod IP and independently of the others, exactly the last ten
  thousand RTTs of the events sent to it, in the order they came.
\<close>

theorem collector_keeps_latest:
  "samples_of (fold RecordEvent evts (NewCollector age)) ip =
     last_n maxSamples (map RTTNs (filter (\<lambda>e. uint32ToIP (DstIP e) = ip) evts))"
  by (rule samples_recorded)

datatype collector_op = OpEvent LatencyEvent | OpResetCollector | OpEvict "string \<Rightarrow> bool"

fun apply_collector_op :: "collector_op \<Rightarrow> Collector \<Rightarrow> ('x runtime_scheme, Collector) state" where
  "apply_collector_op (OpEvent e) c = ret (RecordEvent e c)"
| "apply_collector_op OpResetCollector c = ret (ResetCollector c)"
| "apply_collector_op (OpEvict act) c = EvictStale act c"

inductive collecting :: "Collector \<Rightarrow> bool" where
  start: "collecting (NewCollector age)"
| step: "collecting c \<Longrightarrow> run_state (apply_collector_op op c) (rt :: runtime) = (c', rt') \<Longrightarrow> collecting c'"

definition buffers_ok :: "Collector \<Rightarrow> bool" where
  "buffers_ok c \<longleftrightarrow> wf_map (rttSamples c)
     \<and> (\<forall>(ip, s) \<in> set (rttSamples c). s \<noteq> [] \<and> length s \<le> maxSamples)"

lemma buffers_ok_events: "buffers_ok c \<Longrightarrow> buffers_ok (RecordEvent e c)"
proof -
  assume c: "buffers_ok c"
  let ?ip = "uint32ToIP (DstIP e)"
  let ?s = "last_n maxSamples (samples_of c ?ip @ [RTTNs e])"
  have rec: "rttSamples (RecordEvent e c) = AList.update ?ip ?s (rttSamples c)"
    by (simp add: RecordEvent_def Let_def last_n_def)
  have "?s \<noteq> []" "length ?s \<le> maxSamples" by (simp_all add: last_n_def maxSamples_def)
  moreover have "set (AList.update ?ip ?s (rttSamples c)) \<subseteq> insert (?ip, ?s) (set (rttSamples c))"
    by (rule set_update_subset)
  ultimately show ?thesis using c unfolding buffers_ok_def rec by auto
qed

lemma run_EvictStale:
  "run_state (EvictStale act c) rt = (c', rt') \<Longrightarrow>
     rttSamples c' = filter (\<lambda>(ip, s). act ip) (rttSamples c) \<and> maxAge c' = maxAge c"
proof -
  let ?del = "\<lambda>e c. if act (fst e) then c else c\<lparr>rttSamples := AList.delete (fst e) (rttSamples c)\<rparr>"
  have loop: "rttSamples (fold ?del es c) = filter (\<lambda>e. fst e \<in> fst ` set es \<longrightarrow> act (fst e)) (rttSamples c)
      \<and> maxAge (fold ?del es c) = maxAge c" for es :: "(string \<times> 64 word list) list" and c
  proof (induction es arbitrary: c)
    case (Cons e es)
    show ?case
      by (auto simp: Cons.IH AList.delete_eq case_prod_beta intro!: filter_cong)
  qed simp
  assume "run_state (EvictStale act c) rt = (c', rt')"
  then have "c' = fold ?del (permute (choice rt 0) (rttSamples c)) c"
    by (auto simp: EvictStale_def case_prod_unfold)
  with loop [of "permute (choice rt 0) (rttSamples c)" c] show ?thesis
    by (auto simp: case_prod_beta intro!: filter_cong)
qed

lemma collecting_buffers_ok: "collecting c \<Longrightarrow> buffers_ok c"
proof (induction rule: collecting.induct)
  case (step c op rt c' rt')
  show ?case
  proof (cases op)
    case (OpEvent e)
    with step show ?thesis by (auto intro: buffers_ok_events)
  next
    case OpResetCollector
    with step show ?thesis by (auto simp: ResetCollector_def buffers_ok_def)
  next
    case (OpEvict act)
    with step have "rttSamples c' = filter (\<lambda>(ip, s). act ip) (rttSamples c)"
      by (auto dest: run_EvictStale)
    with step.IH show ?thesis by (auto simp: buffers_ok_def distinct_map_filter)
  qed
qed (simp add: NewCollector_def buffers_ok_def)

subsection \<open>Percentiles\<close>

text \<open>What \<open>percentileUint64\<close> computes from a rank between two entries, as numbers.\<close>

definition rank_of :: "nat \<Rightarrow> nat \<Rightarrow> rat" where
  "rank_of p n = fmul (fdiv (of_nat p) 100) (of_nat (n - 1))"

definition value_at :: "64 word list \<Rightarrow> rat \<Rightarrow> nat" where
  "value_at ds r = (let l = nat \<lfloor>r\<rfloor>; u = nat \<lceil>r\<rceil> in
     unat (ds ! l) + (if l = u then 0
       else nat \<lfloor>fmul (fsub r (of_nat l)) (fl (of_nat (unat (ds ! u) - unat (ds ! l))))\<rfloor>))"

abbreviation moderate :: "64 word list \<Rightarrow> bool" where
  "moderate ds \<equiv> \<forall>x \<in> set ds. unat x < 2 ^ 53"

lemma fl_1 [simp]: "fl 1 = 1"
  using fl_of_nat [of 1] by simp

lemma rank_bounds:
  assumes "p \<le> 100" and "0 < n" and "n < 2 ^ 53"
  shows "0 \<le> rank_of p n" and "rank_of p n \<le> of_nat (n - 1)"
proof -
  let ?q = "fl (of_nat p / 100)"
  have "(of_nat p :: rat) \<le> 100" using assms(1) by (metis of_nat_le_iff of_nat_numeral)
  then have "?q \<le> fl 1" by (intro fl_mono) simp_all
  then have q: "0 \<le> ?q" "?q \<le> 1" using fl_nonneg [of "of_nat p / 100"] by simp_all
  then show "0 \<le> rank_of p n" by (simp add: rank_of_def fmul_def fdiv_def fl_nonneg)
  have "?q * of_nat (n - 1) \<le> of_nat (n - 1)" using q by (intro mult_left_le_one_le) simp_all
  then have "fl (?q * of_nat (n - 1)) \<le> fl (of_nat (n - 1))" using q by (intro fl_mono) simp_all
  then show "rank_of p n \<le> of_nat (n - 1)"
    using assms fl_of_nat [of "n - 1"] by (simp add: rank_of_def fmul_def fdiv_def)
qed

lemma rank_mono: "p \<le> q \<Longrightarrow> rank_of p n \<le> rank_of q n"
  unfolding rank_of_def fmul_def fdiv_def
  by (intro fl_mono mult_right_mono mult_nonneg_nonneg fl_nonneg) (simp_all add: divide_right_mono)

text \<open>The interpolated part lies between zero and the distance of the two entries.\<close>

lemma fraction_bounds:
  assumes "0 \<le> r"
  shows "0 \<le> fsub r (of_nat (nat \<lfloor>r\<rfloor>))" and "fsub r (of_nat (nat \<lfloor>r\<rfloor>)) \<le> 1"
proof -
  have "of_nat (nat \<lfloor>r\<rfloor>) = (of_int \<lfloor>r\<rfloor> :: rat)" using assms by simp
  then have x: "0 \<le> r - of_nat (nat \<lfloor>r\<rfloor>)" "r - of_nat (nat \<lfloor>r\<rfloor>) \<le> 1"
    using floor_correct [of r] by simp_all
  then show "0 \<le> fsub r (of_nat (nat \<lfloor>r\<rfloor>))" by (simp add: fsub_def fl_nonneg)
  show "fsub r (of_nat (nat \<lfloor>r\<rfloor>)) \<le> 1" using fl_mono [OF x] by (simp add: fsub_def)
qed

lemma interpolation_bounds:
  assumes "0 \<le> f" and "f \<le> 1" and "d < 2 ^ 53"
  shows "nat \<lfloor>fmul f (of_nat d)\<rfloor> \<le> d" and "0 \<le> fmul f (of_nat d)"
proof -
  have "f * of_nat d \<le> of_nat d" using assms by (intro mult_left_le_one_le) simp_all
  then have "fmul f (of_nat d) \<le> of_nat d"
    using fl_mono [of "f * of_nat d" "of_nat d"] fl_of_nat [OF assms(3)] assms(1) by (simp add: fmul_def)
  then show "nat \<lfloor>fmul f (of_nat d)\<rfloor> \<le> d" by (simp add: nat_le_iff floor_le_iff)
  show "0 \<le> fmul f (of_nat d)" using assms by (simp add: fmul_def fl_nonneg)
qed

lemma floor_index:
  fixes r :: rat
  assumes "0 \<le> r" and "r \<le> of_nat m"
  shows "nat \<lfloor>r\<rfloor> \<le> nat \<lceil>r\<rceil>" and "nat \<lceil>r\<rceil> \<le> m"
proof -
  show "nat \<lfloor>r\<rfloor> \<le> nat \<lceil>r\<rceil>" by (intro nat_mono floor_le_ceiling)
  have "\<lceil>r\<rceil> \<le> int m" unfolding ceiling_le_iff using assms(2) by simp
  then show "nat \<lceil>r\<rceil> \<le> m" by linarith
qed

lemma floor_pred: "of_nat k \<le> r + 1 \<Longrightarrow> k - 1 \<le> nat \<lfloor>r\<rfloor>" for r :: rat
proof -
  assume "of_nat k \<le> r + 1"
  then have "int k - 1 \<le> \<lfloor>r\<rfloor>" unfolding le_floor_iff by simp
  then show ?thesis by linarith
qed

text \<open>Values between entries of an ascending list: within the two entries, and ascending with the rank.\<close>

lemma value_bounds:
  assumes "sorted ds" and "moderate ds" and "0 \<le> r" and "r \<le> of_nat (length ds - 1)" and "ds \<noteq> []"
  shows "unat (ds ! nat \<lfloor>r\<rfloor>) \<le> value_at ds r" and "value_at ds r \<le> unat (ds ! nat \<lceil>r\<rceil>)"
proof -
  let ?l = "nat \<lfloor>r\<rfloor>" and ?u = "nat \<lceil>r\<rceil>"
  have "0 < length ds" using assms(5) by simp
  then have idx: "?l \<le> ?u" "?u < length ds" using floor_index [OF assms(3,4)] by linarith+
  have "ds ! ?l \<le> ds ! ?u" using assms(1) idx by (intro sorted_nth_mono)
  then have le: "unat (ds ! ?l) \<le> unat (ds ! ?u)" by (simp add: word_le_nat_alt)
  have "unat (ds ! ?u) < 2 ^ 53" using assms(2) idx by simp
  then have d: "unat (ds ! ?u) - unat (ds ! ?l) < 2 ^ 53" by simp
  note part = interpolation_bounds(1) [OF fraction_bounds [OF assms(3)] d]
  have within: "x \<le> h - l \<Longrightarrow> l \<le> h \<Longrightarrow> l \<le> l + (if b then 0 else x) \<and> l + (if b then 0 else x) \<le> h"
    for x l h :: nat and b by auto
  show "unat (ds ! ?l) \<le> value_at ds r" and "value_at ds r \<le> unat (ds ! ?u)"
    using within [OF part le] unfolding value_at_def Let_def fl_of_nat [OF d] by blast+
qed

lemma value_mono:
  assumes "sorted ds" and "moderate ds" and "0 \<le> r" and "r \<le> q" and "q \<le> of_nat (length ds - 1)" and "ds \<noteq> []"
  shows "value_at ds r \<le> value_at ds q"
proof (cases "nat \<lfloor>r\<rfloor> = nat \<lfloor>q\<rfloor> \<and> nat \<lceil>r\<rceil> = nat \<lceil>q\<rceil>")
  case True
  let ?l = "nat \<lfloor>r\<rfloor>" and ?u = "nat \<lceil>r\<rceil>"
  let ?d = "unat (ds ! ?u) - unat (ds ! ?l)"
  have f: "0 \<le> fsub r (of_nat ?l)" by (rule fraction_bounds [OF assms(3)])
  have "of_nat ?l = (of_int \<lfloor>r\<rfloor> :: rat)" using assms(3) by simp
  then have "0 \<le> r - of_nat ?l" using floor_correct [of r] by simp
  then have "fsub r (of_nat ?l) \<le> fsub q (of_nat ?l)"
    unfolding fsub_def using assms(4) by (intro fl_mono) simp_all
  then have "fmul (fsub r (of_nat ?l)) (fl (of_nat ?d)) \<le> fmul (fsub q (of_nat ?l)) (fl (of_nat ?d))"
    unfolding fmul_def using f by (intro fl_mono mult_right_mono mult_nonneg_nonneg) (simp_all add: fl_nonneg)
  then have "nat \<lfloor>fmul (fsub r (of_nat ?l)) (fl (of_nat ?d))\<rfloor> \<le> nat \<lfloor>fmul (fsub q (of_nat ?l)) (fl (of_nat ?d))\<rfloor>"
    by (intro nat_mono floor_mono)
  with True show ?thesis unfolding value_at_def Let_def by (auto simp del: of_nat_diff of_nat_unat)
next
  case False
  have q0: "0 \<le> q" and r1: "r \<le> of_nat (length ds - 1)" using assms by simp_all
  have "nat \<lceil>r\<rceil> \<le> nat \<lfloor>q\<rfloor>"
  proof -
    have "\<lfloor>r\<rfloor> \<le> \<lfloor>q\<rfloor>" "\<lceil>r\<rceil> \<le> \<lceil>q\<rceil>" using assms(4) by (simp_all add: floor_mono ceiling_mono)
    moreover have "\<lceil>r\<rceil> \<le> \<lfloor>r\<rfloor> + 1" "\<lceil>q\<rceil> \<le> \<lfloor>q\<rfloor> + 1" by (simp_all add: ceiling_altdef)
    ultimately have "\<lceil>r\<rceil> \<le> \<lfloor>q\<rfloor>"
    proof (cases "\<lfloor>r\<rfloor> = \<lfloor>q\<rfloor>")
      case True
      with False have "\<lceil>r\<rceil> \<noteq> \<lceil>q\<rceil>" by auto
      with \<open>\<lceil>r\<rceil> \<le> \<lceil>q\<rceil>\<close> \<open>\<lceil>q\<rceil> \<le> \<lfloor>q\<rfloor> + 1\<close> show ?thesis by linarith
    qed linarith
    then show ?thesis by (rule nat_mono)
  qed
  moreover have "0 < length ds" using assms(6) by simp
  then have "nat \<lfloor>q\<rfloor> < length ds" using floor_index [OF q0 assms(5)] by linarith
  ultimately have "ds ! nat \<lceil>r\<rceil> \<le> ds ! nat \<lfloor>q\<rfloor>" by (intro sorted_nth_mono [OF assms(1)])
  then have "unat (ds ! nat \<lceil>r\<rceil>) \<le> unat (ds ! nat \<lfloor>q\<rfloor>)" by (simp add: word_le_nat_alt)
  with value_bounds(2) [OF assms(1,2,3) r1 assms(6)] value_bounds(1) [OF assms(1,2) q0 assms(5,6)]
  show ?thesis by linarith
qed

lemma percentile_value:
  assumes "sorted ds" and "ds \<noteq> []" and "length ds < 2 ^ 53" and "p \<le> 100"
  shows "percentileUint64 ds (of_nat p) = Some (of_nat (value_at ds (rank_of p (length ds))))"
proof -
  let ?n = "length ds" and ?r = "rank_of p (length ds)"
  let ?l = "nat \<lfloor>?r\<rfloor>" and ?u = "nat \<lceil>?r\<rceil>"
  have n: "0 < ?n" using assms(2) by simp
  note r = rank_bounds [OF assms(4) n assms(3)]
  have lu: "?l \<le> ?u" "?u < ?n" using floor_index [OF r] n by linarith+
  have len: "go_len ds - 1 = (of_nat (?n - 1) :: int64)"
    using n by (metis Suc_leI of_nat_diff of_nat_1 One_nat_def)
  have rank: "fmul (fdiv (float_of (of_nat p)) 100) (float_of (go_len ds - 1)) = ?r"
    unfolding len using assms(3,4) by (simp add: rank_of_def float_of_nat)
  have low: "(of_int \<lfloor>?r\<rfloor> :: int64) = of_nat ?l" and up: "(of_int \<lceil>?r\<rceil> :: int64) = of_nat ?u"
    using r(1) by simp_all
  have val: "sval (of_nat k :: int64) = int k" if "k < ?n" for k
    using that assms(3) by (simp add: sval_of_nat_64)
  have eq: "((of_nat ?l :: int64) = of_nat ?u) = (?l = ?u)"
  proof
    assume "(of_nat ?l :: int64) = of_nat ?u"
    then have "sval (of_nat ?l :: int64) = sval (of_nat ?u :: int64)" by (rule arg_cong)
    then show "?l = ?u" unfolding val [OF lu(2)] val [OF le_less_trans [OF lu]] by (rule of_nat_eq_iff [THEN iffD1])
  qed (rule arg_cong)
  have inr: "\<not> (of_nat ?u :: int64) \<ge> go_len ds"
  proof -
    have "sval (go_len ds) = int ?n" using assms(3) by (intro sval_of_nat_64) simp
    then show ?thesis unfolding less_eq_go_int_def val [OF lu(2)] using lu(2) by linarith
  qed
  have idx: "go_index ds (of_nat k) = Some (ds ! k)" if "k < ?n" for k
    using that assms(3) by (simp add: go_index_of_nat)
  show ?thesis
  proof (cases "?l = ?u")
    case True
    then have "percentileUint64 ds (of_nat p) = Some (ds ! ?l)"
      unfolding percentileUint64_def Let_def rank low up using assms(2) idx [of ?l] lu by simp
    with True show ?thesis by (simp add: value_at_def Let_def)
  next
    case False
    have "ds ! ?l \<le> ds ! ?u" by (rule sorted_nth_mono [OF assms(1) lu])
    then have diff: "unat (ds ! ?u - ds ! ?l) = unat (ds ! ?u) - unat (ds ! ?l)" by (simp add: unat_sub)
    let ?x = "fmul (fsub ?r (of_nat ?l)) (fl (of_nat (unat (ds ! ?u) - unat (ds ! ?l))))"
    have x: "0 \<le> ?x"
      unfolding fmul_def by (intro fl_nonneg mult_nonneg_nonneg fraction_bounds(1) [OF r(1)]) simp
    have "percentileUint64 ds (of_nat p) = Some (ds ! ?l + of_int \<lfloor>?x\<rfloor>)"
      unfolding percentileUint64_def Let_def rank low up eq diff
      using False inr assms(2,3) idx [of ?l] idx [OF lu(2)] lu
      by (simp add: float_of_nat diff del: of_nat_diff of_nat_unat)
    also have "ds ! ?l + of_int \<lfloor>?x\<rfloor> = of_nat (unat (ds ! ?l) + nat \<lfloor>?x\<rfloor>)"
      using x by (simp del: of_nat_diff)
    finally show ?thesis using False by (simp add: value_at_def Let_def del: of_nat_diff of_nat_unat)
  qed
qed

lemma fl_half: "fl (1 / 2) = 1 / 2"
  using fl_scaled [of 1 1] by simp

lemma fmul_half: "k < 2 ^ 53 \<Longrightarrow> fmul (1 / 2) (of_nat k) = of_nat k / 2"
  using fl_scaled [of "int k" 1] by (simp add: fmul_def)

lemma rank_half: "0 < n \<Longrightarrow> n < 2 ^ 53 \<Longrightarrow> rank_of 50 n = of_nat (n - 1) / 2"
  using fmul_half [of "n - 1"] by (simp add: rank_of_def fdiv_def fl_half del: of_nat_diff)

lemma median_value:
  assumes "sorted ds" and "moderate ds" and "ds \<noteq> []" and "length ds < 2 ^ 53"
  shows "value_at ds (rank_of 50 (length ds)) =
    (unat (ds ! ((length ds - 1) div 2)) + unat (ds ! (length ds div 2))) div 2"
proof -
  let ?n = "length ds"
  have n: "0 < ?n" using assms(3) by simp
  show ?thesis
  proof (cases "odd ?n")
    case True
    then obtain m where m: "?n = 2 * m + 1" by (rule oddE)
    then have "rank_of 50 ?n = of_nat m" using rank_half [OF n assms(4)] by simp
    then show ?thesis by (simp add: m value_at_def Let_def)
  next
    case False
    then obtain k where "?n = 2 * k" by auto
    with n obtain m where m: "?n = 2 * m + 2" by (cases k) auto
    have r: "rank_of 50 ?n = of_nat m + 1 / 2" using rank_half [OF n assms(4)] m by (simp add: add_divide_distrib)
    have l: "nat \<lfloor>of_nat m + 1 / 2 :: rat\<rfloor> = m" and u: "nat \<lceil>of_nat m + 1 / 2 :: rat\<rceil> = Suc m"
      by (simp_all add: floor_eq_iff ceiling_eq_iff nat_eq_iff)
    let ?d = "unat (ds ! Suc m) - unat (ds ! m)"
    have le: "unat (ds ! m) \<le> unat (ds ! Suc m)"
      using sorted_nth_mono [OF assms(1), of m "Suc m"] m by (simp add: word_le_nat_alt)
    have "unat (ds ! Suc m) < 2 ^ 53" using assms(2) m by simp
    then have d: "?d < 2 ^ 53" by simp
    have "fmul (fsub (rank_of 50 ?n) (of_nat m)) (fl (of_nat ?d)) = of_nat ?d / 2"
      using fmul_half [OF d] by (simp add: r fsub_def fl_half fl_of_nat [OF d] del: of_nat_diff of_nat_unat)
    moreover have "nat \<lfloor>of_nat ?d / (2 :: rat)\<rfloor> = ?d div 2"
      using floor_divide_of_nat_eq [of ?d 2, where ?'a = rat] by (simp del: of_nat_diff of_nat_unat)
    ultimately have "nat \<lfloor>fmul (fsub (of_nat m + 1 / 2) (of_nat m)) (fl (of_nat ?d))\<rfloor> = ?d div 2"
      unfolding r by (simp only:)
    then have "value_at ds (rank_of 50 ?n) = unat (ds ! m) + ?d div 2"
      unfolding value_at_def Let_def r l u by simp
    also have "\<dots> = (unat (ds ! m) + unat (ds ! Suc m)) div 2" using le by presburger
    finally show ?thesis by (simp add: m)
  qed
qed

subsection \<open>The statistics\<close>

text \<open>The statistics of one nonempty list of samples.\<close>

definition summarizes :: "64 word list \<Rightarrow> PodStats \<Rightarrow> bool" where
  "summarizes s st \<longleftrightarrow> podSampleCount st = go_len s
     \<and> podP50Us st = microseconds_of (of_nat (value_at (sort s) (rank_of 50 (length s))))
     \<and> podP99Us st = microseconds_of (of_nat (value_at (sort s) (rank_of 99 (length s))))"

lemma stats_one_run:
  assumes "s \<noteq> []" and "length s < 2 ^ 53"
  shows "\<exists>st. run_state (stats_one (ip, s) (Some m)) rt = (Some (AList.update ip st m), tick rt)
    \<and> summarizes s st \<and> podLastUpdated st = clock rt 0"
proof -
  have len: "length (sort s) = length s" by simp
  have ds: "sorted (sort s)" "length (sort s) < 2 ^ 53" "sort s \<noteq> []"
    using assms(2) by simp_all (metis assms(1) len length_0_conv)
  note entry = percentile_value [OF ds(1,3,2)]
  have "percentileUint64 (sort s) 50 = Some (of_nat (value_at (sort s) (rank_of 50 (length s))))"
    by (rule entry [of 50, simplified])
  moreover have "percentileUint64 (sort s) 99 = Some (of_nat (value_at (sort s) (rank_of 99 (length s))))"
    by (rule entry [of 99, simplified])
  ultimately show ?thesis
    using assms(1)
    by (intro exI [of _ "\<lparr>podP50Us = microseconds_of (of_nat (value_at (sort s) (rank_of 50 (length s)))),
        podP99Us = microseconds_of (of_nat (value_at (sort s) (rank_of 99 (length s)))),
        podSampleCount = go_len s, podLastUpdated = clock rt 0\<rparr>"])
      (simp add: stats_one_def Let_def summarizes_def)
qed

definition countable_samples :: "64 word list gomap \<Rightarrow> bool" where
  "countable_samples es \<longleftrightarrow> (\<forall>(ip, s) \<in> set es. s \<noteq> [] \<and> length s < 2 ^ 53)"

lemma stats_loop:
  "run_state (for_each es stats_one (Some m)) rt = (res, rt') \<Longrightarrow> countable_samples es \<Longrightarrow> wf_map es \<Longrightarrow> wf_map m \<Longrightarrow>
     \<exists>m'. res = Some m' \<and> wf_map m' \<and> fst ` set m' = fst ` set m \<union> fst ` set es
       \<and> (\<forall>ip s. (ip, s) \<in> set es \<longrightarrow> (\<exists>st. map_of m' ip = Some st \<and> summarizes s st))
       \<and> (\<forall>ip. ip \<notin> fst ` set es \<longrightarrow> map_of m' ip = map_of m ip)"
proof (induction es arbitrary: m rt)
  case (Cons e es)
  obtain ip s where e: "e = (ip, s)" by fastforce
  with Cons.prems(2) have s: "s \<noteq> []" "length s < 2 ^ 53" by (simp_all add: countable_samples_def)
  obtain st where st: "run_state (stats_one e (Some m)) rt = (Some (AList.update ip st m), tick rt)" "summarizes s st"
    using stats_one_run [OF s] unfolding e by blast
  with Cons.prems(1) have "run_state (for_each es stats_one (Some (AList.update ip st m))) (tick rt) = (res, rt')"
    by simp
  from Cons.IH [OF this] Cons.prems(2-4) e obtain m' where m': "res = Some m'" "wf_map m'"
    "fst ` set m' = fst ` set (AList.update ip st m) \<union> fst ` set es"
    "\<forall>ip s. (ip, s) \<in> set es \<longrightarrow> (\<exists>st. map_of m' ip = Some st \<and> summarizes s st)"
    "\<forall>jp. jp \<notin> fst ` set es \<longrightarrow> map_of m' jp = map_of (AList.update ip st m) jp"
    by (auto simp: countable_samples_def)
  have "ip \<notin> fst ` set es" using Cons.prems(3) e by simp
  with m'(5) have "map_of m' ip = Some st" by (simp add: map_of_update)
  with m' e st(2) show ?case by (auto simp: AList.dom_update map_of_update)
qed auto

lemma GetStats_run:
  assumes "buffers_ok c" and "run_state (GetStats c) rt = (res, rt')"
  shows "\<exists>m. res = Some m \<and> wf_map m \<and> fst ` set m = fst ` set (rttSamples c)
    \<and> (\<forall>ip st. map_of m ip = Some st \<longrightarrow> samples_of c ip \<noteq> [] \<and> length (samples_of c ip) \<le> maxSamples
         \<and> summarizes (samples_of c ip) st)"
proof -
  let ?es = "permute (choice rt 0) (rttSamples c)"
  have wf: "wf_map (rttSamples c)" and len: "\<And>ip s. (ip, s) \<in> set (rttSamples c) \<Longrightarrow> s \<noteq> [] \<and> length s \<le> maxSamples"
    using assms(1) by (auto simp: buffers_ok_def)
  have "run_state (for_each ?es stats_one (Some [])) (rt\<lparr>choice := (\<lambda>n. choice rt (Suc n))\<rparr>) = (res, rt')"
    using assms(2) by (simp add: GetStats_def)
  moreover have "countable_samples ?es" using len by (force simp: countable_samples_def maxSamples_def)
  ultimately obtain m where m: "res = Some m" "wf_map m" "fst ` set m = fst ` set ?es"
    "\<And>ip s. (ip, s) \<in> set ?es \<Longrightarrow> \<exists>st. map_of m ip = Some st \<and> summarizes s st"
    using stats_loop [of ?es "[]" "rt\<lparr>choice := (\<lambda>n. choice rt (Suc n))\<rparr>" res rt'] wf by auto
  have "samples_of c ip \<noteq> [] \<and> length (samples_of c ip) \<le> maxSamples \<and> summarizes (samples_of c ip) st"
    if "map_of m ip = Some st" for ip st
  proof -
    have "ip \<in> fst ` set (rttSamples c)" using map_of_SomeD [OF that] m(3) by force
    then obtain s where s: "(ip, s) \<in> set (rttSamples c)" by auto
    then have "samples_of c ip = s" using wf by (simp add: samples_of_def)
    with m(4) [of ip s] s len [OF s] that show ?thesis by auto
  qed
  with m show ?thesis by auto
qed

lemma rank_99_lower:
  assumes "0 < n" and "n \<le> maxSamples"
  shows "of_nat (99 * (n - 1) div 100) \<le> rank_of 99 n + 1"
proof -
  let ?u = "1 / 2 ^ 53 :: rat" and ?k = "of_nat (n - 1) :: rat"
  have k: "0 \<le> ?k" "?k \<le> 10000"
    using assms(2) of_nat_mono [of "n - 1" 10000, where ?'a = rat] by (simp_all add: maxSamples_def del: of_nat_diff)
  have q: "99 / 100 * (1 - ?u) \<le> fl (99 / 100)" by (rule fl_lower) simp
  have first: "99 / 100 * (1 - ?u) * ?k \<le> fl (99 / 100) * ?k" by (rule mult_right_mono [OF q k(1)])
  have second: "99 / 100 * (1 - ?u) * ?k * (1 - ?u) \<le> fl (99 / 100) * ?k * (1 - ?u)"
    by (rule mult_right_mono [OF first]) simp
  have "fl (99 / 100) * ?k * (1 - ?u) \<le> rank_of 99 n"
    using fl_lower [of "fl (99 / 100) * ?k"] k fl_nonneg [of "99 / 100"]
    by (simp add: rank_of_def fdiv_def fmul_def del: of_nat_diff)
  from second this have "99 / 100 * (1 - ?u) * ?k * (1 - ?u) \<le> rank_of 99 n" by (rule order.trans)
  moreover have "99 / 100 * ?k - 1 \<le> 99 / 100 * (1 - ?u) * ?k * (1 - ?u)"
    using k by (simp add: algebra_simps del: of_nat_diff)
  moreover have "of_nat (99 * (n - 1) div 100) \<le> 99 / 100 * ?k"
  proof -
    have "100 * (99 * (n - 1) div 100) \<le> 99 * (n - 1)" by simp
    then have "of_nat (100 * (99 * (n - 1) div 100)) \<le> (of_nat (99 * (n - 1)) :: rat)" by (simp only: of_nat_le_iff)
    then show ?thesis by (simp del: of_nat_diff)
  qed
  ultimately show ?thesis by linarith
qed

lemma sval_microseconds_of: "v < 2 ^ 64 \<Longrightarrow> sval (microseconds_of (of_nat v)) = int (v div 1000)"
proof -
  assume v: "v < 2 ^ 64"
  then have "unat (of_nat v div (1000 :: 64 word)) = v div 1000"
    by (simp add: unat_div_distrib unat_of_nat)
  moreover have "v div 1000 < 2 ^ 63" using v by simp
  ultimately show ?thesis by (simp add: microseconds_of_def sval_of_nat_64)
qed

text \<open>What a report says of the samples \<open>s\<close> of a pod.\<close>

definition report_ok :: "64 word list \<Rightarrow> PodStats \<Rightarrow> bool" where
  "report_ok s st \<longleftrightarrow> (let ds = sort s; n = length s in
      podSampleCount st = go_len s \<and> n \<le> 10000
    \<and> sval (podP50Us st) = int ((unat (ds ! ((n - 1) div 2)) + unat (ds ! (n div 2))) div 2 div 1000)
    \<and> podP50Us st \<le> podP99Us st
    \<and> sval (podP99Us st) \<le> int (unat (ds ! (n - 1)) div 1000)
    \<and> int (unat (ds ! (99 * (n - 1) div 100 - 1)) div 1000) \<le> sval (podP99Us st))"

text \<open>
  (C25) The statistics of a collector, whatever it went through, and while no RTT reaches \<open>2 ^ 53\<close>
  nanoseconds (104 days): \<open>GetStats\<close> does not panic and reports exactly the pods with samples; the P50 is
  the median of the kept samples (of an even number, the mean of the two middle ones), the P99
  is not below the P50, not above the largest sample, and at least the entry just below the 99th
  percentile; all in whole microseconds.
\<close>

theorem GetStats_reports:
  assumes "collecting c" and "\<forall>(ip, s) \<in> set (rttSamples c). moderate s"
    and "run_state (GetStats c) rt = (res, rt')"
  shows "\<exists>m. res = Some m \<and> wf_map m \<and> fst ` set m = {ip. samples_of c ip \<noteq> []}
    \<and> (\<forall>ip st. map_of m ip = Some st \<longrightarrow> report_ok (samples_of c ip) st)"
proof -
  have ok: "buffers_ok c" by (rule collecting_buffers_ok [OF assms(1)])
  obtain m where m: "res = Some m" "wf_map m" "fst ` set m = fst ` set (rttSamples c)"
    and entry: "\<And>ip st. map_of m ip = Some st \<Longrightarrow> samples_of c ip \<noteq> []
      \<and> length (samples_of c ip) \<le> maxSamples \<and> summarizes (samples_of c ip) st"
    using GetStats_run [OF ok assms(3)] by blast
  have keys: "fst ` set (rttSamples c) = {ip. samples_of c ip \<noteq> []}"
  proof (rule set_eqI)
    fix ip
    have "ip \<in> fst ` set (rttSamples c) \<longleftrightarrow> map_of (rttSamples c) ip \<noteq> None"
      by (simp add: map_of_eq_None_iff)
    also have "\<dots> \<longleftrightarrow> samples_of c ip \<noteq> []"
      using ok by (auto simp: samples_of_def buffers_ok_def split: option.split)
    finally show "ip \<in> fst ` set (rttSamples c) \<longleftrightarrow> ip \<in> {ip. samples_of c ip \<noteq> []}" by simp
  qed
  have figures: "report_ok s st" if st: "map_of m ip = Some st" and s: "s = samples_of c ip" for ip st s
  proof -
    let ?ds = "sort s" and ?n = "length s" and ?r = "rank_of 99 (length s)"
    have mod: "moderate ?ds"
    proof (cases "map_of (rttSamples c) ip")
      case (Some x)
      then show ?thesis using bspec [OF assms(2) map_of_SomeD [OF Some]] s by (simp add: samples_of_def)
    qed (simp add: s samples_of_def)
    have n: "0 < ?n" "?n \<le> maxSamples" "?n < 2 ^ 53" using entry [OF st] s by (auto simp: maxSamples_def)
    have len: "length ?ds = ?n" by simp
    have "?ds \<noteq> []" using n(1) by (metis len list.size(3) less_irrefl)
    then have ds: "sorted ?ds" "?ds \<noteq> []" "length ?ds = ?n" by simp_all
    have r50: "0 \<le> rank_of 50 ?n" "rank_of 50 ?n \<le> ?r" and r99: "0 \<le> ?r" "?r \<le> of_nat (?n - 1)"
      using rank_bounds [OF _ n(1,3)] rank_mono [of 50 99] by simp_all
    let ?v50 = "value_at ?ds (rank_of 50 ?n)" and ?v99 = "value_at ?ds ?r"
    have le: "?v50 \<le> ?v99"
      using value_mono [OF ds(1) mod r50(1,2) _ ds(2)] r99(2) ds(3) by simp
    have hi: "?v99 \<le> unat (?ds ! nat \<lceil>?r\<rceil>)" and lo: "unat (?ds ! nat \<lfloor>?r\<rfloor>) \<le> ?v99"
      using value_bounds [OF ds(1) mod r99(1) _ ds(2)] r99(2) ds(3) by simp_all
    have idx: "nat \<lfloor>?r\<rfloor> \<le> nat \<lceil>?r\<rceil>" "nat \<lceil>?r\<rceil> \<le> ?n - 1" using floor_index [OF r99] by auto
    have "?ds ! nat \<lceil>?r\<rceil> \<le> ?ds ! (?n - 1)" using idx n(1) ds by (intro sorted_nth_mono) simp_all
    with hi have max: "?v99 \<le> unat (?ds ! (?n - 1))" by (simp add: word_le_nat_alt)
    have "99 * (?n - 1) div 100 - 1 \<le> nat \<lfloor>?r\<rfloor>"
      by (rule floor_pred [OF rank_99_lower [OF n(1,2)]])
    moreover have "nat \<lfloor>?r\<rfloor> < length ?ds" unfolding ds(3) using idx n(1) by linarith
    ultimately have "?ds ! (99 * (?n - 1) div 100 - 1) \<le> ?ds ! nat \<lfloor>?r\<rfloor>"
      by (intro sorted_nth_mono [OF ds(1)])
    with lo have min: "unat (?ds ! (99 * (?n - 1) div 100 - 1)) \<le> ?v99" by (simp add: word_le_nat_alt)
    have big: "?v99 < 2 ^ 64" using max unsigned_less [of "?ds ! (?n - 1)", where ?'a = nat] by simp
    have p50: "sval (podP50Us st) = int (?v50 div 1000)" and p99: "sval (podP99Us st) = int (?v99 div 1000)"
      using entry [OF st] big le sval_microseconds_of [of ?v50] sval_microseconds_of [of ?v99]
      by (simp_all add: summarizes_def s)
    have med: "?v50 = (unat (?ds ! ((?n - 1) div 2)) + unat (?ds ! (?n div 2))) div 2"
      unfolding ds(3) [symmetric] by (rule median_value [OF ds(1) mod ds(2)]) (use n(3) in simp)
    have f1: "podSampleCount st = go_len s" and f2: "?n \<le> 10000"
      using entry [OF st] by (simp_all add: summarizes_def s maxSamples_def)
    have f3: "sval (podP50Us st) = int ((unat (?ds ! ((?n - 1) div 2)) + unat (?ds ! (?n div 2))) div 2 div 1000)"
      unfolding p50 med ..
    have f4: "podP50Us st \<le> podP99Us st"
      unfolding less_eq_go_int_def p50 p99 of_nat_le_iff by (rule div_le_mono [OF le])
    have f5: "sval (podP99Us st) \<le> int (unat (?ds ! (?n - 1)) div 1000)"
      unfolding p99 of_nat_le_iff by (rule div_le_mono [OF max])
    have f6: "int (unat (?ds ! (99 * (?n - 1) div 100 - 1)) div 1000) \<le> sval (podP99Us st)"
      unfolding p99 of_nat_le_iff by (rule div_le_mono [OF min])
    show ?thesis unfolding report_ok_def Let_def by (intro conjI f1 f2 f3 f4 f5 f6)
  qed
  show ?thesis
    by (intro exI [of _ m] conjI allI impI) (rule m | (rule figures, assumption, rule refl) | simp only: m keys)+
qed

definition sample_collector :: Collector where
  "sample_collector = RecordEvent sample_event (NewCollector second)"

lemma collecting_sample: "collecting sample_collector"
  unfolding sample_collector_def
  by (rule collecting.step [OF collecting.start [of second], where op = "OpEvent sample_event"]) simp

lemma sample_collector_samples:
  "rttSamples sample_collector = [(uint32ToIP 0x0200000A, [1000000])]"
  by (simp add: sample_collector_def RecordEvent_def NewCollector_def samples_of_def maxSamples_def
      sample_event_def)

theorem GetStats_reports_witness:
  "\<exists>m st rt'. run_state (GetStats sample_collector) (\<lparr>clock = int, choice = \<lambda>n. []\<rparr> :: runtime) = (Some m, rt')
     \<and> map_of m (uint32ToIP 0x0200000A) = Some st \<and> sval (podP50Us st) = 1000"
proof -
  let ?rt = "\<lparr>clock = int, choice = \<lambda>n. []\<rparr> :: runtime" and ?ip = "uint32ToIP 0x0200000A"
  obtain res rt' where run: "run_state (GetStats sample_collector) ?rt = (res, rt')" by fastforce
  have "\<forall>(ip, s) \<in> set (rttSamples sample_collector). moderate s" by (simp add: sample_collector_samples)
  from GetStats_reports [OF collecting_sample this run] obtain m where m: "res = Some m"
    "fst ` set m = {ip. samples_of sample_collector ip \<noteq> []}" "wf_map m"
    and p50: "\<And>ip st. map_of m ip = Some st \<Longrightarrow> report_ok (samples_of sample_collector ip) st"
    by blast
  have s: "samples_of sample_collector ?ip = [1000000]" by (simp add: samples_of_def sample_collector_samples)
  then have "?ip \<in> fst ` set m" using m(2) by simp
  then obtain st where "map_of m ?ip = Some st" using m(3) by (metis map_of_eq_None_iff not_None_eq)
  with p50 [OF this] s run m(1) show ?thesis by (auto simp: report_ok_def)
qed

text \<open>
  \<open>EvictStale\<close> forgets the pods that are not active and nothing else, in whatever order it visits the
  map: an active pod keeps all its samples.
\<close>

theorem EvictStale_exact:
  assumes "run_state (EvictStale active c) rt = (c', rt')"
  shows "samples_of c' ip = (if active ip then samples_of c ip else [])"
proof -
  have "map_of (filter (\<lambda>(ip, s). active ip) m) ip = (if active ip then map_of m ip else None)" for m :: "64 word list gomap"
    by (induction m) auto
  then show ?thesis using run_EvictStale [OF assms] by (simp add: samples_of_def)
qed

theorem EvictStale_exact_witness:
  "\<exists>c' rt'. run_state (EvictStale (\<lambda>ip. False) sample_collector) (\<lparr>clock = int, choice = \<lambda>n. []\<rparr> :: runtime) = (c', rt')
     \<and> samples_of c' (uint32ToIP 0x0200000A) = []"
proof -
  obtain c' rt' where "run_state (EvictStale (\<lambda>ip. False) sample_collector)
      (\<lparr>clock = int, choice = \<lambda>n. []\<rparr> :: runtime) = (c', rt')" by fastforce
  with EvictStale_exact [OF this] show ?thesis by simp
qed

lemma filter_stats_map:
  "map_of (filter_stats m ips) ip = (if ip \<in> set ips then map_of m ip else None)"
proof -
  have "map_of (fold (\<lambda>ip filtered. case map_of m ip of None \<Rightarrow> filtered | Some stat \<Rightarrow> AList.update ip stat filtered) ips f) ip
      = (if ip \<in> set ips \<and> map_of m ip \<noteq> None then map_of m ip else map_of f ip)" for f
    by (induction ips arbitrary: f) (auto simp: map_of_update split: option.splits)
  then show ?thesis by (auto simp: filter_stats_def)
qed

text \<open>
  \<open>GetStatsForIPs\<close> returns what \<open>GetStats\<close> reports at that moment, restricted to the given IPs; an
  empty list asks for all of them.
\<close>

theorem GetStatsForIPs_restricts:
  assumes "collecting c" and "run_state (GetStatsForIPs ips c) rt = (res, rt')"
  shows "\<exists>m f. run_state (GetStats c) rt = (Some m, rt') \<and> res = Some f
    \<and> (\<forall>ip. map_of f ip = (if ips = [] \<or> ip \<in> set ips then map_of m ip else None))"
proof -
  obtain r rt1 where run: "run_state (GetStats c) rt = (r, rt1)" by fastforce
  with GetStats_run [OF collecting_buffers_ok [OF assms(1)] run] assms(2) show ?thesis
    by (auto simp: GetStatsForIPs_def filter_stats_map)
qed

theorem GetStatsForIPs_restricts_witness:
  "\<exists>f rt'. run_state (GetStatsForIPs [uint32ToIP 1] sample_collector) (\<lparr>clock = int, choice = \<lambda>n. []\<rparr> :: runtime) = (Some f, rt')
     \<and> map_of f (uint32ToIP 0x0200000A) = None"
proof -
  obtain res rt' where run: "run_state (GetStatsForIPs [uint32ToIP 1] sample_collector)
      (\<lparr>clock = int, choice = \<lambda>n. []\<rparr> :: runtime) = (res, rt')" by fastforce
  have "uint32ToIP 0x0200000A \<noteq> uint32ToIP 1" by (simp add: uint32ToIP_inject)
  with GetStatsForIPs_restricts [OF collecting_sample run] run show ?thesis by auto
qed

end
