(* ===== verification/Api_Types.thy ===== *)
theory Api_Types
  imports Go_Prelude
begin

section \<open>The API objects\<close>

text \<open>
  The resource \<open>AviatorPolicy\<close> of \<open>api/v1alpha1/aviatorpolicy_types.go\<close>, field by field, and of the
  Kubernetes objects the controller handles the fields it reads or writes. Optional pointers are
  options; a \<open>metav1.Duration\<close> is its duration; a zero \<open>metav1.Time\<close> pointer is \<open>None\<close>.
\<close>

subsection \<open>AviatorPolicy\<close>

type_synonym SelectionMode = string

definition SelectionModeTopN :: SelectionMode where "SelectionModeTopN = ''topN''"
definition SelectionModePercentage :: SelectionMode where "SelectionModePercentage = ''percentage''"
definition SelectionModeThreshold :: SelectionMode where "SelectionModeThreshold = ''threshold''"

type_synonym LatencySourceType = string

definition LatencySourceEBPF :: LatencySourceType where "LatencySourceEBPF = ''ebpf''"
definition LatencySourceProbe :: LatencySourceType where "LatencySourceProbe = ''probe''"

record TargetRef =
  refAPIVersion :: string
  refKind :: string
  refName :: string

record SelectionPolicy =
  selMode :: SelectionMode
  selTopN :: "int32 option"
  selPercentage :: "int32 option"

record CircuitBreakerSpec =
  cbEnabled :: bool
  cbP99Threshold :: duration
  cbConsecutiveViolations :: int32
  cbRecoveryInterval :: duration

record DampeningSpec =
  dampEnabled :: bool
  dampThresholdPercent :: int32
  dampConsecutiveIntervals :: int32

record AviatorPolicySpec =
  specTargetRef :: TargetRef
  specLatencyThreshold :: duration
  specEvaluationInterval :: duration
  specSelection :: SelectionPolicy
  specCircuitBreaker :: "CircuitBreakerSpec option"
  specDampening :: "DampeningSpec option"
  specLatencySource :: LatencySourceType
  specTargetPort :: "int32 option"

record PodLatencyInfo =
  infoName :: string
  infoPodIP :: string
  infoP50 :: duration
  infoP99 :: duration
  infoCircuitBroken :: bool

text \<open>\<open>metav1.Condition\<close>.\<close>

record Condition =
  condType :: string
  condStatus :: string
  condObservedGeneration :: int64
  condLastTransitionTime :: time
  condReason :: string
  condMessage :: string

record AviatorPolicyStatus =
  lastEvaluationTime :: time
  activePods :: int32
  totalPods :: int32
  averageLatencyMs :: int64
  p99LatencyMs :: int64
  circuitBrokenPods :: "string list"
  podLatencies :: "PodLatencyInfo list"
  conditions :: "Condition list"

record AviatorPolicy =
  polAPIVersion :: string
  polKind :: string
  polName :: string
  polNamespace :: string
  polUID :: string
  polGeneration :: int64
  polFinalizers :: "string list"
  polDeletionTimestamp :: "time option"
  polSpec :: AviatorPolicySpec
  polStatus :: AviatorPolicyStatus

subsection \<open>Kubernetes objects\<close>

text \<open>\<open>types.NamespacedName\<close> and its \<open>String\<close>, which keys the state the reconciler keeps per policy.\<close>

record NamespacedName =
  nnNamespace :: string
  nnName :: string

definition NamespacedName_String :: "NamespacedName \<Rightarrow> string" where
  "NamespacedName_String k = nnNamespace k @ ''/'' @ nnName k"

text \<open>A target port is a number or a name; \<open>IntVal\<close> of a name is zero.\<close>

datatype IntOrString = IntPort int32 | StringPort string

fun IntVal :: "IntOrString \<Rightarrow> int32" where
  "IntVal (IntPort p) = p"
| "IntVal (StringPort n) = 0"

record ServicePort =
  spName :: string
  spProtocol :: string
  spPort :: int32
  spTargetPort :: IntOrString

record Service =
  svcName :: string
  svcNamespace :: string
  svcSelector :: "string gomap"
  svcPorts :: "ServicePort list"

record Pod =
  podName :: string
  podPhase :: string
  podIP :: string
  podNodeName :: string
  podDeletionTimestamp :: "time option"

record Endpoint =
  epAddresses :: "string list"
  epReady :: "bool option"
  epTargetKind :: string
  epTargetName :: string
  epTargetNamespace :: string
  epNodeName :: "string option"

record EndpointPort =
  portName :: "string option"
  portNumber :: "int32 option"
  portProtocol :: "string option"

record OwnerReference =
  ownerAPIVersion :: string
  ownerKind :: string
  ownerName :: string
  ownerUID :: string
  ownerController :: "bool option"

record EndpointSlice =
  sliceName :: string
  sliceNamespace :: string
  sliceResourceVersion :: string
  sliceLabels :: "string gomap"
  sliceOwnerReferences :: "OwnerReference list"
  sliceAddressType :: string
  sliceEndpoints :: "Endpoint list"
  slicePorts :: "EndpointPort list"

abbreviation slice_key :: "EndpointSlice \<Rightarrow> NamespacedName" where
  "slice_key s \<equiv> \<lparr>nnNamespace = sliceNamespace s, nnName = sliceName s\<rparr>"

text \<open>Names of objects have no slash, so the string of a key determines the key.\<close>

lemma takeWhile_slash: "CHR ''/'' \<notin> set xs \<Longrightarrow> takeWhile (\<lambda>c. c \<noteq> CHR ''/'') (xs @ CHR ''/'' # ys) = xs"
  by (induction xs) auto

lemma NamespacedName_String_inject:
  assumes "CHR ''/'' \<notin> set (nnNamespace j)" and "CHR ''/'' \<notin> set (nnNamespace k)"
    and "NamespacedName_String j = NamespacedName_String (k :: NamespacedName)"
  shows "j = k"
proof -
  have "nnNamespace j @ CHR ''/'' # nnName j = nnNamespace k @ CHR ''/'' # nnName k"
    using assms(3) by (simp add: NamespacedName_String_def)
  moreover from arg_cong [OF this, of "takeWhile (\<lambda>c. c \<noteq> CHR ''/'')"]
  have "nnNamespace j = nnNamespace k" using assms(1,2) by (simp add: takeWhile_slash)
  ultimately show ?thesis by simp
qed

subsection \<open>The API client\<close>

text \<open>
  \<open>client.Client\<close> of controller-runtime, a parameter of the model: the calls the controller makes, each
  a function of the world outside. A successful \<open>Update\<close> hands back the object the server stored,
  which overwrites the caller's.
\<close>

record 'w Client =
  getPolicy :: "NamespacedName \<Rightarrow> 'w \<Rightarrow> (go_error + AviatorPolicy) \<times> 'w"
  updatePolicy :: "AviatorPolicy \<Rightarrow> 'w \<Rightarrow> (go_error + AviatorPolicy) \<times> 'w"
  updatePolicyStatus :: "AviatorPolicy \<Rightarrow> 'w \<Rightarrow> (go_error + AviatorPolicy) \<times> 'w"
  getService :: "NamespacedName \<Rightarrow> 'w \<Rightarrow> (go_error + Service) \<times> 'w"
  listPods :: "string \<Rightarrow> string gomap \<Rightarrow> 'w \<Rightarrow> (go_error + Pod list) \<times> 'w"
  getSlice :: "NamespacedName \<Rightarrow> 'w \<Rightarrow> (go_error + EndpointSlice) \<times> 'w"
  createSlice :: "EndpointSlice \<Rightarrow> 'w \<Rightarrow> go_error option \<times> 'w"
  updateSlice :: "EndpointSlice \<Rightarrow> 'w \<Rightarrow> go_error option \<times> 'w"
  deleteSlice :: "NamespacedName \<Rightarrow> 'w \<Rightarrow> go_error option \<times> 'w"

end
