(* ===== verification/Endpoint_Slice.thy ===== *)
theory Endpoint_Slice
  imports Api_Types
begin

section \<open>The EndpointSlice manager\<close>

text \<open>
  \<open>internal/endpointslice/manager.go\<close>: the slice \<open>aviator-\<close>\<^emph>\<open>service\<close> that routes the traffic of a service
  to the selected pods is created, replaced or deleted through the API client.
\<close>

subsection \<open>The code\<close>

definition ManagedByLabel :: string where "ManagedByLabel = ''endpointslice.kubernetes.io/managed-by''"
definition ManagedByValue :: string where "ManagedByValue = ''aviator-controller''"
definition ServiceNameLabel :: string where "ServiceNameLabel = ''kubernetes.io/service-name''"
definition PolicyNameLabel :: string where "PolicyNameLabel = ''aviator.io/policy-name''"

record PodEndpoint =
  pePodName :: string
  pePodIP :: string
  peNodeName :: string
  peReady :: bool

definition slice_name :: "string \<Rightarrow> string" where
  "slice_name serviceName = ''aviator-'' @ serviceName"

definition build_endpoint :: "Service \<Rightarrow> PodEndpoint \<Rightarrow> Endpoint" where
  "build_endpoint service pod = \<lparr>epAddresses = [pePodIP pod], epReady = Some (peReady pod),
     epTargetKind = ''Pod'', epTargetName = pePodName pod, epTargetNamespace = svcNamespace service,
     epNodeName = (if peNodeName pod \<noteq> '''' then Some (peNodeName pod) else None)\<rparr>"

definition build_port :: "ServicePort \<Rightarrow> EndpointPort" where
  "build_port sp =
     (let port = IntVal (spTargetPort sp);
          port = (if port = 0 then spPort sp else port)
      in \<lparr>portName = Some (spName sp), portNumber = Some port, portProtocol = Some (spProtocol sp)\<rparr>)"

text \<open>The literal sets neither \<open>Controller\<close> nor \<open>BlockOwnerDeletion\<close>.\<close>

definition owner_reference :: "AviatorPolicy \<Rightarrow> OwnerReference" where
  "owner_reference policy = \<lparr>ownerAPIVersion = polAPIVersion policy, ownerKind = polKind policy,
     ownerName = polName policy, ownerUID = polUID policy, ownerController = None\<rparr>"

definition buildEndpointSlice :: "string \<Rightarrow> AviatorPolicy \<Rightarrow> Service \<Rightarrow> PodEndpoint list \<Rightarrow> EndpointSlice" where
  "buildEndpointSlice name policy service pods = \<lparr>
     sliceName = name,
     sliceNamespace = svcNamespace service,
     sliceResourceVersion = '''',
     sliceLabels = [(ManagedByLabel, ManagedByValue), (ServiceNameLabel, svcName service),
                    (PolicyNameLabel, polName policy)],
     sliceOwnerReferences = [owner_reference policy],
     sliceAddressType = ''IPv4'',
     sliceEndpoints = map (build_endpoint service) pods,
     slicePorts = map build_port (svcPorts service)\<rparr>"

definition Manager_Reconcile ::
  "'w Client \<Rightarrow> AviatorPolicy \<Rightarrow> Service \<Rightarrow> PodEndpoint list \<Rightarrow> ('w world, go_error option) state" where
  "Manager_Reconcile client policy service selectedPods = do {
     let desired = buildEndpointSlice (slice_name (svcName service)) policy service selectedPods;
     r \<leftarrow> call_out (getSlice client \<lparr>nnNamespace = svcNamespace service, nnName = slice_name (svcName service)\<rparr>);
     (case r of
        Inl err \<Rightarrow>
          (if is_not_found err then call_out (createSlice client desired)
           else ret (Some (Wrap ''getting EndpointSlice'' err)))
      | Inr existing \<Rightarrow>
          call_out (updateSlice client (existing\<lparr>sliceEndpoints := sliceEndpoints desired,
            slicePorts := slicePorts desired, sliceLabels := sliceLabels desired\<rparr>)))
   }"

definition Manager_Cleanup :: "'w Client \<Rightarrow> string \<Rightarrow> string \<Rightarrow> ('w world, go_error option) state" where
  "Manager_Cleanup client namespace serviceName = do {
     err \<leftarrow> call_out (deleteSlice client \<lparr>nnNamespace = namespace, nnName = slice_name serviceName\<rparr>);
     (case err of
        Some e \<Rightarrow> (if is_not_found e then ret None else ret (Some e))
      | None \<Rightarrow> ret None)
   }"

subsection \<open>What the API promises\<close>

text \<open>
  The slices that the server keeps, as a map, and what the documented client does to it, as far as the manager
  relies on it. The client of controller-runtime reads from a cache and writes to the server, so a slice that is
  read may be an older version of the one that is kept, and one that is not found may be there; but a slice
  read with the resource version of the one that is kept is that one. A creation succeeds only if there is
  no such slice, and the update of a slice that was read only if the server still keeps the version that was
  read. A write that succeeds stores the slice under its key (the server sets the resource version), one that
  fails has either done so or nothing; a deletion that succeeds removes the slice, as does nothing else.
\<close>

definition same_content :: "EndpointSlice \<Rightarrow> EndpointSlice \<Rightarrow> bool" where
  "same_content s t \<longleftrightarrow> s\<lparr>sliceResourceVersion := ''''\<rparr> = t\<lparr>sliceResourceVersion := ''''\<rparr>"

text \<open>
  The key and the content of the slice that routes a service; the owners are those of the slice that was
  there before, if one was.
\<close>

abbreviation routed :: "Service \<Rightarrow> NamespacedName" where
  "routed service \<equiv> \<lparr>nnNamespace = svcNamespace service, nnName = slice_name (svcName service)\<rparr>"

definition routes :: "AviatorPolicy \<Rightarrow> Service \<Rightarrow> PodEndpoint list \<Rightarrow> EndpointSlice option \<Rightarrow> EndpointSlice \<Rightarrow> bool" where
  "routes policy service eps old t \<longleftrightarrow> slice_key t = routed service
     \<and> sliceEndpoints t = map (build_endpoint service) eps \<and> slicePorts t = map build_port (svcPorts service)
     \<and> sliceLabels t = [(ManagedByLabel, ManagedByValue), (ServiceNameLabel, svcName service),
          (PolicyNameLabel, polName policy)]
     \<and> sliceOwnerReferences t = (case old of None \<Rightarrow> [owner_reference policy] | Some t0 \<Rightarrow> sliceOwnerReferences t0)"

lemma routes_content:
  assumes "same_content s t" and "routes policy service eps old s"
  shows "routes policy service eps old t"
proof -
  have "s\<lparr>sliceResourceVersion := ''''\<rparr> = t\<lparr>sliceResourceVersion := ''''\<rparr>"
    using assms(1) by (simp add: same_content_def)
  then show ?thesis using assms(2) by (cases s; cases t) (simp add: routes_def)
qed

abbreviation stored :: "EndpointSlice \<Rightarrow> (NamespacedName \<Rightarrow> EndpointSlice option) \<Rightarrow> (NamespacedName \<Rightarrow> EndpointSlice option) \<Rightarrow> bool" where
  "stored s m m' \<equiv> \<exists>t. same_content s t \<and> m' = m(slice_key s \<mapsto> t)"

text \<open>The server keeps the version of the slice that \<open>s\<close> was made from.\<close>

abbreviation current :: "EndpointSlice \<Rightarrow> (NamespacedName \<Rightarrow> EndpointSlice option) \<Rightarrow> bool" where
  "current s m \<equiv> \<exists>t. m (slice_key s) = Some t \<and> sliceResourceVersion t = sliceResourceVersion s"

locale slice_store =
  fixes client :: "'w Client" and slices :: "'w \<Rightarrow> NamespacedName \<Rightarrow> EndpointSlice option"
  assumes get_found: "getSlice client k w = (Inr s, w') \<Longrightarrow> slice_key s = k \<and> sliceResourceVersion s \<noteq> ''''"
    and get_version: "getSlice client k w = (Inr s, w') \<Longrightarrow> slices w k = Some t \<Longrightarrow>
      sliceResourceVersion t = sliceResourceVersion s \<Longrightarrow> t = s"
    and get_keeps: "getSlice client k w = (r, w') \<Longrightarrow> slices w' = slices w"
    and create_ok: "createSlice client s w = (None, w') \<Longrightarrow>
      slices w (slice_key s) = None \<and> stored s (slices w) (slices w')"
    and create_failed: "createSlice client s w = (Some e, w') \<Longrightarrow>
      slices w' = slices w \<or> slices w (slice_key s) = None \<and> stored s (slices w) (slices w')"
    and update_ok: "updateSlice client s w = (None, w') \<Longrightarrow> sliceResourceVersion s \<noteq> '''' \<Longrightarrow>
      current s (slices w) \<and> stored s (slices w) (slices w')"
    and update_failed: "updateSlice client s w = (Some e, w') \<Longrightarrow> sliceResourceVersion s \<noteq> '''' \<Longrightarrow>
      slices w' = slices w \<or> current s (slices w) \<and> stored s (slices w) (slices w')"
    and delete_ok: "deleteSlice client k w = (None, w') \<Longrightarrow> slices w' = (slices w)(k := None)"
    and delete_missing: "deleteSlice client k w = (Some e, w') \<Longrightarrow> is_not_found e \<Longrightarrow>
      slices w k = None \<and> slices w' = slices w"
    and delete_failed: "deleteSlice client k w = (Some e, w') \<Longrightarrow>
      slices w' = slices w \<or> slices w' = (slices w)(k := None)"
begin

text \<open>A write of content that routes the service, successful or not: if it was carried out, the guard held.\<close>

lemma write_stored:
  assumes "guard \<Longrightarrow> routes policy service eps (slices w (slice_key d)) d"
    and "err = None \<Longrightarrow> guard \<and> stored d (slices w) (slices w')"
    and "\<And>e. err = Some e \<Longrightarrow> slices w' = slices w \<or> guard \<and> stored d (slices w) (slices w')"
  shows "(err = None \<longrightarrow> (\<exists>t. routes policy service eps (slices w (slice_key d)) t \<and> slices w' = (slices w)(slice_key d \<mapsto> t)))
    \<and> (slices w' = slices w \<or> (\<exists>t. routes policy service eps (slices w (slice_key d)) t \<and> slices w' = (slices w)(slice_key d \<mapsto> t)))"
proof -
  have "\<exists>t. routes policy service eps (slices w (slice_key d)) t \<and> slices w' = (slices w)(slice_key d \<mapsto> t)"
    if "guard" "stored d (slices w) (slices w')"
    using that assms(1) routes_content by blast
  with assms(2,3) show ?thesis by (cases err) blast+
qed

text \<open>Whatever version was read, only the one that is kept is replaced.\<close>

lemma update_routes:
  assumes "getSlice client (routed service) w = (Inr old, w1)"
    and "u = old\<lparr>sliceEndpoints := map (build_endpoint service) eps, slicePorts := map build_port (svcPorts service),
      sliceLabels := [(ManagedByLabel, ManagedByValue), (ServiceNameLabel, svcName service), (PolicyNameLabel, polName policy)]\<rparr>"
    and "current u (slices w1)"
  shows "routes policy service eps (slices w1 (slice_key u)) u"
proof -
  have old: "slice_key old = routed service" using get_found [OF assms(1)] by blast
  then have u: "slice_key u = routed service" unfolding assms(2) by simp
  then obtain t where t: "slices w1 (routed service) = Some t" "sliceResourceVersion t = sliceResourceVersion old"
    using assms(3) unfolding assms(2) by auto
  have "slices w (routed service) = Some t" using t(1) get_keeps [OF assms(1)] by simp
  from get_version [OF assms(1) this t(2)] t(1) u show ?thesis unfolding u assms(2) routes_def by simp
qed

lemma reconcile_store:
  assumes "run_state (Manager_Reconcile client policy service eps) s = (err, s')"
  shows "clock s' = clock s" and "choice s' = choice s"
    and "err = None \<Longrightarrow> \<exists>t. routes policy service eps (slices (outside s) (routed service)) t
      \<and> slices (outside s') = (slices (outside s))(routed service \<mapsto> t)"
    and "slices (outside s') = slices (outside s) \<or> (\<exists>t. routes policy service eps (slices (outside s) (routed service)) t
      \<and> slices (outside s') = (slices (outside s))(routed service \<mapsto> t))"
proof -
  let ?k = "routed service"
  let ?d = "buildEndpointSlice (slice_name (svcName service)) policy service eps"
  obtain r w1 where get: "getSlice client ?k (outside s) = (r, w1)" by fastforce
  have keep: "slices w1 = slices (outside s)" by (rule get_keeps [OF get])
  have main: "clock s' = clock s \<and> choice s' = choice s
    \<and> (err = None \<longrightarrow> (\<exists>t. routes policy service eps (slices (outside s) ?k) t \<and> slices (outside s') = (slices (outside s))(?k \<mapsto> t)))
    \<and> (slices (outside s') = slices (outside s) \<or> (\<exists>t. routes policy service eps (slices (outside s) ?k) t
        \<and> slices (outside s') = (slices (outside s))(?k \<mapsto> t)))"
  proof (cases r)
    case (Inl e)
    show ?thesis
    proof (cases "is_not_found e")
      case True
      obtain w2 where create: "createSlice client ?d w1 = (err, w2)" and s': "s' = s\<lparr>outside := w2\<rparr>"
        using assms get Inl True by (cases "createSlice client ?d w1") (auto simp: Manager_Reconcile_def Let_def)
      have key: "slice_key ?d = ?k" by (simp add: buildEndpointSlice_def)
      have "slices w1 (slice_key ?d) = None \<Longrightarrow> routes policy service eps (slices w1 (slice_key ?d)) ?d"
        by (simp add: routes_def buildEndpointSlice_def)
      from write_stored [where err = err and w' = w2, OF this] create_ok [of ?d w1 w2] create_failed [of ?d w1 _ w2] create
      show ?thesis unfolding key keep s' by simp
    next
      case False
      with assms get Inl keep show ?thesis by (auto simp: Manager_Reconcile_def Let_def)
    qed
  next
    case (Inr old)
    let ?u = "old\<lparr>sliceEndpoints := sliceEndpoints ?d, slicePorts := slicePorts ?d, sliceLabels := sliceLabels ?d\<rparr>"
    have old: "slice_key ?u = ?k" "sliceResourceVersion ?u \<noteq> ''''" using get_found get Inr by simp_all
    have "current ?u (slices w1) \<Longrightarrow> routes policy service eps (slices w1 (slice_key ?u)) ?u"
      by (rule update_routes [OF get [unfolded Inr]]) (simp_all add: buildEndpointSlice_def)
    note written = write_stored [OF this]
    obtain w2 where update: "updateSlice client ?u w1 = (err, w2)" and s': "s' = s\<lparr>outside := w2\<rparr>"
      using assms get Inr by (cases "updateSlice client ?u w1") (auto simp: Manager_Reconcile_def Let_def)
    show ?thesis
      using written [where err = err and w' = w2] update_ok [of ?u w1 w2, OF _ old(2)] update_failed [of ?u w1 _ w2, OF _ old(2)] update
      unfolding old(1) keep s' by simp
  qed
  then show "clock s' = clock s" and "choice s' = choice s"
    and "err = None \<Longrightarrow> \<exists>t. routes policy service eps (slices (outside s) (routed service)) t
      \<and> slices (outside s') = (slices (outside s))(?k \<mapsto> t)"
    and "slices (outside s') = slices (outside s) \<or> (\<exists>t. routes policy service eps (slices (outside s) (routed service)) t
      \<and> slices (outside s') = (slices (outside s))(?k \<mapsto> t))" by blast+
qed

lemma cleanup_store:
  assumes "run_state (Manager_Cleanup client namespace name) s = (err, s')"
  defines "k \<equiv> \<lparr>nnNamespace = namespace, nnName = slice_name name\<rparr>"
  shows "clock s' = clock s" and "choice s' = choice s"
    and "err = None \<Longrightarrow> slices (outside s') = (slices (outside s))(k := None)"
    and "slices (outside s') = slices (outside s) \<or> slices (outside s') = (slices (outside s))(k := None)"
proof -
  obtain r w1 where del: "deleteSlice client k (outside s) = (r, w1)" by fastforce
  then have s': "s' = s\<lparr>outside := w1\<rparr>" and err: "err = (case r of Some e \<Rightarrow> if is_not_found e then None else Some e | None \<Rightarrow> None)"
    using assms(1) unfolding k_def by (auto simp: Manager_Cleanup_def split: option.splits if_splits)
  show "clock s' = clock s" and "choice s' = choice s" using s' by simp_all
  show "slices (outside s') = slices (outside s) \<or> slices (outside s') = (slices (outside s))(k := None)"
    using del delete_ok delete_failed s' by (cases r) auto
  show "slices (outside s') = (slices (outside s))(k := None)" if "err = None"
  proof (cases r)
    case None
    with del delete_ok s' show ?thesis by simp
  next
    case (Some e)
    with that err have "is_not_found e" by (auto split: if_splits)
    with delete_missing del Some have "slices (outside s) k = None" "slices w1 = slices (outside s)" by blast+
    with s' show ?thesis by (simp add: fun_upd_idem)
  qed
qed

end

end
