(* ===== verification/Reconciler.thy ===== *)
theory Reconciler
  imports Circuit_Breaker Aggregator Dampening Source_Interface Endpoint_Slice
begin

section \<open>The reconciler\<close>

text \<open>
  \<open>internal/controller/aviatorpolicy_controller.go\<close>: one evaluation of one policy, from reading the
  policy to writing its status. The API client, the latency source and the four library functions
  on finalizers and conditions are parameters; the breakers and dampeners of the policies are the
  state the reconciler keeps between evaluations. A result \<open>None\<close> is a panic.
\<close>

subsection \<open>Data\<close>

definition finalizerName :: string where "finalizerName = ''aviator.io/finalizer''"
definition defaultPercentage :: int32 where "defaultPercentage = 50"
definition maxStatusPodEntries :: nat where "maxStatusPodEntries = 10"

text \<open>\<open>controllerutil\<close> and \<open>meta.SetStatusCondition\<close>, as functions on the lists they change.\<close>

record k8s_lib =
  containsFinalizer :: "string list \<Rightarrow> string \<Rightarrow> bool"
  addFinalizer :: "string list \<Rightarrow> string \<Rightarrow> string list"
  removeFinalizer :: "string list \<Rightarrow> string \<Rightarrow> string list"
  setStatusCondition :: "Condition list \<Rightarrow> Condition \<Rightarrow> Condition list"

record 'w Reconciler =
  recClient :: "'w Client"
  recLib :: k8s_lib
  recSource :: "'w Source"
  recSlices :: "'w Client"
  breakers :: "Breaker gomap"
  dampeners :: "DampeningState gomap"

definition NewReconciler :: "'w Client \<Rightarrow> k8s_lib \<Rightarrow> 'w Source \<Rightarrow> 'w Client \<Rightarrow> 'w Reconciler" where
  "NewReconciler c lib source esManager = \<lparr>recClient = c, recLib = lib, recSource = source,
     recSlices = esManager, breakers = [], dampeners = []\<rparr>"

record Result =
  RequeueAfter :: duration

type_synonym 'w outcome = "'w Reconciler \<times> Result \<times> go_error option"

abbreviation no_requeue :: Result where
  "no_requeue \<equiv> \<lparr>RequeueAfter = 0\<rparr>"

subsection \<open>Helpers\<close>

definition getEvaluationInterval :: "AviatorPolicy \<Rightarrow> duration" where
  "getEvaluationInterval policy =
     (if specEvaluationInterval (polSpec policy) > 0 then specEvaluationInterval (polSpec policy) else 5 * second)"

definition getOrCreateBreaker :: "AviatorPolicy \<Rightarrow> string \<Rightarrow> 'w Reconciler \<Rightarrow> Breaker option \<times> 'w Reconciler" where
  "getOrCreateBreaker policy key rec = (case specCircuitBreaker (polSpec policy) of
     None \<Rightarrow> (None, rec)
   | Some cb \<Rightarrow>
       (if \<not> cbEnabled cb then (None, rec)
        else (case map_of (breakers rec) key of
          Some b \<Rightarrow> (Some b, rec)
        | None \<Rightarrow>
            (let b = NewBreaker \<lparr>cfgP99Threshold = cbP99Threshold cb,
               cfgConsecutiveViolations = cbConsecutiveViolations cb, cfgRecoveryInterval = cbRecoveryInterval cb\<rparr>
             in (Some b, rec\<lparr>breakers := AList.update key b (breakers rec)\<rparr>)))))"

definition getOrCreateDampener :: "string \<Rightarrow> 'w Reconciler \<Rightarrow> DampeningState \<times> 'w Reconciler" where
  "getOrCreateDampener key rec = (case map_of (dampeners rec) key of
     Some d \<Rightarrow> (d, rec)
   | None \<Rightarrow> (NewDampeningState, rec\<lparr>dampeners := AList.update key NewDampeningState (dampeners rec)\<rparr>))"

definition setCondition ::
  "k8s_lib \<Rightarrow> AviatorPolicy \<Rightarrow> string \<Rightarrow> string \<Rightarrow> string \<Rightarrow> string \<Rightarrow> ('w world, AviatorPolicy) state" where
  "setCondition lib policy typ status reason message = do {
     t \<leftarrow> now;
     ret (policy\<lparr>polStatus := (polStatus policy)\<lparr>conditions := setStatusCondition lib (conditions (polStatus policy))
       \<lparr>condType = typ, condStatus = status, condObservedGeneration = polGeneration policy,
        condLastTransitionTime = t, condReason = reason, condMessage = message\<rparr>\<rparr>\<rparr>)
   }"

text \<open>\<open>r.Status().Update(ctx, &policy)\<close> with its error ignored: a success overwrites \<open>policy\<close>.\<close>

definition push_status :: "'w Client \<Rightarrow> AviatorPolicy \<Rightarrow> ('w world, AviatorPolicy) state" where
  "push_status client policy = do {
     r \<leftarrow> call_out (updatePolicyStatus client policy);
     ret (case r of Inl e \<Rightarrow> policy | Inr p \<Rightarrow> p)
   }"

text \<open>The three branches that report \<open>Ready=False\<close> and come back after the interval.\<close>

definition give_up :: "'w Reconciler \<Rightarrow> AviatorPolicy \<Rightarrow> string \<Rightarrow> string \<Rightarrow> ('w world, 'w outcome option) state" where
  "give_up rec policy reason message = do {
     policy \<leftarrow> setCondition (recLib rec) policy ''Ready'' ''False'' reason message;
     policy \<leftarrow> push_status (recClient rec) policy;
     ret (Some (rec, \<lparr>RequeueAfter = getEvaluationInterval policy\<rparr>, None))
   }"

definition getPodsForService :: "'w Client \<Rightarrow> Service \<Rightarrow> ('w world, go_error + Pod list) state" where
  "getPodsForService client service = do {
     r \<leftarrow> call_out (listPods client (svcNamespace service) (svcSelector service));
     ret (map_sum id (filter (\<lambda>pod. podPhase pod = ''Running'' \<and> podDeletionTimestamp pod = None)) r)
   }"

definition selectPods :: "AviatorPolicy \<Rightarrow> PodRanking list \<Rightarrow> PodRanking list option" where
  "selectPods policy ranked =
     (let sel = specSelection (polSpec policy);
          pct = (case selPercentage sel of Some p \<Rightarrow> p | None \<Rightarrow> defaultPercentage)
      in if ranked = [] then Some ranked
         else if selMode sel = SelectionModeTopN then
           (let n = (case selTopN sel of Some n \<Rightarrow> n | None \<Rightarrow> 3) in SelectTopN ranked (go_conv n))
         else if selMode sel = SelectionModePercentage then SelectTopPercent ranked (go_conv pct)
         else if selMode sel = SelectionModeThreshold then
           Some (SelectByThreshold ranked (specLatencyThreshold (polSpec policy)))
         else SelectTopPercent ranked (go_conv pct))"

subsection \<open>The steps of an evaluation\<close>

text \<open>Step 6: the pods with an IP, keyed by it, and the IPs in order.\<close>

definition collect_pods :: "Pod list \<Rightarrow> Pod gomap \<times> string list" where
  "collect_pods podList = fold (\<lambda>pod (podIPMap, podIPs).
     if podIP pod \<noteq> '''' then (AList.update (podIP pod) pod podIPMap, podIPs @ [podIP pod])
     else (podIPMap, podIPs)) podList ([], [])"

text \<open>Step 8, before ranking: the measured pods, in the order the map is visited.\<close>

definition build_rankings :: "Pod gomap \<Rightarrow> (string \<times> Stats) list \<Rightarrow> PodRanking list" where
  "build_rankings podIPMap entries = List.map_filter (\<lambda>(ip, stats).
     map_option (\<lambda>pod. \<lparr>rankPodName = podName pod, rankPodIP = ip, rankStats = stats\<rparr>) (map_of podIPMap ip)) entries"

text \<open>Step 9: the circuit breaker. The breaker is written back where the code changes it in place.\<close>

definition drop_ejected :: "Breaker \<Rightarrow> PodRanking list \<Rightarrow> PodRanking list" where
  "drop_ejected b rankings =
     (let healthy = filter (\<lambda>r. \<not> IsEjected b (rankPodIP r)) rankings
      in if healthy \<noteq> [] then healthy else rankings)"

definition break_circuits ::
  "AviatorPolicy \<Rightarrow> string \<Rightarrow> PodRanking list \<Rightarrow> 'w Reconciler
     \<Rightarrow> ('w world, PodRanking list \<times> Breaker option \<times> 'w Reconciler) state" where
  "break_circuits policy key rankings rec = (case getOrCreateBreaker policy key rec of
     (None, rec) \<Rightarrow> ret (rankings, None, rec)
   | (Some b, rec) \<Rightarrow> do {
       (b, transitioned) \<leftarrow> CheckRecovery b;
       b \<leftarrow> for_each rankings (\<lambda>r. RecordLatency (rankPodIP r) (rankP99 r)) b;
       ret (drop_ejected b rankings, Some b, rec\<lparr>breakers := AList.update key b (breakers rec)\<rparr>)
     })"

text \<open>Step 11: whether the selection goes through.\<close>

definition dampen :: "AviatorPolicy \<Rightarrow> string \<Rightarrow> string list \<Rightarrow> 'w Reconciler \<Rightarrow> bool \<times> 'w Reconciler" where
  "dampen policy key selectedIPs rec =
     (case getOrCreateDampener key rec of (d, rec) \<Rightarrow>
        (case specDampening (polSpec policy) of
           None \<Rightarrow> (True, rec)
         | Some sp \<Rightarrow>
             (if \<not> dampEnabled sp then (True, rec)
              else (case ShouldUpdate selectedIPs (go_conv (dampThresholdPercent sp))
                       (go_conv (dampConsecutiveIntervals sp)) d of
                (update, d) \<Rightarrow> (update, rec\<lparr>dampeners := AList.update key d (dampeners rec)\<rparr>)))))"

text \<open>Step 12.\<close>

definition pod_endpoint :: "Pod gomap \<Rightarrow> PodRanking \<Rightarrow> PodEndpoint" where
  "pod_endpoint podIPMap s = \<lparr>pePodName = rankPodName s, pePodIP = rankPodIP s,
     peNodeName = (case map_of podIPMap (rankPodIP s) of Some pod \<Rightarrow> podNodeName pod | None \<Rightarrow> ''''),
     peReady = True\<rparr>"

text \<open>Step 14.\<close>

definition pod_info :: "Breaker option \<Rightarrow> PodRanking \<Rightarrow> PodLatencyInfo" where
  "pod_info breaker r = \<lparr>infoName = rankPodName r, infoPodIP = rankPodIP r, infoP50 = P50 (rankStats r),
     infoP99 = P99 (rankStats r),
     infoCircuitBroken = (case breaker of Some b \<Rightarrow> IsEjected b (rankPodIP r) | None \<Rightarrow> False)\<rparr>"

definition updateStatus ::
  "AviatorPolicy \<Rightarrow> PodRanking list \<Rightarrow> PodRanking list \<Rightarrow> Breaker option \<Rightarrow> ('w world, AviatorPolicy option) state" where
  "updateStatus policy allRankings selected breaker = do {
     t \<leftarrow> now;
     let st = (polStatus policy)\<lparr>lastEvaluationTime := t, activePods := go_conv (go_len selected),
       totalPods := go_conv (go_len allRankings)\<rparr>;
     let st = (if allRankings = [] then Some st
       else (case ComputeFleetP99 allRankings of
          None \<Rightarrow> None
        | Some p99 \<Rightarrow> Some (st\<lparr>p99LatencyMs := milliseconds p99,
            averageLatencyMs := milliseconds (ComputeFleetAverage allRankings)\<rparr>)));
     let podInfos = map (pod_info breaker) (take maxStatusPodEntries allRankings);
     ejected \<leftarrow> (case breaker of Some b \<Rightarrow> GetEjectedPods b | None \<Rightarrow> ret []);
     ret (map_option (\<lambda>st. policy\<lparr>polStatus := st\<lparr>podLatencies := podInfos, circuitBrokenPods := ejected\<rparr>\<rparr>) st)
   }"

text \<open>Steps 12 to 14, once the selection goes through.\<close>

definition publish ::
  "'w Reconciler \<Rightarrow> AviatorPolicy \<Rightarrow> Service \<Rightarrow> Pod gomap \<Rightarrow> PodRanking list \<Rightarrow> PodRanking list \<Rightarrow> Breaker option
     \<Rightarrow> ('w world, 'w outcome option) state" where
  "publish rec policy service podIPMap rankings selected breaker = do {
     err \<leftarrow> Manager_Reconcile (recSlices rec) policy service (map (pod_endpoint podIPMap) selected);
     (case err of
        Some e \<Rightarrow> give_up rec policy ''EndpointSliceUpdateFailed'' (err_msg e)
      | None \<Rightarrow> do {
          p \<leftarrow> updateStatus policy rankings selected breaker;
          (case p of
             None \<Rightarrow> ret None
           | Some policy \<Rightarrow> do {
               policy \<leftarrow> setCondition (recLib rec) policy ''Ready'' ''True'' ''Reconciled'' ''Successfully updated routing'';
               policy \<leftarrow> push_status (recClient rec) policy;
               ret (Some (rec, \<lparr>RequeueAfter = getEvaluationInterval policy\<rparr>, None))
             })
        })
   }"

text \<open>Steps 8 to 14, on the measured latencies.\<close>

definition route ::
  "'w Reconciler \<Rightarrow> string \<Rightarrow> AviatorPolicy \<Rightarrow> Service \<Rightarrow> Pod gomap \<Rightarrow> latencies \<Rightarrow> ('w world, 'w outcome option) state" where
  "route rec key policy service podIPMap lat = do {
     entries \<leftarrow> range_map lat;
     rankings \<leftarrow> RankPods (build_rankings podIPMap entries);
     (rankings, breaker, rec) \<leftarrow> break_circuits policy key rankings rec;
     (case selectPods policy rankings of
        None \<Rightarrow> ret None
      | Some selected \<Rightarrow>
          (case dampen policy key (map rankPodIP selected) rec of (update, rec) \<Rightarrow>
             if \<not> update then ret (Some (rec, \<lparr>RequeueAfter = getEvaluationInterval policy\<rparr>, None))
             else publish rec policy service podIPMap rankings selected breaker))
   }"

text \<open>Steps 6 to 14, on the pods of the service.\<close>

definition evaluate ::
  "'w Reconciler \<Rightarrow> string \<Rightarrow> AviatorPolicy \<Rightarrow> Service \<Rightarrow> Pod list \<Rightarrow> ('w world, 'w outcome option) state" where
  "evaluate rec key policy service podList = (case collect_pods podList of (podIPMap, podIPs) \<Rightarrow> do {
     r \<leftarrow> sourceGetLatencies (recSource rec) podIPs;
     (case r of
        None \<Rightarrow> ret None
      | Some (Inl err) \<Rightarrow> give_up rec policy ''LatencyFetchFailed'' (err_msg err)
      | Some (Inr lat) \<Rightarrow> route rec key policy service podIPMap lat)
   })"

text \<open>Steps 4 and 5.\<close>

definition reconcile_service ::
  "'w Reconciler \<Rightarrow> NamespacedName \<Rightarrow> AviatorPolicy \<Rightarrow> ('w world, 'w outcome option) state" where
  "reconcile_service rec req policy = do {
     r \<leftarrow> call_out (getService (recClient rec)
            \<lparr>nnNamespace = nnNamespace req, nnName = refName (specTargetRef (polSpec policy))\<rparr>);
     (case r of
        Inl err \<Rightarrow>
          (if is_not_found err then do {
             policy \<leftarrow> setCondition (recLib rec) policy ''Ready'' ''False'' ''ServiceNotFound''
                        ''Target Service does not exist'';
             policy \<leftarrow> push_status (recClient rec) policy;
             ret (Some (rec, no_requeue, None))
           } else ret (Some (rec, no_requeue, Some err)))
      | Inr service \<Rightarrow> do {
          ps \<leftarrow> getPodsForService (recClient rec) service;
          (case ps of
             Inl err \<Rightarrow> ret (Some (rec, no_requeue, Some (Wrap ''listing pods'' err)))
           | Inr podList \<Rightarrow>
               (if podList = [] then give_up rec policy ''NoPodsFound'' ''No pods match the Service selector''
                else evaluate rec (NamespacedName_String req) policy service podList))
        })
   }"

definition handleDeletion :: "'w Reconciler \<Rightarrow> AviatorPolicy \<Rightarrow> ('w world, 'w outcome) state" where
  "handleDeletion rec policy =
     (if containsFinalizer (recLib rec) (polFinalizers policy) finalizerName then do {
        err \<leftarrow> Manager_Cleanup (recSlices rec) (polNamespace policy) (refName (specTargetRef (polSpec policy)));
        (case err of
           Some e \<Rightarrow> ret (rec, no_requeue, Some (Wrap ''cleaning up EndpointSlice'' e))
         | None \<Rightarrow> do {
             let key = NamespacedName_String \<lparr>nnNamespace = polNamespace policy, nnName = polName policy\<rparr>;
             let rec = rec\<lparr>breakers := AList.delete key (breakers rec), dampeners := AList.delete key (dampeners rec)\<rparr>;
             r \<leftarrow> call_out (updatePolicy (recClient rec)
                    (policy\<lparr>polFinalizers := removeFinalizer (recLib rec) (polFinalizers policy) finalizerName\<rparr>));
             (case r of
                Inl err \<Rightarrow> ret (rec, no_requeue, Some err)
              | Inr policy \<Rightarrow> ret (rec, no_requeue, None))
           })
      } else ret (rec, no_requeue, None))"

text \<open>Step 3.\<close>

definition ensure_finalizer :: "'w Reconciler \<Rightarrow> AviatorPolicy \<Rightarrow> ('w world, go_error + AviatorPolicy) state" where
  "ensure_finalizer rec policy =
     (if containsFinalizer (recLib rec) (polFinalizers policy) finalizerName then ret (Inr policy)
      else call_out (updatePolicy (recClient rec)
             (policy\<lparr>polFinalizers := addFinalizer (recLib rec) (polFinalizers policy) finalizerName\<rparr>)))"

definition Reconcile :: "'w Reconciler \<Rightarrow> NamespacedName \<Rightarrow> ('w world, 'w outcome option) state" where
  "Reconcile rec req = do {
     r \<leftarrow> call_out (getPolicy (recClient rec) req);
     (case r of
        Inl err \<Rightarrow> ret (Some (rec, no_requeue, if is_not_found err then None else Some err))
      | Inr policy \<Rightarrow>
          (if polDeletionTimestamp policy \<noteq> None then do {
             out \<leftarrow> handleDeletion rec policy;
             ret (Some out)
           } else do {
             r \<leftarrow> ensure_finalizer rec policy;
             (case r of
                Inl err \<Rightarrow> ret (Some (rec, no_requeue, Some err))
              | Inr policy \<Rightarrow> reconcile_service rec req policy)
           }))
   }"

end
