(* ===== verification/World_Effects.thy ===== *)
theory World_Effects
  imports Go_Prelude
begin

section \<open>What an operation leaves alone\<close>

text \<open>
  \<open>leaves v m\<close>: running \<open>m\<close> does not change the view \<open>v\<close> of the world outside the process. The rules
  follow the way operations are put together, so that a sequence of steps leaves alone whatever
  each of its steps does; they are collected in \<open>leaves_intros\<close>.
\<close>

named_theorems leaves_intros \<open>introduction rules for what an operation leaves alone\<close>

definition leaves :: "('w \<Rightarrow> 'v) \<Rightarrow> ('w world, 'a) state \<Rightarrow> bool" where
  "leaves v m \<longleftrightarrow> (\<forall>s. v (outside (snd (run_state m s))) = v (outside s))"

lemma leavesI: "(\<And>s r s'. run_state m s = (r, s') \<Longrightarrow> v (outside s') = v (outside s)) \<Longrightarrow> leaves v m"
  by (metis leaves_def prod.collapse)

lemma leavesD: "leaves v m \<Longrightarrow> run_state m s = (r, s') \<Longrightarrow> v (outside s') = v (outside s)"
  by (metis leaves_def snd_conv)

lemma leaves_ret [leaves_intros]: "leaves v (ret a)"
  by (simp add: leaves_def)

lemma leaves_bind [leaves_intros]:
  "leaves v m \<Longrightarrow> (\<And>a. leaves v (f a)) \<Longrightarrow> leaves v (State_Monad.bind m f)"
  by (simp add: leaves_def case_prod_beta)

lemma leaves_now [leaves_intros]: "leaves v now"
  by (simp add: leaves_def)

lemma leaves_time_since [leaves_intros]: "leaves v (time_since t)"
  by (simp add: leaves_def)

lemma leaves_range_map [leaves_intros]: "leaves v (range_map m)"
  by (simp add: leaves_def)

lemma leaves_sort_slice [leaves_intros]: "leaves v (sort_slice key xs)"
  by (simp add: leaves_def)

lemma leaves_call_out [leaves_intros]: "(\<And>w. v (snd (f w)) = v w) \<Longrightarrow> leaves v (call_out f)"
  by (simp add: leaves_def)

lemma leaves_for_each [leaves_intros]:
  "(\<And>x s. leaves v (f x s)) \<Longrightarrow> leaves v (for_each xs f s)"
  by (induction xs arbitrary: s) (auto intro: leaves_intros)

lemma leaves_if [leaves_intros]: "(b \<Longrightarrow> leaves v m) \<Longrightarrow> (\<not> b \<Longrightarrow> leaves v n) \<Longrightarrow> leaves v (if b then m else n)"
  by simp

lemma leaves_option [leaves_intros]:
  "leaves v m \<Longrightarrow> (\<And>a. leaves v (f a)) \<Longrightarrow> leaves v (case x of None \<Rightarrow> m | Some a \<Rightarrow> f a)"
  by (simp split: option.split)

lemma leaves_sum [leaves_intros]:
  "(\<And>a. leaves v (f a)) \<Longrightarrow> (\<And>b. leaves v (g b)) \<Longrightarrow> leaves v (case x of Inl a \<Rightarrow> f a | Inr b \<Rightarrow> g b)"
  by (simp split: sum.split)

lemma leaves_prod [leaves_intros]: "(\<And>a b. leaves v (f a b)) \<Longrightarrow> leaves v (case x of (a, b) \<Rightarrow> f a b)"
  by (simp split: prod.split)

end
