(* ===== verification/Reconciler_Steps.thy ===== *)
theory Reconciler_Steps
  imports Reconciler World_Effects
begin

section \<open>The steps of an evaluation, one by one\<close>

text \<open>
  What each step of the reconciler returns and what it does to the state the reconciler keeps and to
  the world; the properties of whole evaluations (\<open>Evaluation\<close>, \<open>Reconciler_Properties\<close>) put these facts together.
\<close>

subsection \<open>Pods and rankings\<close>

definition with_ip :: "Pod list \<Rightarrow> Pod list" where
  "with_ip = filter (\<lambda>p. podIP p \<noteq> '''')"

lemma collect_pods_snoc:
  "collect_pods (ps @ [p]) = (case collect_pods ps of (m, ips) \<Rightarrow>
     if podIP p \<noteq> '''' then (AList.update (podIP p) p m, ips @ [podIP p]) else (m, ips))"
  by (simp add: collect_pods_def)

lemma collect_pods_result:
  "collect_pods ps = (m, ips) \<Longrightarrow> wf_map m \<and> ips = map podIP (with_ip ps) \<and> dom (map_of m) = set ips
     \<and> (\<forall>ip pod. map_of m ip = Some pod \<longrightarrow> pod \<in> set ps \<and> podIP pod = ip \<and> ip \<noteq> '''')"
proof (induction ps arbitrary: m ips rule: rev_induct)
  case Nil
  then show ?case by (simp add: collect_pods_def with_ip_def)
next
  case (snoc p ps)
  obtain m0 ips0 where c: "collect_pods ps = (m0, ips0)" by fastforce
  from snoc.IH [OF c] have w: "wf_map m0" and i: "ips0 = map podIP (with_ip ps)" and d: "dom (map_of m0) = set ips0"
    and q: "\<And>ip pod. map_of m0 ip = Some pod \<Longrightarrow> pod \<in> set ps \<and> podIP pod = ip \<and> ip \<noteq> ''''" by blast+
  show ?case
  proof (cases "podIP p = ''''")
    case True
    with snoc.prems c have m: "m = m0" "ips = ips0" by (simp_all add: collect_pods_snoc)
    show ?thesis unfolding m using w i d q True by (auto simp: with_ip_def simp del: map_of_eq_Some_iff)
  next
    case False
    with snoc.prems c have m: "m = AList.update (podIP p) p m0" "ips = ips0 @ [podIP p]"
      by (simp_all add: collect_pods_snoc)
    have "dom (map_of m) = set ips" unfolding m using d by (auto simp: map_of_update dom_def)
    moreover have "map_of m ip = Some pod \<Longrightarrow> pod \<in> set (ps @ [p]) \<and> podIP pod = ip \<and> ip \<noteq> ''''" for ip pod
      unfolding m map_of_update using q [of ip pod] False by (auto split: if_splits)
    moreover have "ips = map podIP (with_ip (ps @ [p]))" unfolding m i using False by (simp add: with_ip_def)
    moreover have "wf_map m" unfolding m using w by simp
    ultimately show ?thesis by blast
  qed
qed

text \<open>The ranking of one measured pod.\<close>

abbreviation ranking_of :: "Pod \<Rightarrow> string \<Rightarrow> Stats \<Rightarrow> PodRanking" where
  "ranking_of pod ip st \<equiv> \<lparr>rankPodName = podName pod, rankPodIP = ip, rankStats = st\<rparr>"

lemma build_rankings_simps:
  "build_rankings m [] = []"
  "build_rankings m ((ip, st) # es) = (case map_of m ip of None \<Rightarrow> build_rankings m es
     | Some pod \<Rightarrow> ranking_of pod ip st # build_rankings m es)"
  by (simp_all add: build_rankings_def map_filter_simps split: option.split)

lemma build_rankings_mem:
  assumes "r \<in> set (build_rankings m es)"
  shows "(rankPodIP r, rankStats r) \<in> set es"
    and "\<exists>pod. map_of m (rankPodIP r) = Some pod \<and> rankPodName r = podName pod"
proof -
  have "(rankPodIP r, rankStats r) \<in> set es
    \<and> (\<exists>pod. map_of m (rankPodIP r) = Some pod \<and> rankPodName r = podName pod)"
    using assms
  proof (induction es)
    case (Cons e es)
    obtain ip st where e: "e = (ip, st)" by fastforce
    show ?case
    proof (cases "map_of m ip")
      case None
      with Cons.prems have "r \<in> set (build_rankings m es)" by (simp add: e build_rankings_simps)
      from Cons.IH [OF this] show ?thesis by (simp add: e)
    next
      case (Some pod)
      with Cons.prems have "r = ranking_of pod ip st \<or> r \<in> set (build_rankings m es)"
        by (simp add: e build_rankings_simps)
      then show ?thesis
      proof
        assume "r = ranking_of pod ip st"
        with Some show ?thesis by (simp add: e)
      next
        assume "r \<in> set (build_rankings m es)"
        from Cons.IH [OF this] show ?thesis by (simp add: e)
      qed
    qed
  qed (simp add: build_rankings_simps)
  then show "(rankPodIP r, rankStats r) \<in> set es"
    and "\<exists>pod. map_of m (rankPodIP r) = Some pod \<and> rankPodName r = podName pod" by simp_all
qed

lemma build_rankings_IPs:
  "map rankPodIP (build_rankings m es) = filter (\<lambda>ip. map_of m ip \<noteq> None) (map fst es)"
  by (induction es) (auto simp: build_rankings_simps split: option.splits)

lemma length_build_rankings: "length (build_rankings m es) \<le> length es"
  by (induction es) (auto simp: build_rankings_simps split: option.splits)

subsection \<open>Selection\<close>

text \<open>Whatever the policy says, the selection keeps the contract of a strategy.\<close>

interpretation selecting: selector "selectPods policy" rankP99
proof
  fix r :: "PodRanking list" assume r: "sorted (map rankP99 r)" "fleet_sized r" "r \<noteq> []"
  show "\<exists>k. 0 < k \<and> k \<le> length r \<and> selectPods policy r = Some (take k r)"
    using r top_n.sel_prefix [OF r] top_percent.sel_prefix [OF r] by_threshold.sel_prefix [OF r]
    by (simp add: selectPods_def Let_def)
qed

lemma selectPods_Nil [simp]: "selectPods policy [] = Some []"
  by (simp add: selectPods_def)

subsection \<open>The circuit breaker of a policy\<close>

definition breaker_config :: "AviatorPolicy \<Rightarrow> Config option" where
  "breaker_config policy = (case specCircuitBreaker (polSpec policy) of
     None \<Rightarrow> None
   | Some cb \<Rightarrow> if cbEnabled cb
       then Some \<lparr>cfgP99Threshold = cbP99Threshold cb, cfgConsecutiveViolations = cbConsecutiveViolations cb,
                  cfgRecoveryInterval = cbRecoveryInterval cb\<rparr>
       else None)"

text \<open>The breaker an evaluation starts from: the stored one, or else a new one.\<close>

definition breaker_before :: "Config \<Rightarrow> string \<Rightarrow> 'w Reconciler \<Rightarrow> Breaker" where
  "breaker_before cfg key rec = (case map_of (breakers rec) key of Some b \<Rightarrow> b | None \<Rightarrow> NewBreaker cfg)"

lemma getOrCreateBreaker_off: "breaker_config policy = None \<Longrightarrow> getOrCreateBreaker policy key rec = (None, rec)"
  by (auto simp: breaker_config_def getOrCreateBreaker_def split: option.splits if_splits)

lemma getOrCreateBreaker_on:
  assumes "breaker_config policy = Some cfg"
  obtains B where "getOrCreateBreaker policy key rec = (Some (breaker_before cfg key rec), rec\<lparr>breakers := B\<rparr>)"
    and "\<forall>b. map_of (AList.update key b B) = (map_of (breakers rec))(key \<mapsto> b)" and "wf_map (breakers rec) \<longrightarrow> wf_map B"
proof (cases "map_of (breakers rec) key")
  case None
  show ?thesis
    by (rule that [of "AList.update key (NewBreaker cfg) (breakers rec)"])
      (use assms None in \<open>auto simp: breaker_config_def getOrCreateBreaker_def breaker_before_def Let_def
         update_conv' split: option.splits if_splits\<close>)
next
  case (Some b)
  show ?thesis
    by (rule that [of "breakers rec"])
      (use assms Some in \<open>auto simp: breaker_config_def getOrCreateBreaker_def breaker_before_def
         update_conv' split: option.splits if_splits\<close>)
qed

lemma break_circuits_off:
  "breaker_config policy = None \<Longrightarrow> run_state (break_circuits policy key rankings rec) s = ((rankings, None, rec), s)"
  by (simp add: break_circuits_def getOrCreateBreaker_off)

abbreviation measure_all :: "PodRanking list \<Rightarrow> Breaker \<Rightarrow> ('x runtime_scheme, Breaker) state" where
  "measure_all rankings \<equiv> for_each rankings (\<lambda>r. RecordLatency (rankPodIP r) (rankP99 r))"

lemma break_circuits_on:
  assumes "breaker_config policy = Some cfg"
    and "run_state (break_circuits policy key rankings rec) s = ((rankings', br, rec'), s')"
  obtains b1 tr s1 b B where
    "run_state (CheckRecovery (breaker_before cfg key rec)) s = ((b1, tr), s1)"
    and "run_state (measure_all rankings b1) s1 = (b, s')"
    and "rankings' = drop_ejected b rankings" and "br = Some b" and "rec' = rec\<lparr>breakers := B\<rparr>"
    and "map_of B = (map_of (breakers rec))(key \<mapsto> b)" and "wf_map (breakers rec) \<longrightarrow> wf_map B"
proof -
  obtain B where B: "getOrCreateBreaker policy key rec = (Some (breaker_before cfg key rec), rec\<lparr>breakers := B\<rparr>)"
    "\<forall>b. map_of (AList.update key b B) = (map_of (breakers rec))(key \<mapsto> b)" "wf_map (breakers rec) \<longrightarrow> wf_map B"
    by (rule getOrCreateBreaker_on [OF assms(1), where key = key and rec = rec])
  obtain b1 tr s1 where c: "run_state (CheckRecovery (breaker_before cfg key rec)) s = ((b1, tr), s1)"
    by (metis prod.collapse)
  obtain b s2 where m: "run_state (measure_all rankings b1) s1 = (b, s2)" by fastforce
  show ?thesis
    by (rule that [OF c, of b "AList.update key b B"])
      (use assms(2) B c m in \<open>auto simp: break_circuits_def\<close>)
qed

lemma drop_ejected_simps:
  "set (drop_ejected b rs) \<subseteq> set rs"
  "sorted (map key rs) \<Longrightarrow> sorted (map key (drop_ejected b rs))"
  "distinct (map f rs) \<Longrightarrow> distinct (map f (drop_ejected b rs))"
  "length (drop_ejected b rs) \<le> length rs"
  "drop_ejected b rs = [] \<longleftrightarrow> rs = []"
  by (auto simp: drop_ejected_def Let_def sorted_filter distinct_map_filter)

text \<open>An ejected pod is kept only when every measured pod is ejected; nobody else is dropped.\<close>

lemma set_drop_ejected:
  "set (drop_ejected b rs) = (if \<forall>r\<in>set rs. IsEjected b (rankPodIP r) then set rs
     else {r \<in> set rs. \<not> IsEjected b (rankPodIP r)})"
  by (auto simp: drop_ejected_def Let_def filter_empty_conv)

subsection \<open>The state kept per policy\<close>

definition rec_inv :: "'w Reconciler \<Rightarrow> bool" where
  "rec_inv rec \<longleftrightarrow> wf_map (breakers rec) \<and> wf_map (dampeners rec)
     \<and> (\<forall>key b. map_of (breakers rec) key = Some b \<longrightarrow> breaker_inv b)"

lemma breaker_inv_New: "breaker_inv (NewBreaker cfg)"
  by (simp add: breaker_inv_def NewBreaker_def)

lemma breaker_inv_before: "rec_inv rec \<Longrightarrow> breaker_inv (breaker_before cfg key rec)"
  by (auto simp: rec_inv_def breaker_before_def breaker_inv_New split: option.split simp del: map_of_eq_Some_iff)

lemma measure_all_config: "run_state (measure_all rankings b) s = (b', s') \<Longrightarrow> same_config b b'"
  by (rule for_each_invariant [where P = "\<lambda>b' s. same_config b b'"])
    (auto simp: same_config_def dest: RecordLatency_same_config)

text \<open>One round of the breaker: recovery and then the measurements.\<close>

lemma round_result:
  assumes "run_state (CheckRecovery b) s = ((b1, tr), s1)" and "run_state (measure_all rankings b1) s1 = (b', s')"
    and "breaker_inv b"
  shows "breaker_inv b'" and "same_config b b'"
    and "(\<And>r. r \<in> set rankings \<Longrightarrow> rankPodIP r = ip \<Longrightarrow> rankP99 r \<le> p99Threshold b) \<Longrightarrow> IsEjected b' ip \<Longrightarrow> IsEjected b ip"
proof -
  show "breaker_inv b'" using breaker.round_inv [OF assms] by blast
  show "same_config b b'"
    using CheckRecovery_inv [OF assms(1,3)] measure_all_config [OF assms(2)] by (simp add: same_config_def)
  show "(\<And>r. r \<in> set rankings \<Longrightarrow> rankPodIP r = ip \<Longrightarrow> rankP99 r \<le> p99Threshold b) \<Longrightarrow> IsEjected b' ip \<Longrightarrow> IsEjected b ip"
    by (rule breaker.round_keeps_good [OF assms])
qed

lemma break_circuits_inv:
  assumes "run_state (break_circuits policy key rankings rec) s = ((rankings', br, rec'), s')" and "rec_inv rec"
  shows "rec_inv rec'"
proof (cases "breaker_config policy")
  case None
  with assms show ?thesis by (simp add: break_circuits_off)
next
  case (Some cfg)
  obtain b1 tr s1 b B where r: "run_state (CheckRecovery (breaker_before cfg key rec)) s = ((b1, tr), s1)"
    "run_state (measure_all rankings b1) s1 = (b, s')" "rankings' = drop_ejected b rankings" "br = Some b"
    "rec' = rec\<lparr>breakers := B\<rparr>"
    "map_of B = (map_of (breakers rec))(key \<mapsto> b)" "wf_map (breakers rec) \<longrightarrow> wf_map B"
    by (rule break_circuits_on [OF Some assms(1)])
  have "breaker_inv b" by (rule round_result(1) [OF r(1,2) breaker_inv_before [OF assms(2)]])
  then show ?thesis
    using assms(2) r(5-7) by (auto simp: rec_inv_def simp del: map_of_eq_Some_iff)
qed

lemma dampen_result:
  assumes "dampen policy key ips rec = (update, rec')"
  obtains D where "rec' = rec\<lparr>dampeners := D\<rparr>" and "wf_map (dampeners rec) \<longrightarrow> wf_map D"
proof -
  have same: "rec\<lparr>dampeners := dampeners rec\<rparr> = rec" by simp
  show ?thesis
  proof (cases "map_of (dampeners rec) key")
    case None
    with assms show ?thesis
      by (auto simp: dampen_def getOrCreateDampener_def Let_def split: option.splits if_splits prod.splits intro!: that)
  next
    case (Some d)
    show ?thesis
    proof (cases "\<exists>sp. specDampening (polSpec policy) = Some sp \<and> dampEnabled sp")
      case True
      with assms Some obtain d' where "rec' = rec\<lparr>dampeners := AList.update key d' (dampeners rec)\<rparr>"
        by (auto simp: dampen_def getOrCreateDampener_def split: prod.splits)
      then show ?thesis by (rule that) simp
    next
      case False
      with assms Some have "rec' = rec"
        by (auto simp: dampen_def getOrCreateDampener_def split: option.splits)
      with same show ?thesis by (intro that [of "dampeners rec"]) simp_all
    qed
  qed
qed

lemma dampen_inv: "dampen policy key ips rec = (update, rec') \<Longrightarrow> rec_inv rec \<Longrightarrow> rec_inv rec'"
  by (erule dampen_result) (simp add: rec_inv_def)

subsection \<open>Effects on the world\<close>

lemma leaves_CheckRecovery [leaves_intros]: "leaves v (CheckRecovery b)"
  unfolding CheckRecovery_def check_one_def by (intro leaves_intros)

lemma leaves_RecordLatency [leaves_intros]: "leaves v (RecordLatency ip p99 b)"
  unfolding RecordLatency_def observe_def Let_def by (auto intro!: leaves_intros split: cb_state.split)

lemma leaves_break_circuits [leaves_intros]: "leaves v (break_circuits policy key rankings rec)"
  unfolding break_circuits_def by (intro leaves_intros)

lemma leaves_setCondition [leaves_intros]: "leaves v (setCondition lib policy typ status reason message)"
  unfolding setCondition_def by (intro leaves_intros)

lemma leaves_updateStatus [leaves_intros]: "leaves v (updateStatus policy rankings selected br)"
  unfolding updateStatus_def GetEjectedPods_def Let_def by (intro leaves_intros)

text \<open>
  The rest of the API keeps the view \<open>v\<close>: reading objects and writing policies does not touch, say,
  the slices.
\<close>

definition other_calls_leave :: "('w \<Rightarrow> 'v) \<Rightarrow> 'w Client \<Rightarrow> bool" where
  "other_calls_leave v c \<longleftrightarrow> (\<forall>k w. v (snd (getPolicy c k w)) = v w) \<and> (\<forall>p w. v (snd (updatePolicy c p w)) = v w)
     \<and> (\<forall>p w. v (snd (updatePolicyStatus c p w)) = v w) \<and> (\<forall>k w. v (snd (getService c k w)) = v w)
     \<and> (\<forall>ns sel w. v (snd (listPods c ns sel w)) = v w)"

lemma leaves_push_status [leaves_intros]: "other_calls_leave v c \<Longrightarrow> leaves v (push_status c policy)"
  unfolding push_status_def by (auto intro!: leaves_intros simp: other_calls_leave_def)

lemma leaves_give_up [leaves_intros]: "other_calls_leave v (recClient rec) \<Longrightarrow> leaves v (give_up rec policy reason message)"
  unfolding give_up_def by (intro leaves_intros)

lemma leaves_getPodsForService [leaves_intros]: "other_calls_leave v c \<Longrightarrow> leaves v (getPodsForService c service)"
  unfolding getPodsForService_def by (auto intro!: leaves_intros simp: other_calls_leave_def)

lemma leaves_ensure_finalizer [leaves_intros]:
  "other_calls_leave v (recClient rec) \<Longrightarrow> leaves v (ensure_finalizer rec policy)"
  unfolding ensure_finalizer_def by (auto intro!: leaves_intros simp: other_calls_leave_def)

end
