(* ===== verification/Evaluation.thy ===== *)
theory Evaluation
  imports Reconciler_Steps
begin

section \<open>Whole evaluations\<close>

text \<open>
  What an evaluation of a policy does to the slices of the cluster and to the state kept per policy.
  The API is a parameter: \<open>slice_store\<close> and \<open>other_calls_leave\<close> say what is relied on, and the latency
  source is any one that keeps the contract \<open>latency_source\<close>.
\<close>

subsection \<open>From the measurements to the selection\<close>

definition measured :: "Pod gomap \<Rightarrow> latencies \<Rightarrow> string set" where
  "measured m lat = dom (map_of m) \<inter> dom (map_of lat)"

text \<open>A list of rankings that holds each measured pod once, with its measurement and name.\<close>

definition is_ranking :: "Pod gomap \<Rightarrow> latencies \<Rightarrow> PodRanking list \<Rightarrow> bool" where
  "is_ranking m lat rs \<longleftrightarrow> sorted (map rankP99 rs) \<and> distinct (map rankPodIP rs) \<and> rankPodIP ` set rs = measured m lat
     \<and> (\<forall>r\<in>set rs. map_of lat (rankPodIP r) = Some (rankStats r)
          \<and> (\<exists>pod. map_of m (rankPodIP r) = Some pod \<and> rankPodName r = podName pod))"

lemma is_rankingI:
  assumes "wf_map es" and "mset es = mset lat" and "mset rs = mset (build_rankings m es)" and "sorted (map rankP99 rs)"
  shows "is_ranking m lat rs"
proof -
  have wf: "wf_map lat"
    using assms(1,2) by (metis mset_eq_imp_distinct_iff mset_map)
  have es: "set es = set lat" by (metis assms(2) set_mset_mset)
  have rs: "set rs = set (build_rankings m es)" by (metis assms(3) set_mset_mset)
  have ips: "mset (map rankPodIP rs) = mset (filter (\<lambda>ip. map_of m ip \<noteq> None) (map fst es))"
    by (metis assms(3) build_rankings_IPs mset_map)
  have "distinct (map rankPodIP rs)" using mset_eq_imp_distinct_iff [OF ips] assms(1) by simp
  moreover have "rankPodIP ` set rs = measured m lat"
  proof -
    have "rankPodIP ` set rs = set (filter (\<lambda>ip. map_of m ip \<noteq> None) (map fst es))"
      using ips by (metis set_map set_mset_mset)
    also have "\<dots> = measured m lat"
      unfolding measured_def dom_map_of_conv_image_fst [of lat] es [symmetric] by auto
    finally show ?thesis .
  qed
  moreover have "map_of lat (rankPodIP r) = Some (rankStats r)
      \<and> (\<exists>pod. map_of m (rankPodIP r) = Some pod \<and> rankPodName r = podName pod)" if "r \<in> set rs" for r
    using build_rankings_mem [of r m es] that rs es map_of_SomeD_wf [OF wf] by simp
  ultimately show ?thesis using assms(4) by (simp add: is_ranking_def)
qed

lemma length_ranking:
  assumes "is_ranking m lat rs" and "collect_pods ps = (m, ips)"
  shows "length rs \<le> length ps"
proof -
  have "set (map rankPodIP rs) \<subseteq> set ips"
    using assms(1) collect_pods_result [OF assms(2)] by (auto simp: is_ranking_def measured_def)
  then have "card (set (map rankPodIP rs)) \<le> length ips" by (meson List.finite_set card_length card_mono le_trans)
  moreover have "card (set (map rankPodIP rs)) = length rs"
    using assms(1) by (metis distinct_card is_ranking_def length_map)
  moreover have "length ips \<le> length ps" using collect_pods_result [OF assms(2)] by (simp add: with_ip_def)
  ultimately show ?thesis by simp
qed

lemma length_kept: "is_ranking m lat rs \<Longrightarrow> collect_pods ps = (m, ips) \<Longrightarrow> fleet_sized ps \<Longrightarrow> fleet_sized rs"
  using length_ranking by fastforce

text \<open>
  The pods the selection chooses from: those not ejected by the breaker the evaluation leaves behind,
  or all measured ones when it has ejected every one of them.
\<close>

definition ejected_by :: "AviatorPolicy \<Rightarrow> string \<Rightarrow> 'w Reconciler \<Rightarrow> string \<Rightarrow> bool" where
  "ejected_by policy key rec ip \<longleftrightarrow> breaker_config policy \<noteq> None
     \<and> (case map_of (breakers rec) key of Some b \<Rightarrow> IsEjected b ip | None \<Rightarrow> False)"

definition candidates :: "(string \<Rightarrow> bool) \<Rightarrow> string set \<Rightarrow> string set" where
  "candidates ejected ips = (if \<forall>ip\<in>ips. ejected ip then ips else {ip \<in> ips. \<not> ejected ip})"

lemma break_circuits_candidates:
  assumes "run_state (break_circuits policy key rankings rec) s = ((rankings', br, rec'), s')"
  shows "set rankings' \<subseteq> set rankings" and "sorted (map f rankings) \<Longrightarrow> sorted (map f rankings')"
    and "distinct (map g rankings) \<Longrightarrow> distinct (map g rankings')" and "length rankings' \<le> length rankings"
    and "rankPodIP ` set rankings' = candidates (ejected_by policy key rec') (rankPodIP ` set rankings)"
    and "rec' = rec\<lparr>breakers := breakers rec'\<rparr>" and "br \<noteq> None \<Longrightarrow> map_of (breakers rec') key = br"
proof -
  have "set rankings' \<subseteq> set rankings \<and> (sorted (map f rankings) \<longrightarrow> sorted (map f rankings'))
    \<and> (distinct (map g rankings) \<longrightarrow> distinct (map g rankings')) \<and> length rankings' \<le> length rankings
    \<and> rankPodIP ` set rankings' = candidates (ejected_by policy key rec') (rankPodIP ` set rankings)
    \<and> rec' = rec\<lparr>breakers := breakers rec'\<rparr> \<and> (br \<noteq> None \<longrightarrow> map_of (breakers rec') key = br)"
  proof (cases "breaker_config policy")
    case None
    with assms show ?thesis by (auto simp: break_circuits_off candidates_def ejected_by_def)
  next
    case (Some cfg)
    obtain b1 tr s1 b B where r: "rankings' = drop_ejected b rankings" "br = Some b" "rec' = rec\<lparr>breakers := B\<rparr>"
      "map_of B = (map_of (breakers rec))(key \<mapsto> b)"
      by (rule break_circuits_on [OF Some assms]) blast
    have "rankPodIP ` set rankings' = candidates (IsEjected b) (rankPodIP ` set rankings)"
      unfolding r(1) set_drop_ejected candidates_def by auto
    moreover have "ejected_by policy key rec' = IsEjected b"
      using Some r(3,4) by (simp add: ejected_by_def fun_eq_iff)
    ultimately show ?thesis using r by (simp add: drop_ejected_simps)
  qed
  then show "set rankings' \<subseteq> set rankings" and "sorted (map f rankings) \<Longrightarrow> sorted (map f rankings')"
    and "distinct (map g rankings) \<Longrightarrow> distinct (map g rankings')" and "length rankings' \<le> length rankings"
    and "rankPodIP ` set rankings' = candidates (ejected_by policy key rec') (rankPodIP ` set rankings)"
    and "rec' = rec\<lparr>breakers := breakers rec'\<rparr>" and "br \<noteq> None \<Longrightarrow> map_of (breakers rec') key = br" by blast+
qed

definition ranked :: "Pod gomap \<Rightarrow> latencies \<Rightarrow> ('w world, PodRanking list) state" where
  "ranked m lat = do { entries \<leftarrow> range_map lat; RankPods (build_rankings m entries) }"

lemma ranked_result:
  assumes "wf_map lat"
  obtains rankings s' where "run_state (ranked m lat) s = (rankings, s')" and "is_ranking m lat rankings"
    and "clock s' = clock s" and "outside s' = outside s"
proof -
  let ?es = "permute (choice s 0) lat"
  let ?rs = "sort_key rankP99 (permute (choice s 1) (build_rankings m ?es))"
  have "is_ranking m lat ?rs" by (rule is_rankingI [of ?es]) (use assms in simp_all)
  then show thesis by (rule that [rotated]) (simp_all add: ranked_def RankPods_def)
qed

text \<open>The stages of \<open>route\<close>: ranking, breaker, selection, and then dampening and the rest.\<close>

lemma route_stages:
  assumes "run_state (route rec key policy service m lat) s = (out, s')" and "wf_map lat"
    and "collect_pods ps = (m, ips)" and "fleet_sized ps"
  obtains rankings s0 rankings' br rec1 s1 selected update rec2 where
    "is_ranking m lat rankings" and "clock s0 = clock s" and "outside s0 = outside s"
    and "run_state (break_circuits policy key rankings rec) s0 = ((rankings', br, rec1), s1)"
    and "outside s1 = outside s"
    and "selectPods policy rankings' = Some selected"
    and "dampen policy key (map rankPodIP selected) rec1 = (update, rec2)"
    and "if update then run_state (publish rec2 policy service m rankings' selected br) s1 = (out, s')
         else out = Some (rec2, \<lparr>RequeueAfter = getEvaluationInterval policy\<rparr>, None) \<and> s' = s1"
proof -
  obtain rankings s0 where r: "run_state (ranked m lat) s = (rankings, s0)" "is_ranking m lat rankings"
    "clock s0 = clock s" "outside s0 = outside s" by (rule ranked_result [OF assms(2)])
  obtain rankings' br rec1 s1 where b: "run_state (break_circuits policy key rankings rec) s0 = ((rankings', br, rec1), s1)"
    by (metis prod.collapse)
  have out: "outside s1 = outside s"
    using leavesD [OF leaves_break_circuits [where v = "\<lambda>w. w"] b] r(4) by simp
  have sorted: "sorted (map rankP99 rankings')" and "fleet_sized rankings'"
    using r(2) break_circuits_candidates(2,4) [OF b] length_kept [OF r(2) assms(3,4)]
    by (auto simp: is_ranking_def)
  then obtain selected where sel: "selectPods policy rankings' = Some selected"
    using selecting.sel_prefix [of "rankings'" policy] by (cases "rankings' = []") auto
  obtain update rec2 where d: "dampen policy key (map rankPodIP selected) rec1 = (update, rec2)" by fastforce
  show ?thesis
    by (rule that [OF r(2-4) b out sel d])
      (use assms(1) r(1) b sel d in \<open>auto simp: route_def ranked_def split: prod.splits\<close>)
qed

text \<open>What \<open>publish\<close> does to the slices.\<close>

lemma publish_slices:
  assumes "slice_store (recSlices rec) slices" and "other_calls_leave slices (recClient rec)"
    and "run_state (publish rec policy service m rankings selected br) s = (out, s')"
  shows "slices (outside s') = slices (outside s)
    \<or> (\<exists>t. routes policy service (map (pod_endpoint m) selected) (slices (outside s) (routed service)) t
          \<and> slices (outside s') = (slices (outside s))(routed service \<mapsto> t))"
proof -
  obtain err s1 where r: "run_state (Manager_Reconcile (recSlices rec) policy service (map (pod_endpoint m) selected)) s
      = (err, s1)" by fastforce
  let ?rest = "case err of
        Some e \<Rightarrow> give_up rec policy ''EndpointSliceUpdateFailed'' (err_msg e)
      | None \<Rightarrow> do {
          p \<leftarrow> updateStatus policy rankings selected br;
          (case p of
             None \<Rightarrow> ret None
           | Some policy \<Rightarrow> do {
               policy \<leftarrow> setCondition (recLib rec) policy ''Ready'' ''True'' ''Reconciled'' ''Successfully updated routing'';
               policy \<leftarrow> push_status (recClient rec) policy;
               ret (Some (rec, \<lparr>RequeueAfter = getEvaluationInterval policy\<rparr>, None))
             })
        }"
  have "leaves slices ?rest" by (intro leaves_intros assms(2))
  moreover have "run_state ?rest s1 = (out, s')" using assms(3) r by (simp add: publish_def)
  ultimately have "slices (outside s') = slices (outside s1)" by (rule leavesD)
  with slice_store.reconcile_store(4) [OF assms(1) r] show ?thesis by simp
qed

text \<open>What every way out of an evaluation returns.\<close>

definition requeued :: "'w Reconciler \<Rightarrow> 'w outcome \<Rightarrow> bool" where
  "requeued rec out \<longleftrightarrow> (\<exists>p. out = (rec, \<lparr>RequeueAfter = getEvaluationInterval p\<rparr>, None))"

lemma getEvaluationInterval_pos: "0 < getEvaluationInterval p"
  by (simp add: getEvaluationInterval_def less_go_int_def go_eval)

lemma give_up_requeues: "run_state (give_up rec policy reason message) s = (out, s') \<Longrightarrow> \<exists>x. out = Some x \<and> requeued rec x"
  by (auto simp: give_up_def requeued_def setCondition_def push_status_def)

lemma updateStatus_Some:
  assumes "fleet_sized rankings"
  shows "\<exists>p. fst (run_state (updateStatus policy rankings selected br) s) = Some p"
proof (cases "rankings = []")
  case False
  then have "0 < length rankings" by simp
  then obtain p99 where "ComputeFleetP99 rankings = Some p99"
    using ComputeFleetP99_nth [of rankings] assms False by auto
  then show ?thesis by (simp add: updateStatus_def Let_def split: prod.split)
qed (simp add: updateStatus_def Let_def split: prod.split)

lemma publish_requeues:
  assumes "run_state (publish rec policy service m rankings selected br) s = (out, s')"
    and "fleet_sized rankings"
  shows "\<exists>x. out = Some x \<and> requeued rec x"
proof -
  obtain err s1 where r: "run_state (Manager_Reconcile (recSlices rec) policy service (map (pod_endpoint m) selected)) s
      = (err, s1)" by fastforce
  show ?thesis
  proof (cases err)
    case (Some e)
    with assms(1) r have "run_state (give_up rec policy ''EndpointSliceUpdateFailed'' (err_msg e)) s1 = (out, s')"
      by (simp add: publish_def)
    then show ?thesis by (rule give_up_requeues)
  next
    case None
    obtain p s2 where "run_state (updateStatus policy rankings selected br) s1 = (Some p, s2)"
      using updateStatus_Some [OF assms(2), of policy selected br s1] by (metis prod.collapse)
    with assms(1) r None show ?thesis
      by (auto simp: publish_def requeued_def setCondition_def push_status_def)
  qed
qed

text \<open>A sound selection among the candidates: measured, distinct, nonempty if possible, the fastest.\<close>

definition sound_pick :: "Pod gomap \<Rightarrow> latencies \<Rightarrow> string set \<Rightarrow> PodRanking list \<Rightarrow> bool" where
  "sound_pick m lat cand sel \<longleftrightarrow>
     rankPodIP ` set sel \<subseteq> cand \<and> distinct (map rankPodIP sel) \<and> (cand \<noteq> {} \<longrightarrow> sel \<noteq> [])
     \<and> (\<forall>r\<in>set sel. map_of lat (rankPodIP r) = Some (rankStats r)
        \<and> (\<exists>pod. map_of m (rankPodIP r) = Some pod \<and> rankPodName r = podName pod)
        \<and> (\<forall>ip st. ip \<in> cand - rankPodIP ` set sel \<longrightarrow> map_of lat ip = Some st \<longrightarrow> rankP99 r \<le> P99 st))"

text \<open>What a routing step that returns has selected, and that it goes on to publish it or not.\<close>

lemma route_picks:
  assumes "collect_pods podList = (m, ips)" and "fleet_sized podList" and "wf_map lat"
    and "run_state (route rec key policy service m lat) s = (Some (rec', res, err), s')"
  obtains sel update rankings' br rec1 s1 where "outside s1 = outside s"
    and "recSlices rec' = recSlices rec" and "recClient rec' = recClient rec" and "fleet_sized rankings'"
    and "dampen policy key (map rankPodIP sel) rec1 = (update, rec')" and "dampeners rec1 = dampeners rec"
    and "if update then run_state (publish rec' policy service m rankings' sel br) s1 = (Some (rec', res, err), s')
         else res = \<lparr>RequeueAfter = getEvaluationInterval policy\<rparr> \<and> err = None \<and> s' = s1"
    and "sound_pick m lat (candidates (ejected_by policy key rec') (measured m lat)) sel"
proof -
  let ?cand = "candidates (ejected_by policy key rec') (measured m lat)"
  obtain rankings s0 rankings' br rec1 s1 sel update rec2 where
    r: "is_ranking m lat rankings" "outside s1 = outside s"
      "run_state (break_circuits policy key rankings rec) s0 = ((rankings', br, rec1), s1)"
      "selectPods policy rankings' = Some sel" "dampen policy key (map rankPodIP sel) rec1 = (update, rec2)"
      "if update then run_state (publish rec2 policy service m rankings' sel br) s1 = (Some (rec', res, err), s')
       else Some (rec', res, err) = Some (rec2, \<lparr>RequeueAfter = getEvaluationInterval policy\<rparr>, None) \<and> s' = s1"
    by (rule route_stages [OF assms(4,3,1,2)])
  note b = break_circuits_candidates [OF r(3)]
  obtain D where rec2: "rec2 = rec1\<lparr>dampeners := D\<rparr>" by (rule dampen_result [OF r(5)])
  have rec1: "recSlices rec1 = recSlices rec" "recClient rec1 = recClient rec" "dampeners rec1 = dampeners rec"
    by (subst b(6), simp)+
  with rec2 have clients: "recSlices rec2 = recSlices rec" "recClient rec2 = recClient rec" by simp_all
  have sized: "fleet_sized rankings'" using b(4) length_kept [OF r(1) assms(1,2)] by simp
  have rec': "rec' = rec2"
    using r(6) publish_requeues [OF _ sized] by (cases update) (fastforce simp: requeued_def)+
  then have "ejected_by policy key rec' = ejected_by policy key rec1" by (simp add: ejected_by_def rec2 fun_eq_iff)
  then have cand: "rankPodIP ` set rankings' = ?cand" using b(5) r(1) by (simp add: is_ranking_def)
  have sorted: "sorted (map rankP99 rankings')" and dist: "distinct (map rankPodIP rankings')"
    using r(1) b(2,3) by (auto simp: is_ranking_def)
  obtain rest where rest: "rankings' = sel @ rest" "rankings' \<noteq> [] \<longrightarrow> sel \<noteq> []"
  proof (cases "rankings' = []")
    case True
    with r(4) show ?thesis by (intro that [of "[]"]) simp_all
  next
    case False
    from selecting.selected [OF sorted sized this] obtain s t where
      "selectPods policy rankings' = Some s" "rankings' = s @ t" "s \<noteq> []" by metis
    with r(4) show ?thesis by (intro that [of t]) simp_all
  qed
  have stats: "map_of lat (rankPodIP x) = Some (rankStats x)" if "x \<in> set rankings'" for x
    using that b(1) r(1) by (auto simp: is_ranking_def)
  have "rankP99 x \<le> P99 st" if x: "x \<in> set sel" and ip: "ip \<in> ?cand - rankPodIP ` set sel" "map_of lat ip = Some st" for x ip st
  proof -
    obtain y where y: "y \<in> set rest" "rankPodIP y = ip" using ip(1) cand rest(1) by auto
    then have "rankStats y = st" using stats [of y] rest(1) ip(2) by simp
    moreover have "rankP99 x \<le> rankP99 y" using sorted x y(1) by (simp add: rest(1) sorted_append)
    ultimately show ?thesis by simp
  qed
  moreover have "rankPodIP ` set sel \<subseteq> ?cand" "distinct (map rankPodIP sel)" "?cand \<noteq> {} \<longrightarrow> sel \<noteq> []"
    using cand dist rest by auto
  moreover have "map_of lat (rankPodIP x) = Some (rankStats x)
      \<and> (\<exists>pod. map_of m (rankPodIP x) = Some pod \<and> rankPodName x = podName pod)" if "x \<in> set sel" for x
    using that b(1) r(1) rest(1) by (auto simp: is_ranking_def)
  ultimately have "sound_pick m lat ?cand sel" unfolding sound_pick_def by blast
  moreover have "if update then run_state (publish rec' policy service m rankings' sel br) s1 = (Some (rec', res, err), s')
      else res = \<lparr>RequeueAfter = getEvaluationInterval policy\<rparr> \<and> err = None \<and> s' = s1"
    using r(6) rec' by (cases update) simp_all
  ultimately show ?thesis
    using that [of s1 rankings' sel rec1 update br] r(2,5) clients rec1(3) sized unfolding rec' by blast
qed

lemma route_selection:
  assumes "slice_store (recSlices rec) slices" and "other_calls_leave slices (recClient rec)"
    and "collect_pods podList = (m, ips)" and "fleet_sized podList" and "wf_map lat"
    and "run_state (route rec key policy service m lat) s = (Some (rec', res, err), s')"
    and "slices (outside s') \<noteq> slices (outside s)"
  defines "cand \<equiv> candidates (ejected_by policy key rec') (measured m lat)"
  shows "\<exists>sel t. slices (outside s') = (slices (outside s))(routed service \<mapsto> t)
    \<and> routes policy service (map (pod_endpoint m) sel) (slices (outside s) (routed service)) t
    \<and> rankPodIP ` set sel \<subseteq> cand \<and> distinct (map rankPodIP sel) \<and> (cand \<noteq> {} \<longrightarrow> sel \<noteq> [])
    \<and> (\<forall>r\<in>set sel. map_of lat (rankPodIP r) = Some (rankStats r)
        \<and> (\<exists>pod. map_of m (rankPodIP r) = Some pod \<and> rankPodName r = podName pod)
        \<and> (\<forall>ip st. ip \<in> cand - rankPodIP ` set sel \<longrightarrow> map_of lat ip = Some st \<longrightarrow> rankP99 r \<le> P99 st))"
proof -
  obtain sel update rankings' br rec1 s1 where p: "outside s1 = outside s"
    "recSlices rec' = recSlices rec" "recClient rec' = recClient rec"
    "if update then run_state (publish rec' policy service m rankings' sel br) s1 = (Some (rec', res, err), s')
     else res = \<lparr>RequeueAfter = getEvaluationInterval policy\<rparr> \<and> err = None \<and> s' = s1"
    "sound_pick m lat cand sel"
    unfolding cand_def by (rule route_picks [OF assms(3-6)])
  have pub: "run_state (publish rec' policy service m rankings' sel br) s1 = (Some (rec', res, err), s')"
    using p(1,4) assms(7) by (auto split: if_splits)
  have "slices (outside s') = slices (outside s1)
    \<or> (\<exists>t. routes policy service (map (pod_endpoint m) sel) (slices (outside s1) (routed service)) t
          \<and> slices (outside s') = (slices (outside s1))(routed service \<mapsto> t))"
    by (rule publish_slices [OF _ _ pub]) (simp_all add: p(2,3) assms(1,2))
  then show ?thesis using p(1,5) assms(7) unfolding sound_pick_def by auto
qed

subsection \<open>From the policy to the outcome\<close>

text \<open>Only the state kept per policy changes; a breaker that is kept keeps its configuration.\<close>

definition evolves :: "'w Reconciler \<Rightarrow> 'w Reconciler \<Rightarrow> bool" where
  "evolves rec rec' \<longleftrightarrow> rec' = rec\<lparr>breakers := breakers rec', dampeners := dampeners rec'\<rparr>
     \<and> (rec_inv rec \<longrightarrow> rec_inv rec' \<and> (\<forall>key b b'. map_of (breakers rec) key = Some b \<longrightarrow>
          map_of (breakers rec') key = Some b' \<longrightarrow> same_config b b'))"

lemma evolves_refl [simp]: "evolves rec rec"
  by (simp add: evolves_def)

lemma break_circuits_config:
  assumes "run_state (break_circuits policy key rankings rec) s = ((rankings', br, rec'), s')" and "rec_inv rec"
    and "map_of (breakers rec) k = Some b" and "map_of (breakers rec') k = Some b'"
  shows "same_config b b'"
proof (cases "breaker_config policy")
  case None
  with assms show ?thesis by (simp add: break_circuits_off)
next
  case (Some cfg)
  obtain b1 tr s1 b2 B where r: "run_state (CheckRecovery (breaker_before cfg key rec)) s = ((b1, tr), s1)"
    "run_state (measure_all rankings b1) s1 = (b2, s')" "rankings' = drop_ejected b2 rankings" "br = Some b2"
    "rec' = rec\<lparr>breakers := B\<rparr>" "map_of B = (map_of (breakers rec))(key \<mapsto> b2)"
    "wf_map (breakers rec) \<longrightarrow> wf_map B"
    by (rule break_circuits_on [OF Some assms(1)])
  have "same_config (breaker_before cfg key rec) b2"
    by (rule round_result(2) [OF r(1,2) breaker_inv_before [OF assms(2)]])
  with assms(3,4) r(5,6) show ?thesis
    by (auto simp: breaker_before_def split: if_splits simp del: map_of_eq_Some_iff)
qed

lemma route_outcome:
  assumes "run_state (route rec key policy service m lat) s = (out, s')" and "wf_map lat"
    and "collect_pods ps = (m, ips)" and "fleet_sized ps"
  obtains rec' x where "out = Some x" and "requeued rec' x" and "evolves rec rec'"
proof -
  obtain rankings s0 rankings' br rec1 s1 sel update rec2 where
    r: "is_ranking m lat rankings" "run_state (break_circuits policy key rankings rec) s0 = ((rankings', br, rec1), s1)"
      "dampen policy key (map rankPodIP sel) rec1 = (update, rec2)"
      "if update then run_state (publish rec2 policy service m rankings' sel br) s1 = (out, s')
       else out = Some (rec2, \<lparr>RequeueAfter = getEvaluationInterval policy\<rparr>, None) \<and> s' = s1"
    by (rule route_stages [OF assms])
  have sized: "fleet_sized rankings'"
    using break_circuits_candidates(4) [OF r(2)] length_kept [OF r(1) assms(3,4)] by simp
  obtain D where D: "rec2 = rec1\<lparr>dampeners := D\<rparr>" by (rule dampen_result [OF r(3)])
  moreover have "rec1 = rec\<lparr>breakers := breakers rec1\<rparr>" by (rule break_circuits_candidates(6) [OF r(2)])
  ultimately have "rec2 = rec\<lparr>breakers := breakers rec2, dampeners := dampeners rec2\<rparr>"
    by (cases rec; cases rec1) simp
  then have "evolves rec rec2"
    using break_circuits_inv [OF r(2)] dampen_inv [OF r(3)] break_circuits_config [OF r(2)] D
    by (simp add: evolves_def del: map_of_eq_Some_iff)
  moreover have "\<exists>x. out = Some x \<and> requeued rec2 x"
    using r(4) publish_requeues [of rec2 policy service m rankings' sel br s1 out s'] sized
    by (cases update) (auto simp: requeued_def)
  ultimately show ?thesis using that by blast
qed

lemma evaluate_outcome:
  assumes "run_state (evaluate rec key policy service ps) s = (out, s')"
    and "latency_source (sourceGetLatencies (recSource rec))" and "fleet_sized ps"
  obtains rec' x where "out = Some x" and "requeued rec' x" and "evolves rec rec'"
proof -
  obtain m ips where c: "collect_pods ps = (m, ips)" by fastforce
  show ?thesis
  proof (cases rule: latency_source.outcome [OF assms(2), of ips s])
    case (1 e s1)
    then have "run_state (give_up rec policy ''LatencyFetchFailed'' (err_msg e)) s1 = (out, s')"
      using assms(1) c by (simp add: evaluate_def)
    from give_up_requeues [OF this] show ?thesis using that evolves_refl by blast
  next
    case (2 lat s1)
    then have "run_state (route rec key policy service m lat) s1 = (out, s')"
      using assms(1) c by (simp add: evaluate_def)
    from route_outcome [OF this 2(3) c assms(3)] show ?thesis using that by blast
  qed
qed

definition service_key :: "NamespacedName \<Rightarrow> AviatorPolicy \<Rightarrow> NamespacedName" where
  "service_key req policy = \<lparr>nnNamespace = nnNamespace req, nnName = refName (specTargetRef (polSpec policy))\<rparr>"

definition running :: "Pod \<Rightarrow> bool" where
  "running pod \<longleftrightarrow> podPhase pod = ''Running'' \<and> podDeletionTimestamp pod = None"

text \<open>The ways through steps 4 to 14.\<close>

lemma reconcile_service_cases:
  assumes "run_state (reconcile_service rec req policy) s = (out, s')"
  obtains (no_service) e w1 p where "getService (recClient rec) (service_key req policy) (outside s) = (Inl e, w1)"
      "out = Some (rec, no_requeue, if is_not_found e then None else Some e)"
      "if is_not_found e then run_state (setCondition (recLib rec) policy ''Ready'' ''False'' ''ServiceNotFound''
           ''Target Service does not exist'' \<bind> push_status (recClient rec)) (s\<lparr>outside := w1\<rparr>) = (p, s')
         else s' = s\<lparr>outside := w1\<rparr>"
  | (no_list) service w1 e w2 where "getService (recClient rec) (service_key req policy) (outside s) = (Inr service, w1)"
      "listPods (recClient rec) (svcNamespace service) (svcSelector service) w1 = (Inl e, w2)"
      "out = Some (rec, no_requeue, Some (Wrap ''listing pods'' e))" "s' = s\<lparr>outside := w2\<rparr>"
  | (no_pods) service w1 listed w2 where "getService (recClient rec) (service_key req policy) (outside s) = (Inr service, w1)"
      "listPods (recClient rec) (svcNamespace service) (svcSelector service) w1 = (Inr listed, w2)"
      "filter running listed = []"
      "run_state (give_up rec policy ''NoPodsFound'' ''No pods match the Service selector'') (s\<lparr>outside := w2\<rparr>) = (out, s')"
  | (evaluated) service w1 listed w2 where "getService (recClient rec) (service_key req policy) (outside s) = (Inr service, w1)"
      "listPods (recClient rec) (svcNamespace service) (svcSelector service) w1 = (Inr listed, w2)"
      "filter running listed \<noteq> []"
      "run_state (evaluate rec (NamespacedName_String req) policy service (filter running listed)) (s\<lparr>outside := w2\<rparr>) = (out, s')"
proof -
  have running: "(\<lambda>pod. podPhase pod = ''Running'' \<and> podDeletionTimestamp pod = None) = running"
    by (simp add: running_def fun_eq_iff)
  obtain r w1 where g: "getService (recClient rec) (service_key req policy) (outside s) = (r, w1)" by fastforce
  note run = assms [unfolded reconcile_service_def, folded service_key_def]
  show ?thesis
  proof (cases r)
    case (Inl e)
    show ?thesis
      using run g Inl by (intro no_service [of e w1 "fst (run_state (setCondition (recLib rec) policy ''Ready'' ''False''
         ''ServiceNotFound'' ''Target Service does not exist'' \<bind> push_status (recClient rec)) (s\<lparr>outside := w1\<rparr>))"])
        (auto split: prod.splits if_splits)
  next
    case (Inr service)
    obtain l w2 where l: "listPods (recClient rec) (svcNamespace service) (svcSelector service) w1 = (l, w2)" by fastforce
    note run = run [unfolded getPodsForService_def running]
    show ?thesis
    proof (cases l)
      case (Inl e)
      show ?thesis by (rule no_list) (use run g l Inr Inl in auto)
    next
      case (Inr listed)
      show ?thesis
      proof (cases "filter running listed = []")
        case True
        show ?thesis by (rule no_pods) (use run g l \<open>r = Inr service\<close> Inr True in simp_all)
      next
        case False
        show ?thesis by (rule evaluated) (use run g l \<open>r = Inr service\<close> Inr False in simp_all)
      qed
    qed
  qed
qed

lemma reconcile_service_outcome:
  assumes "run_state (reconcile_service rec req policy) s = (out, s')"
    and "latency_source (sourceGetLatencies (recSource rec))"
    and "\<And>ns sel w listed w'. listPods (recClient rec) ns sel w = (Inr listed, w') \<Longrightarrow> fleet_sized listed"
  obtains rec' res err where "out = Some (rec', res, err)" and "evolves rec rec'"
    and "err = None \<Longrightarrow> 0 < RequeueAfter res
      \<longleftrightarrow> (\<nexists>e w. getService (recClient rec) (service_key req policy) (outside s) = (Inl e, w) \<and> is_not_found e)"
proof (cases rule: reconcile_service_cases [OF assms(1)])
  case (1 e w1 p)
  then show ?thesis by (cases "is_not_found e") (auto intro: that)
next
  case (2 service w1 e w2)
  then show ?thesis by (auto intro: that)
next
  case (3 service w1 listed w2)
  from give_up_requeues [OF 3(4)] 3(1) show ?thesis
    by (auto simp: requeued_def getEvaluationInterval_pos intro: that)
next
  case (4 service w1 listed w2)
  have "fleet_sized (filter running listed)"
    using assms(3) [OF 4(2)] le_less_trans [OF length_filter_le] by blast
  from evaluate_outcome [OF 4(4) assms(2) this] obtain rec' x where
    "out = Some x" "requeued rec' x" "evolves rec rec'" .
  with 4(1) show ?thesis by (auto simp: requeued_def getEvaluationInterval_pos intro: that)
qed

text \<open>
  The policy an evaluation works on, and the world it starts from: the one read under the key of the request, or,
  when that had no finalizer yet, what the API returned for it with the finalizer added. Its Service is missing
  if the API does not find the Service it names in that world.
\<close>

definition live_policy :: "'w Reconciler \<Rightarrow> NamespacedName \<Rightarrow> 'w \<Rightarrow> AviatorPolicy \<Rightarrow> 'w \<Rightarrow> bool" where
  "live_policy rec req w policy w' \<longleftrightarrow> (\<exists>read w1. getPolicy (recClient rec) req w = (Inr read, w1)
     \<and> polDeletionTimestamp read = None
     \<and> (if containsFinalizer (recLib rec) (polFinalizers read) finalizerName then policy = read \<and> w' = w1
        else updatePolicy (recClient rec)
          (read\<lparr>polFinalizers := addFinalizer (recLib rec) (polFinalizers read) finalizerName\<rparr>) w1 = (Inr policy, w')))"

definition service_missing :: "'w Reconciler \<Rightarrow> NamespacedName \<Rightarrow> 'w \<Rightarrow> bool" where
  "service_missing rec req w \<longleftrightarrow> (\<exists>policy w0 e w1. live_policy rec req w policy w0
     \<and> getService (recClient rec) (service_key req policy) w0 = (Inl e, w1) \<and> is_not_found e)"

lemma live_policy_unique: "live_policy rec req w p1 w1 \<Longrightarrow> live_policy rec req w p2 w2 \<Longrightarrow> p1 = p2 \<and> w1 = w2"
  by (auto simp: live_policy_def split: if_splits)

lemma live_policyI:
  assumes "getPolicy (recClient rec) req (outside s) = (Inr read, w1)" and "polDeletionTimestamp read = None"
    and "run_state (ensure_finalizer rec read) (s\<lparr>outside := w1\<rparr>) = (Inr policy, s1)"
  shows "live_policy rec req (outside s) policy (outside s1)"
  using assms by (auto simp: live_policy_def ensure_finalizer_def prod_eq_iff)

lemma ensure_finalizer_cases:
  assumes "run_state (ensure_finalizer rec policy) s = (r, s')"
  obtains w' where "s' = s\<lparr>outside := w'\<rparr>" and "r = Inr policy \<and> w' = outside s
    \<or> (r, w') = updatePolicy (recClient rec)
        (policy\<lparr>polFinalizers := addFinalizer (recLib rec) (polFinalizers policy) finalizerName\<rparr>) (outside s)"
  by (cases "containsFinalizer (recLib rec) (polFinalizers policy) finalizerName")
    (use assms in \<open>auto simp: ensure_finalizer_def prod_eq_iff intro: that [of "outside s"] that\<close>)

text \<open>The ways through the first three steps.\<close>

lemma Reconcile_cases:
  assumes "run_state (Reconcile rec req) s = (out, s')"
  obtains (unread) e w1 where "getPolicy (recClient rec) req (outside s) = (Inl e, w1)" "s' = s\<lparr>outside := w1\<rparr>"
      "out = Some (rec, no_requeue, if is_not_found e then None else Some e)"
  | (deleting) policy w1 x where "getPolicy (recClient rec) req (outside s) = (Inr policy, w1)"
      "polDeletionTimestamp policy \<noteq> None" "run_state (handleDeletion rec policy) (s\<lparr>outside := w1\<rparr>) = (x, s')" "out = Some x"
  | (refused) policy w1 e where "getPolicy (recClient rec) req (outside s) = (Inr policy, w1)"
      "polDeletionTimestamp policy = None" "run_state (ensure_finalizer rec policy) (s\<lparr>outside := w1\<rparr>) = (Inl e, s')"
      "out = Some (rec, no_requeue, Some e)"
  | (live) policy w1 policy' s1 where "getPolicy (recClient rec) req (outside s) = (Inr policy, w1)"
      "polDeletionTimestamp policy = None" "run_state (ensure_finalizer rec policy) (s\<lparr>outside := w1\<rparr>) = (Inr policy', s1)"
      "run_state (reconcile_service rec req policy') s1 = (out, s')"
proof -
  obtain r w1 where g: "getPolicy (recClient rec) req (outside s) = (r, w1)" by fastforce
  show ?thesis
  proof (cases r)
    case (Inl e)
    show ?thesis by (rule unread) (use assms g Inl in \<open>auto simp: Reconcile_def\<close>)
  next
    case (Inr policy)
    show ?thesis
    proof (cases "polDeletionTimestamp policy = None")
      case False
      then show ?thesis using assms g Inr
        by (cases "run_state (handleDeletion rec policy) (s\<lparr>outside := w1\<rparr>)") (auto simp: Reconcile_def intro: deleting)
    next
      case True
      obtain f s1 where f: "run_state (ensure_finalizer rec policy) (s\<lparr>outside := w1\<rparr>) = (f, s1)" by fastforce
      show ?thesis
      proof (cases f)
        case (Inl e)
        show ?thesis by (rule refused) (use assms g \<open>r = Inr policy\<close> True f Inl in \<open>auto simp: Reconcile_def\<close>)
      next
        case (Inr policy')
        show ?thesis by (rule live) (use assms g \<open>r = Inr policy\<close> True f Inr in \<open>auto simp: Reconcile_def\<close>)
      qed
    qed
  qed
qed

lemma handleDeletion_evolves:
  assumes "run_state (handleDeletion rec policy) s = ((rec', res, err), s')"
  shows "evolves rec rec'"
proof -
  have forget: "evolves rec (rec\<lparr>breakers := AList.delete k (breakers rec), dampeners := AList.delete k (dampeners rec)\<rparr>)" for k
    by (auto simp: evolves_def rec_inv_def map_of_delete_if split: if_splits simp del: map_of_eq_Some_iff)
  show ?thesis
    using assms forget by (auto simp: handleDeletion_def Let_def split: if_splits option.splits sum.splits prod.splits)
qed

lemma Reconcile_outcome:
  assumes "latency_source (sourceGetLatencies (recSource rec))"
    and "\<And>ns sel w listed w'. listPods (recClient rec) ns sel w = (Inr listed, w') \<Longrightarrow> fleet_sized listed"
    and "run_state (Reconcile rec req) s = (out, s')"
  obtains rec' res err where "out = Some (rec', res, err)" and "evolves rec rec'"
    and "\<forall>policy w. getPolicy (recClient rec) req (outside s) = (Inr policy, w) \<longrightarrow> polDeletionTimestamp policy = None \<longrightarrow>
      err = None \<longrightarrow> (0 < RequeueAfter res \<longleftrightarrow> \<not> service_missing rec req (outside s))"
proof (cases rule: Reconcile_cases [OF assms(3)])
  case (1 e w1)
  then show ?thesis by (auto intro: that)
next
  case (2 policy w1 x)
  then show ?thesis using handleDeletion_evolves [of rec policy] by (cases x) (fastforce intro: that)
next
  case (3 policy w1 e)
  then show ?thesis by (auto intro: that)
next
  case (4 policy w1 policy' s1)
  have live: "live_policy rec req (outside s) p w \<longleftrightarrow> p = policy' \<and> w = outside s1" for p w
    using live_policyI [OF 4(1-3)] live_policy_unique [of rec req "outside s" p w] by metis
  show ?thesis
  proof (rule reconcile_service_outcome [OF 4(4) assms(1,2)])
    fix rec' res err
    assume o: "out = Some (rec', res, err)" and ev: "evolves rec rec'" and again: "err = None \<Longrightarrow> 0 < RequeueAfter res
      \<longleftrightarrow> (\<nexists>e w. getService (recClient rec) (service_key req policy') (outside s1) = (Inl e, w) \<and> is_not_found e)"
    have "err = None \<Longrightarrow> 0 < RequeueAfter res \<longleftrightarrow> \<not> service_missing rec req (outside s)"
      using again by (simp add: service_missing_def live)
    then show ?thesis by (intro that [OF o ev] allI impI)
  qed
qed

end
