(* ===== verification/Example_Cluster.thy ===== *)
theory Example_Cluster
  imports Endpoint_Slice
begin

section \<open>A cluster for the examples\<close>

text \<open>
  The API server is not part of the repository: it is a parameter, and the theorems state what they
  rely on as hypotheses. This theory shows that those can be met, by an API server that keeps its
  objects in memory and fails the calls a plan says, so that the examples can run the
  controller. Nothing in the model of the program depends on it.
\<close>

text \<open>
  A call goes through, is lost on the way, or is carried out with its answer lost; and a read of a slice may be answered
  from a cache, which here is one write behind.
\<close>

datatype fault = Healthy | Lost string | Late string | Stale

record cluster =
  clPolicies :: "NamespacedName \<Rightarrow> AviatorPolicy option"
  clServices :: "NamespacedName \<Rightarrow> Service option"
  clPods :: "(string \<times> string gomap \<times> Pod) list"
  clSlices :: "EndpointSlice list"
  clCache :: "EndpointSlice list"
  clVersion :: nat
  clFaults :: "fault list"

definition serve :: "(cluster \<Rightarrow> (go_error + 'a) \<times> cluster) \<Rightarrow> cluster \<Rightarrow> (go_error + 'a) \<times> cluster" where
  "serve f c = (case clFaults c of
     [] \<Rightarrow> f c
   | fl # fls \<Rightarrow>
       (let c = c\<lparr>clFaults := fls\<rparr> in
        (case fl of
           Healthy \<Rightarrow> f c
         | Stale \<Rightarrow> f c
         | Lost m \<Rightarrow> (Inl (ApiError m), c)
         | Late m \<Rightarrow> (Inl (ApiError m), snd (f c)))))"

definition error_of :: "(go_error + 'a) \<times> 'c \<Rightarrow> go_error option \<times> 'c" where
  "error_of = map_prod (case_sum Some (\<lambda>_. None)) id"

definition read_object :: "'a option \<Rightarrow> cluster \<Rightarrow> (go_error + 'a) \<times> cluster" where
  "read_object x c = (case x of None \<Rightarrow> Inl (NotFoundError ''not found'') | Some a \<Rightarrow> Inr a, c)"

text \<open>
  The slices are kept in a list and read by key; what is kept has a version. What the cache says counts
  unless it claims to be the version that is kept, without being it.
\<close>

definition find_slice :: "NamespacedName \<Rightarrow> EndpointSlice list \<Rightarrow> EndpointSlice option" where
  "find_slice k = find (\<lambda>s. slice_key s = k \<and> sliceResourceVersion s \<noteq> '''')"

definition slice_at :: "cluster \<Rightarrow> NamespacedName \<Rightarrow> EndpointSlice option" where
  "slice_at c k = find_slice k (clSlices c)"

definition cached_slice :: "cluster \<Rightarrow> NamespacedName \<Rightarrow> EndpointSlice option" where
  "cached_slice c k = (case find_slice k (clCache c) of
     None \<Rightarrow> None
   | Some s \<Rightarrow> (case slice_at c k of
       None \<Rightarrow> Some s
     | Some t \<Rightarrow> Some (if sliceResourceVersion t = sliceResourceVersion s then t else s)))"

definition get_slice :: "NamespacedName \<Rightarrow> cluster \<Rightarrow> (go_error + EndpointSlice) \<times> cluster" where
  "get_slice k c = (case clFaults c of
     Stale # fls \<Rightarrow> (let c = c\<lparr>clFaults := fls\<rparr> in read_object (cached_slice c k) c)
   | _ \<Rightarrow> serve (\<lambda>c. read_object (slice_at c k) c) c)"

definition without_slice :: "NamespacedName \<Rightarrow> cluster \<Rightarrow> EndpointSlice list" where
  "without_slice k c = filter (\<lambda>s. slice_key s \<noteq> k) (clSlices c)"

definition store_slice :: "EndpointSlice \<Rightarrow> cluster \<Rightarrow> (go_error + unit) \<times> cluster" where
  "store_slice s c = (Inr (), c\<lparr>clVersion := Suc (clVersion c), clCache := clSlices c,
     clSlices := s\<lparr>sliceResourceVersion := show_nat (Suc (clVersion c))\<rparr> # without_slice (slice_key s) c\<rparr>)"

definition create_slice :: "EndpointSlice \<Rightarrow> cluster \<Rightarrow> (go_error + unit) \<times> cluster" where
  "create_slice s c = (if slice_at c (slice_key s) \<noteq> None then (Inl (ApiError ''already exists''), c) else store_slice s c)"

definition update_slice :: "EndpointSlice \<Rightarrow> cluster \<Rightarrow> (go_error + unit) \<times> cluster" where
  "update_slice s c = (case slice_at c (slice_key s) of
     None \<Rightarrow> (Inl (NotFoundError ''not found''), c)
   | Some old \<Rightarrow>
       (if sliceResourceVersion s \<noteq> sliceResourceVersion old then (Inl (ApiError ''conflict''), c) else store_slice s c))"

definition delete_slice :: "NamespacedName \<Rightarrow> cluster \<Rightarrow> (go_error + unit) \<times> cluster" where
  "delete_slice k c = (if slice_at c k = None then (Inl (NotFoundError ''not found''), c)
     else (Inr (), c\<lparr>clCache := clSlices c, clSlices := without_slice k c\<rparr>))"

abbreviation policy_key :: "AviatorPolicy \<Rightarrow> NamespacedName" where
  "policy_key p \<equiv> \<lparr>nnNamespace = polNamespace p, nnName = polName p\<rparr>"

definition store_policy :: "AviatorPolicy \<Rightarrow> cluster \<Rightarrow> (go_error + AviatorPolicy) \<times> cluster" where
  "store_policy p c = (if clPolicies c (policy_key p) = None then (Inl (NotFoundError ''not found''), c)
     else (Inr p, c\<lparr>clPolicies := (clPolicies c)(policy_key p :=
            if polDeletionTimestamp p \<noteq> None \<and> polFinalizers p = [] then None else Some p)\<rparr>))"

definition selected_pods :: "string \<Rightarrow> string gomap \<Rightarrow> cluster \<Rightarrow> Pod list" where
  "selected_pods ns sel c = List.map_filter (\<lambda>(n, labels, p).
     if n = ns \<and> list_all (\<lambda>(k, v). map_of labels k = Some v) sel then Some p else None) (clPods c)"

definition cluster_client :: "cluster Client" where
  "cluster_client = \<lparr>
     getPolicy = (\<lambda>k. serve (\<lambda>c. read_object (clPolicies c k) c)),
     updatePolicy = (\<lambda>p. serve (store_policy p)),
     updatePolicyStatus = (\<lambda>p. serve (store_policy p)),
     getService = (\<lambda>k. serve (\<lambda>c. read_object (clServices c k) c)),
     listPods = (\<lambda>ns sel. serve (\<lambda>c. let ps = selected_pods ns sel c in
       (if length ps \<le> 500 then Inr ps else Inl (ApiError ''too many pods''), c))),
     getSlice = get_slice,
     createSlice = (\<lambda>s c. error_of (serve (create_slice s) c)),
     updateSlice = (\<lambda>s c. error_of (serve (update_slice s) c)),
     deleteSlice = (\<lambda>k c. error_of (serve (delete_slice k) c))\<rparr>"

lemma find_filter_key:
  "find_slice j (filter (\<lambda>s. slice_key s \<noteq> k) ss) = (if j = k then None else find_slice j ss)"
  unfolding find_slice_def by (induction ss) auto

lemma slice_at_without: "slice_at (c\<lparr>clCache := cs, clSlices := without_slice k c\<rparr>) = (slice_at c)(k := None)"
  by (rule ext) (simp add: slice_at_def without_slice_def find_filter_key)

lemma find_slice_Cons: "find_slice k (s # ss) = (if slice_key s = k \<and> sliceResourceVersion s \<noteq> '''' then Some s else find_slice k ss)"
  by (simp add: find_slice_def)

lemma show_nat_nonempty: "show_nat n \<noteq> ''''"
  by (subst show_nat.simps) simp

lemma slice_at_store:
  assumes "store_slice s c = (r, c')"
  shows "r = Inr ()" and "stored s (slice_at c) (slice_at c')"
proof -
  let ?t = "s\<lparr>sliceResourceVersion := show_nat (Suc (clVersion c))\<rparr>"
  have c': "clSlices c' = ?t # without_slice (slice_key s) c"
    using assms by (auto simp: store_slice_def)
  have key: "slice_key ?t = slice_key s" and version: "sliceResourceVersion ?t \<noteq> ''''" by (simp_all add: show_nat_nonempty)
  have "slice_at c' k = ((slice_at c)(slice_key s \<mapsto> ?t)) k" for k
    unfolding slice_at_def c' without_slice_def find_slice_Cons find_filter_key key
    by (cases "k = slice_key s") (simp_all only: version fun_upd_same fun_upd_other not_sym if_True if_False simp_thms)
  then have "slice_at c' = (slice_at c)(slice_key s \<mapsto> ?t)" ..
  then show "stored s (slice_at c) (slice_at c')"
    by (intro exI [of _ ?t]) (simp add: same_content_def)
  show "r = Inr ()" using assms by (simp add: store_slice_def)
qed

text \<open>Whatever the plan, a call either never reaches the store or does what it says.\<close>

lemma serve_cases:
  assumes "serve f c = (r, c')"
  obtains (lost) fls m where "r = Inl (ApiError m)" and "c' = c\<lparr>clFaults := fls\<rparr>"
  | (answered) fls r' where "f (c\<lparr>clFaults := fls\<rparr>) = (r', c')" and "r = r' \<or> (\<exists>m. r = Inl (ApiError m))"
proof (cases "clFaults c")
  case Nil
  have same: "c\<lparr>clFaults := []\<rparr> = c" using Nil by (cases c) simp
  have "f (c\<lparr>clFaults := []\<rparr>) = (r, c')" unfolding same using assms Nil by (simp add: serve_def)
  then show ?thesis by (rule answered) simp
next
  case (Cons fl fls)
  obtain r' c1 where f: "f (c\<lparr>clFaults := fls\<rparr>) = (r', c1)" by fastforce
  show ?thesis
    using assms Cons f lost answered [of fls r'] by (cases fl) (auto simp: serve_def)
qed


lemma slice_at_faults [simp]: "slice_at (c\<lparr>clFaults := fls\<rparr>) = slice_at c"
  by (simp add: slice_at_def fun_eq_iff)

lemma read_object_simps [simp]:
  "snd (read_object x c) = c"
  "read_object x c = (r, c') \<longleftrightarrow> c' = c \<and> r = (case x of None \<Rightarrow> Inl (NotFoundError ''not found'') | Some a \<Rightarrow> Inr a)"
  by (auto simp: read_object_def)

text \<open>A write of the slice \<open>s\<close> that the server answers with \<open>e\<close>, and carries out only if a guard holds.\<close>

lemma written:
  assumes "error_of (serve f c) = (e, c')"
    and "\<And>c r c'. f c = (r, c') \<Longrightarrow> guard (slice_at c) \<and> store_slice s c = (r, c') \<or> (\<exists>x. r = Inl x) \<and> c' = c"
  shows "e = None \<Longrightarrow> guard (slice_at c) \<and> stored s (slice_at c) (slice_at c')"
    and "slice_at c' = slice_at c \<or> guard (slice_at c) \<and> stored s (slice_at c) (slice_at c')"
proof -
  obtain r where r: "serve f c = (r, c')" and e: "e = case_sum Some (\<lambda>_. None) r"
    using assms(1) by (cases "serve f c") (auto simp: error_of_def)
  have "(e = None \<longrightarrow> guard (slice_at c) \<and> stored s (slice_at c) (slice_at c'))
    \<and> (slice_at c' = slice_at c \<or> guard (slice_at c) \<and> stored s (slice_at c) (slice_at c'))"
    using r
  proof (cases rule: serve_cases)
    case (lost fls m)
    with e show ?thesis by simp
  next
    case (answered fls r')
    from assms(2) [OF answered(1)] slice_at_store(2) [of s "c\<lparr>clFaults := fls\<rparr>" r' c'] answered(2) e
    show ?thesis by auto
  qed
  then show "e = None \<Longrightarrow> guard (slice_at c) \<and> stored s (slice_at c) (slice_at c')"
    and "slice_at c' = slice_at c \<or> guard (slice_at c) \<and> stored s (slice_at c) (slice_at c')"
    by blast+
qed

lemma create_slice_cases:
  "create_slice s c = (r, c') \<Longrightarrow> slice_at c (slice_key s) = None \<and> store_slice s c = (r, c') \<or> (\<exists>x. r = Inl x) \<and> c' = c"
  by (auto simp: create_slice_def split: if_splits)

lemma update_slice_cases:
  "update_slice s c = (r, c') \<Longrightarrow> current s (slice_at c) \<and> store_slice s c = (r, c') \<or> (\<exists>x. r = Inl x) \<and> c' = c"
  by (auto simp: update_slice_def split: if_splits option.splits)

lemma deleted:
  assumes "error_of (serve (delete_slice k) c) = (e, c')"
  shows "e = None \<Longrightarrow> slice_at c' = (slice_at c)(k := None)"
    and "e = Some x \<Longrightarrow> is_not_found x \<Longrightarrow> slice_at c k = None \<and> slice_at c' = slice_at c"
    and "slice_at c' = slice_at c \<or> slice_at c' = (slice_at c)(k := None)"
proof -
  obtain r where r: "serve (delete_slice k) c = (r, c')" and e: "e = case_sum Some (\<lambda>_. None) r"
    using assms by (cases "serve (delete_slice k) c") (auto simp: error_of_def)
  have "(e = None \<longrightarrow> slice_at c' = (slice_at c)(k := None))
    \<and> (e = Some x \<longrightarrow> is_not_found x \<longrightarrow> slice_at c k = None \<and> slice_at c' = slice_at c)
    \<and> (slice_at c' = slice_at c \<or> slice_at c' = (slice_at c)(k := None))"
    using r
  proof (cases rule: serve_cases)
    case (lost fls m)
    with e show ?thesis by auto
  next
    case (answered fls r')
    then show ?thesis
      using slice_at_without [where c = "c\<lparr>clFaults := fls\<rparr>" and cs = "clSlices c" and k = k] e by (auto simp: delete_slice_def split: if_splits)
  qed
  then show "e = None \<Longrightarrow> slice_at c' = (slice_at c)(k := None)"
    and "e = Some x \<Longrightarrow> is_not_found x \<Longrightarrow> slice_at c k = None \<and> slice_at c' = slice_at c"
    and "slice_at c' = slice_at c \<or> slice_at c' = (slice_at c)(k := None)"
    by blast+
qed

lemma find_slice_Some: "find_slice k ss = Some s \<Longrightarrow> slice_key s = k \<and> sliceResourceVersion s \<noteq> ''''"
  unfolding find_slice_def by (auto simp: find_Some_iff)

lemma slice_at_key: "slice_at c k = Some s \<Longrightarrow> slice_key s = k \<and> sliceResourceVersion s \<noteq> ''''"
  unfolding slice_at_def by (rule find_slice_Some)

lemma cached_slice_key: "cached_slice c k = Some s \<Longrightarrow> slice_key s = k \<and> sliceResourceVersion s \<noteq> ''''"
  by (auto simp: cached_slice_def dest: find_slice_Some slice_at_key split: option.splits if_splits)

lemma cached_slice_version:
  "cached_slice c k = Some s \<Longrightarrow> slice_at c k = Some t \<Longrightarrow> sliceResourceVersion t = sliceResourceVersion s \<Longrightarrow> t = s"
  by (auto simp: cached_slice_def split: option.splits if_splits)

lemma got:
  assumes "get_slice k c = (r, c')"
  shows "slice_at c' = slice_at c" and "r = Inr s \<Longrightarrow> slice_at c k = Some s \<or> cached_slice c k = Some s"
proof -
  have "slice_at c' = slice_at c \<and> (r = Inr s \<longrightarrow> slice_at c k = Some s \<or> cached_slice c k = Some s)"
  proof (cases "\<exists>fls. clFaults c = Stale # fls")
    case True
    then obtain fls where fls: "clFaults c = Stale # fls" by blast
    have "cached_slice (c\<lparr>clFaults := fls\<rparr>) = cached_slice c" by (rule ext) (simp add: cached_slice_def split: option.split)
    with assms fls show ?thesis by (auto simp: get_slice_def split: option.splits)
  next
    case False
    then have "get_slice k c = serve (\<lambda>c. read_object (slice_at c k) c) c"
      by (auto simp: get_slice_def split: list.split fault.split)
    with assms have "serve (\<lambda>c. read_object (slice_at c k) c) c = (r, c')" by simp
    then show ?thesis by (cases rule: serve_cases) (auto split: option.splits)
  qed
  then show "slice_at c' = slice_at c" and "r = Inr s \<Longrightarrow> slice_at c k = Some s \<or> cached_slice c k = Some s" by blast+
qed

text \<open>A list of pods never exceeds a page.\<close>

lemma cluster_pages: "listPods cluster_client ns sel w = (Inr listed, w') \<Longrightarrow> length listed \<le> 500"
  by (auto simp: cluster_client_def serve_def Let_def split: list.splits fault.splits if_splits)

interpretation cluster: slice_store cluster_client slice_at
proof
  fix k s t e r and w w' :: cluster
  show "getSlice cluster_client k w = (Inr s, w') \<Longrightarrow> slice_key s = k \<and> sliceResourceVersion s \<noteq> ''''"
    using got(2) [of k w "Inr s" w' s] slice_at_key [of w k s] cached_slice_key [of w k s] by (simp add: cluster_client_def) blast
  show "getSlice cluster_client k w = (Inr s, w') \<Longrightarrow> slice_at w k = Some t \<Longrightarrow>
      sliceResourceVersion t = sliceResourceVersion s \<Longrightarrow> t = s"
    using got(2) [of k w "Inr s" w' s] cached_slice_version [of w k s t] by (auto simp: cluster_client_def)
  show "getSlice cluster_client k w = (r, w') \<Longrightarrow> slice_at w' = slice_at w"
    using got(1) [of k w r w'] by (simp add: cluster_client_def)
  show "createSlice cluster_client s w = (None, w') \<Longrightarrow>
      slice_at w (slice_key s) = None \<and> stored s (slice_at w) (slice_at w')"
    using written(1) [of "create_slice s" w None w' "\<lambda>m. m (slice_key s) = None" s, OF _ create_slice_cases]
    by (simp add: cluster_client_def)
  show "createSlice cluster_client s w = (Some e, w') \<Longrightarrow>
      slice_at w' = slice_at w \<or> slice_at w (slice_key s) = None \<and> stored s (slice_at w) (slice_at w')"
    using written(2) [of "create_slice s" w "Some e" w' "\<lambda>m. m (slice_key s) = None" s, OF _ create_slice_cases]
    by (simp add: cluster_client_def)
  show "updateSlice cluster_client s w = (None, w') \<Longrightarrow> sliceResourceVersion s \<noteq> '''' \<Longrightarrow>
      current s (slice_at w) \<and> stored s (slice_at w) (slice_at w')"
    using written(1) [of "update_slice s" w None w' "current s" s, OF _ update_slice_cases] by (simp add: cluster_client_def)
  show "updateSlice cluster_client s w = (Some e, w') \<Longrightarrow> sliceResourceVersion s \<noteq> '''' \<Longrightarrow>
      slice_at w' = slice_at w \<or> current s (slice_at w) \<and> stored s (slice_at w) (slice_at w')"
    using written(2) [of "update_slice s" w "Some e" w' "current s" s, OF _ update_slice_cases] by (simp add: cluster_client_def)
  show "deleteSlice cluster_client k w = (None, w') \<Longrightarrow> slice_at w' = (slice_at w)(k := None)"
    using deleted(1) [of k w None w'] by (simp add: cluster_client_def)
  show "deleteSlice cluster_client k w = (Some e, w') \<Longrightarrow> is_not_found e \<Longrightarrow>
      slice_at w k = None \<and> slice_at w' = slice_at w"
    using deleted(2) [of k w "Some e" w' e] by (simp add: cluster_client_def)
  show "deleteSlice cluster_client k w = (Some e, w') \<Longrightarrow>
      slice_at w' = slice_at w \<or> slice_at w' = (slice_at w)(k := None)"
    using deleted(3) [of k w "Some e" w'] by (simp add: cluster_client_def)
qed

end
