(* ===== verification/Reconciler_Properties.thy ===== *)
theory Reconciler_Properties
  imports Evaluation Example_Cluster Probe_Source Ebpf_Source
begin

section \<open>Properties of the reconciler\<close>

text \<open>
  What an evaluation promises: it comes to an end without a panic and comes back, it writes no slice but
  the one of its service and only with running pods, it routes to the fastest pods that are not
  ejected, it cleans up after a deleted policy; and what it gets wrong.
\<close>

subsection \<open>The slices an evaluation writes\<close>

text \<open>The API never lists \<open>2 ^ 32\<close> pods or more.\<close>

definition lists_sized :: "'w Client \<Rightarrow> bool" where
  "lists_sized c \<longleftrightarrow> (\<forall>ns sel w listed w'. listPods c ns sel w = (Inr listed, w') \<longrightarrow> fleet_sized listed)"

lemma lists_sizedD: "lists_sized c \<Longrightarrow> listPods c ns sel w = (Inr listed, w') \<Longrightarrow> fleet_sized listed"
  unfolding lists_sized_def by blast

lemma other_callsD:
  assumes "other_calls_leave v c"
  shows "getPolicy c k w = (r1, w') \<Longrightarrow> v w' = v w" and "updatePolicy c p w = (r2, w') \<Longrightarrow> v w' = v w"
    and "getService c k w = (r3, w') \<Longrightarrow> v w' = v w" and "listPods c ns sel w = (r4, w') \<Longrightarrow> v w' = v w"
  using assms unfolding other_calls_leave_def by (metis snd_conv)+

text \<open>The endpoint stands for one of the pods.\<close>

definition backed :: "Pod list \<Rightarrow> PodEndpoint \<Rightarrow> bool" where
  "backed ps e \<longleftrightarrow> (\<exists>pod\<in>set ps. podIP pod = pePodIP e \<and> podIP pod \<noteq> '''' \<and> podName pod = pePodName e
     \<and> podNodeName pod = peNodeName e)"

lemma evaluate_slices:
  assumes "slice_store (recSlices rec) slices" and "other_calls_leave slices (recClient rec)"
    and "\<And>ips. leaves slices (sourceGetLatencies (recSource rec) ips)"
    and "latency_source (sourceGetLatencies (recSource rec))" and "fleet_sized ps"
    and "run_state (evaluate rec key policy service ps) s = (out, s')"
    and "slices (outside s') \<noteq> slices (outside s)"
  obtains eps t where "slices (outside s') = (slices (outside s))(routed service \<mapsto> t)"
    and "routes policy service eps (slices (outside s) (routed service)) t" and "\<forall>e\<in>set eps. backed ps e" and "distinct (map pePodIP eps)"
proof -
  obtain m ips where c: "collect_pods ps = (m, ips)" by fastforce
  note cp = collect_pods_result [OF c]
  show ?thesis
  proof (cases rule: latency_source.outcome [OF assms(4), of ips s])
    case (1 e s1)
    then have "run_state (give_up rec policy ''LatencyFetchFailed'' (err_msg e)) s1 = (out, s')"
      using assms(6) c by (simp add: evaluate_def)
    then have "slices (outside s') = slices (outside s1)" by (rule leavesD [OF leaves_give_up [OF assms(2)]])
    with leavesD [OF assms(3) 1(1)] assms(7) show ?thesis by simp
  next
    case (2 lat s1)
    then have run: "run_state (route rec key policy service m lat) s1 = (out, s')"
      using assms(6) c by (simp add: evaluate_def)
    have s1: "slices (outside s1) = slices (outside s)" by (rule leavesD [OF assms(3) 2(1)])
    obtain rec' res err where out: "out = Some (rec', res, err)"
      by (rule route_outcome [OF run 2(3) c assms(5)]) (auto simp: requeued_def)
    have changed: "slices (outside s') \<noteq> slices (outside s1)" using assms(7) s1 by simp
    obtain sel t where t: "slices (outside s') = (slices (outside s1))(routed service \<mapsto> t)"
      "routes policy service (map (pod_endpoint m) sel) (slices (outside s1) (routed service)) t" "distinct (map rankPodIP sel)"
      "\<forall>r\<in>set sel. \<exists>pod. map_of m (rankPodIP r) = Some pod \<and> rankPodName r = podName pod"
      using route_selection [OF assms(1,2) c assms(5) 2(3) run [unfolded out] changed] by blast
    have "backed ps e" if "e \<in> set (map (pod_endpoint m) sel)" for e
    proof -
      from that obtain r where r: "r \<in> set sel" "e = pod_endpoint m r" by auto
      then obtain pod where "map_of m (rankPodIP r) = Some pod" "rankPodName r = podName pod" using t(4) by blast
      moreover from this cp have "pod \<in> set ps" "podIP pod = rankPodIP r" "rankPodIP r \<noteq> ''''" by blast+
      ultimately show ?thesis
        unfolding backed_def r(2) by (intro bexI [of _ pod]) (simp_all add: pod_endpoint_def)
    qed
    moreover have "map pePodIP (map (pod_endpoint m) sel) = map rankPodIP sel" by (simp add: pod_endpoint_def)
    ultimately show ?thesis using that t(1-3) s1 by metis
  qed
qed

text \<open>
  One slice was written: that of the Service read under the name in the policy of the request (the live policy
  read in the world \<open>w\<close>), with endpoints that stand for running pods the API listed for that Service.
\<close>

definition rerouted :: "'w Reconciler \<Rightarrow> NamespacedName \<Rightarrow> 'w \<Rightarrow> (NamespacedName \<Rightarrow> EndpointSlice option)
    \<Rightarrow> (NamespacedName \<Rightarrow> EndpointSlice option) \<Rightarrow> bool" where
  "rerouted rec req w before after \<longleftrightarrow> (\<exists>policy w0 service w1 listed w2 eps t. live_policy rec req w policy w0
      \<and> getService (recClient rec) (service_key req policy) w0 = (Inr service, w1)
      \<and> listPods (recClient rec) (svcNamespace service) (svcSelector service) w1 = (Inr listed, w2)
      \<and> after = before(routed service \<mapsto> t) \<and> routes policy service eps (before (routed service)) t
      \<and> (\<forall>e\<in>set eps. backed (filter running listed) e) \<and> distinct (map pePodIP eps))"

lemma service_writes:
  assumes "slice_store (recSlices rec) slices" and "other_calls_leave slices (recClient rec)"
    and "\<And>ips. leaves slices (sourceGetLatencies (recSource rec) ips)"
    and "latency_source (sourceGetLatencies (recSource rec))"
    and "lists_sized (recClient rec)"
    and "run_state (reconcile_service rec req policy) s = (out, s')"
    and "slices (outside s') \<noteq> slices (outside s)" and "live_policy rec req w policy (outside s)"
  shows "rerouted rec req w (slices (outside s)) (slices (outside s'))"
proof -
  note get = other_callsD(3) [OF assms(2)] and lst = other_callsD(4) [OF assms(2)]
  show ?thesis
  proof (cases rule: reconcile_service_cases [OF assms(6)])
    case (1 e w1 p)
    have "leaves slices (setCondition (recLib rec) policy ''Ready'' ''False'' ''ServiceNotFound''
        ''Target Service does not exist'' \<bind> push_status (recClient rec))"
      by (intro leaves_intros assms(2))
    from leavesD [OF this] 1(3) get [OF 1(1)] assms(7) show ?thesis by (fastforce split: if_splits)
  next
    case (2 service w1 e w2)
    with get [OF 2(1)] lst [OF 2(2)] assms(7) show ?thesis by simp
  next
    case (3 service w1 listed w2)
    with get [OF 3(1)] lst [OF 3(2)] leavesD [OF leaves_give_up [OF assms(2)] 3(4)] assms(7) show ?thesis by simp
  next
    case (4 service w1 listed w2)
    have w2: "slices (outside (s\<lparr>outside := w2\<rparr>)) = slices (outside s)" using get [OF 4(1)] lst [OF 4(2)] by simp
    have sized: "fleet_sized (filter running listed)"
      using lists_sizedD [OF assms(5) 4(2)] le_less_trans [OF length_filter_le] by blast
    have changed: "slices (outside s') \<noteq> slices (outside (s\<lparr>outside := w2\<rparr>))" using w2 assms(7) by simp
    obtain eps t where "slices (outside s') = (slices (outside (s\<lparr>outside := w2\<rparr>)))(routed service \<mapsto> t)"
      "routes policy service eps (slices (outside (s\<lparr>outside := w2\<rparr>)) (routed service)) t" "\<forall>e\<in>set eps. backed (filter running listed) e" "distinct (map pePodIP eps)"
      by (rule evaluate_slices [OF assms(1-4) sized 4(4) changed])
    with 4(1,2) assms(8) show ?thesis unfolding rerouted_def w2 by blast
  qed
qed

text \<open>The slice of the service a policy names.\<close>

definition target_key :: "AviatorPolicy \<Rightarrow> NamespacedName" where
  "target_key policy = \<lparr>nnNamespace = polNamespace policy, nnName = slice_name (refName (specTargetRef (polSpec policy)))\<rparr>"

abbreviation state_key :: "AviatorPolicy \<Rightarrow> string" where
  "state_key policy \<equiv> NamespacedName_String \<lparr>nnNamespace = polNamespace policy, nnName = polName policy\<rparr>"

text \<open>The ways through \<open>handleDeletion\<close> once the finalizer is there.\<close>

lemma handleDeletion_cases:
  assumes "run_state (handleDeletion rec policy) s = ((rec', res, err), s')"
  obtains (no_finalizer) "\<not> containsFinalizer (recLib rec) (polFinalizers policy) finalizerName"
      "rec' = rec" "err = None" "s' = s"
  | (stuck) e where
      "run_state (Manager_Cleanup (recSlices rec) (polNamespace policy) (refName (specTargetRef (polSpec policy)))) s = (Some e, s')"
      "rec' = rec" "err = Some (Wrap ''cleaning up EndpointSlice'' e)"
  | (cleaned) s1 r where
      "run_state (Manager_Cleanup (recSlices rec) (polNamespace policy) (refName (specTargetRef (polSpec policy)))) s = (None, s1)"
      "updatePolicy (recClient rec)
         (policy\<lparr>polFinalizers := removeFinalizer (recLib rec) (polFinalizers policy) finalizerName\<rparr>) (outside s1)
         = (r, outside s')"
      "err = (case r of Inl e \<Rightarrow> Some e | Inr p \<Rightarrow> None)"
      "rec' = rec\<lparr>breakers := AList.delete (state_key policy) (breakers rec),
         dampeners := AList.delete (state_key policy) (dampeners rec)\<rparr>"
proof (cases "containsFinalizer (recLib rec) (polFinalizers policy) finalizerName")
  case False
  with assms show ?thesis by (intro no_finalizer) (auto simp: handleDeletion_def)
next
  case True
  obtain c s1 where c: "run_state (Manager_Cleanup (recSlices rec) (polNamespace policy)
      (refName (specTargetRef (polSpec policy)))) s = (c, s1)" by fastforce
  show ?thesis
  proof (cases c)
    case (Some e)
    show ?thesis by (rule stuck) (use assms True c Some in \<open>auto simp: handleDeletion_def\<close>)
  next
    case None
    obtain r w where u: "updatePolicy (recClient rec)
        (policy\<lparr>polFinalizers := removeFinalizer (recLib rec) (polFinalizers policy) finalizerName\<rparr>) (outside s1) = (r, w)"
      by fastforce
    show ?thesis
      by (rule cleaned [of s1 r]) (use assms True c None u in \<open>auto simp: handleDeletion_def Let_def split: sum.splits\<close>)
  qed
qed

lemma handleDeletion_slices:
  assumes "slice_store (recSlices rec) slices" and "other_calls_leave slices (recClient rec)"
    and "run_state (handleDeletion rec policy) s = ((rec', res, err), s')"
  shows "slices (outside s') = slices (outside s) \<or> slices (outside s') = (slices (outside s))(target_key policy := None)"
  using assms(3)
proof (cases rule: handleDeletion_cases)
  case (stuck e)
  with slice_store.cleanup_store(4) [OF assms(1) stuck(1)] show ?thesis by (simp add: target_key_def)
next
  case (cleaned s1 r)
  have "slices (outside s') = slices (outside s1)"
    by (rule other_callsD(2) [OF assms(2) cleaned(2)])
  with slice_store.cleanup_store(4) [OF assms(1) cleaned(1)] show ?thesis by (simp add: target_key_def)
qed simp

subsection \<open>A policy to try it on\<close>

definition demo_lib :: k8s_lib where
  "demo_lib = \<lparr>containsFinalizer = (\<lambda>fs f. f \<in> set fs), addFinalizer = (\<lambda>fs f. fs @ [f]),
     removeFinalizer = (\<lambda>fs f. filter (\<lambda>g. g \<noteq> f) fs),
     setStatusCondition = (\<lambda>cs c. c # filter (\<lambda>d. condType d \<noteq> condType c) cs)\<rparr>"

definition demo_spec :: AviatorPolicySpec where
  "demo_spec = \<lparr>specTargetRef = \<lparr>refAPIVersion = ''v1'', refKind = ''Service'', refName = ''web''\<rparr>,
     specLatencyThreshold = 100 * millisecond, specEvaluationInterval = 0,
     specSelection = \<lparr>selMode = SelectionModePercentage, selTopN = None, selPercentage = Some 50\<rparr>,
     specCircuitBreaker = None, specDampening = None, specLatencySource = LatencySourceProbe, specTargetPort = None\<rparr>"

definition demo_policy :: AviatorPolicy where
  "demo_policy = \<lparr>polAPIVersion = ''aviator.example.com/v1alpha1'', polKind = ''AviatorPolicy'', polName = ''p'',
     polNamespace = ''shop'', polUID = ''u-1'', polGeneration = 1, polFinalizers = [finalizerName],
     polDeletionTimestamp = None, polSpec = demo_spec,
     polStatus = \<lparr>lastEvaluationTime = zero_time, activePods = 0, totalPods = 0, averageLatencyMs = 0,
       p99LatencyMs = 0, circuitBrokenPods = [], podLatencies = [], conditions = []\<rparr>\<rparr>"

definition demo_service :: Service where
  "demo_service = \<lparr>svcName = ''web'', svcNamespace = ''shop'', svcSelector = [(''app'', ''web'')],
     svcPorts = [\<lparr>spName = ''http'', spProtocol = ''TCP'', spPort = 80, spTargetPort = IntPort 8080\<rparr>]\<rparr>"

definition demo_pod :: "string \<Rightarrow> string \<Rightarrow> Pod" where
  "demo_pod name ip = \<lparr>podName = name, podPhase = ''Running'', podIP = ip, podNodeName = ''node-1'', podDeletionTimestamp = None\<rparr>"

definition demo_pods :: "Pod list" where
  "demo_pods = [demo_pod ''slow'' ''10.0.0.1'', demo_pod ''fast'' ''10.0.0.2'']"

definition demo_key :: NamespacedName where
  "demo_key = \<lparr>nnNamespace = ''shop'', nnName = ''p''\<rparr>"

definition demo_cluster :: "AviatorPolicy \<Rightarrow> fault list \<Rightarrow> cluster" where
  "demo_cluster policy faults = \<lparr>clPolicies = (\<lambda>_. None)(demo_key := Some policy),
     clServices = (\<lambda>_. None)(\<lparr>nnNamespace = ''shop'', nnName = ''web''\<rparr> := Some demo_service),
     clPods = [(''shop'', [(''app'', ''web'')], demo_pod ''slow'' ''10.0.0.1''),
               (''shop'', [(''app'', ''web'')], demo_pod ''fast'' ''10.0.0.2'')],
     clSlices = [], clCache = [], clVersion = 0, clFaults = faults\<rparr>"

text \<open>A source that knows the latencies.\<close>

definition fixed_source :: "latencies \<Rightarrow> 'w Source" where
  "fixed_source lat = \<lparr>sourceGetLatencies = (\<lambda>ips. ret (Some (Inr (filter (\<lambda>(ip, st). ip \<in> set ips) lat)))),
     sourceName = ''fixed'', sourceReady = True\<rparr>"

lemma fixed_source_lawful: "wf_map lat \<Longrightarrow> latency_source (sourceGetLatencies (fixed_source lat))"
  by unfold_locales (auto simp: fixed_source_def distinct_map_filter)

lemma leaves_fixed_source [leaves_intros]: "leaves v (sourceGetLatencies (fixed_source lat) ips)"
  by (simp add: fixed_source_def leaves_ret)

definition demo_latencies :: latencies where
  "demo_latencies = [(''10.0.0.1'', \<lparr>P50 = 900 * millisecond, P99 = 900 * millisecond, SampleCount = 3, LastUpdated = 0\<rparr>),
     (''10.0.0.2'', \<lparr>P50 = 5 * millisecond, P99 = 5 * millisecond, SampleCount = 3, LastUpdated = 0\<rparr>)]"

definition demo_world :: "cluster \<Rightarrow> cluster world" where
  "demo_world c = \<lparr>clock = int, choice = (\<lambda>n. []), outside = c\<rparr>"

definition demo_reconciler :: "cluster Reconciler" where
  "demo_reconciler = NewReconciler cluster_client demo_lib (fixed_source demo_latencies) cluster_client"

lemma wf_demo_latencies: "wf_map demo_latencies"
  by (simp add: demo_latencies_def)

lemma serve_view: "(\<And>c. v (snd (f c)) = v c) \<Longrightarrow> (\<And>c fls. v (c\<lparr>clFaults := fls\<rparr>) = v c) \<Longrightarrow> v (snd (serve f c)) = v c"
  by (auto simp: serve_def Let_def split: list.split fault.split)

lemma cluster_other_calls: "other_calls_leave slice_at cluster_client"
  unfolding other_calls_leave_def cluster_client_def
  by (auto intro!: serve_view simp: store_policy_def slice_at_def Let_def)

lemmas demo_contracts = cluster.slice_store_axioms cluster_other_calls
  fixed_source_lawful [OF wf_demo_latencies] leaves_fixed_source

lemma demo_reconciler_simps [simp]:
  "recClient demo_reconciler = cluster_client" "recSlices demo_reconciler = cluster_client"
  "recSource demo_reconciler = fixed_source demo_latencies" "recLib demo_reconciler = demo_lib"
  by (simp_all add: demo_reconciler_def NewReconciler_def)

lemma cluster_lists_sized: "lists_sized cluster_client"
  unfolding lists_sized_def using cluster_pages by fastforce

subsection \<open>Every evaluation comes to an end\<close>

text \<open>
  (C9) An evaluation never panics, whatever the API answers and whatever the policy says, provided the
  latency source keeps its contract. It keeps the invariant of the state kept per policy. An evaluation of a
  policy that is not being deleted either returns an error (so the request is retried), or asks to be run again
  after a positive time, except exactly when the API did not find the Service the policy names in this evaluation.
\<close>

theorem Reconcile_returns:
  assumes "latency_source (sourceGetLatencies (recSource rec))"
    and "lists_sized (recClient rec)"
    and "rec_inv rec"
  shows "\<exists>rec' res err s'. run_state (Reconcile rec req) s = (Some (rec', res, err), s') \<and> rec_inv rec'
    \<and> (\<forall>policy w. getPolicy (recClient rec) req (outside s) = (Inr policy, w) \<and> polDeletionTimestamp policy = None
        \<and> err = None \<longrightarrow> (0 < RequeueAfter res \<longleftrightarrow> \<not> service_missing rec req (outside s)))"
proof -
  obtain out s' where run: "run_state (Reconcile rec req) s = (out, s')" by fastforce
  show ?thesis
  proof (rule Reconcile_outcome [OF assms(1) lists_sizedD [OF assms(2)] run], assumption)
    fix rec' res err
    assume out: "out = Some (rec', res, err)" and "evolves rec rec'"
      and again: "\<forall>policy w. getPolicy (recClient rec) req (outside s) = (Inr policy, w) \<longrightarrow> polDeletionTimestamp policy = None
        \<longrightarrow> err = None \<longrightarrow> (0 < RequeueAfter res \<longleftrightarrow> \<not> service_missing rec req (outside s))"
    then have "rec_inv rec'" using assms(3) by (simp add: evolves_def)
    with run out again show ?thesis by blast
  qed
qed

text \<open>The demo policy is evaluated again after a while; one whose Service is not there is not.\<close>

abbreviation demo_orphan :: "cluster world" where
  "demo_orphan \<equiv> demo_world ((demo_cluster demo_policy [])\<lparr>clServices := (\<lambda>_. None)\<rparr>)"

lemma demo_reads:
  defines "w \<equiv> outside (demo_world (demo_cluster demo_policy []))"
  shows "getPolicy cluster_client demo_key w = (Inr demo_policy, w)"
    and "getService cluster_client (service_key demo_key demo_policy) w = (Inr demo_service, w)"
    and "listPods cluster_client (svcNamespace demo_service) (svcSelector demo_service) w = (Inr demo_pods, w)"
  unfolding w_def
  by (simp_all add: cluster_client_def serve_def demo_world_def demo_cluster_def read_object_def service_key_def demo_key_def
      demo_policy_def demo_spec_def demo_service_def selected_pods_def demo_pods_def)

lemma demo_orphan_reads:
  "getPolicy cluster_client demo_key (outside demo_orphan) = (Inr demo_policy, outside demo_orphan)"
  "getService cluster_client (service_key demo_key demo_policy) (outside demo_orphan)
     = (Inl (NotFoundError ''not found''), outside demo_orphan)"
  by (simp_all add: cluster_client_def serve_def demo_world_def demo_cluster_def read_object_def)

lemma demo_live:
  assumes "getPolicy cluster_client demo_key w = (Inr demo_policy, w)"
  shows "live_policy demo_reconciler demo_key w policy w' \<longleftrightarrow> policy = demo_policy \<and> w' = w"
proof -
  have "containsFinalizer demo_lib (polFinalizers demo_policy) finalizerName" "polDeletionTimestamp demo_policy = None"
    by (simp_all add: demo_lib_def demo_policy_def)
  with assms show ?thesis by (auto simp: live_policy_def)
qed

theorem Reconcile_returns_witness:
  "(\<exists>rec' res s'. run_state (Reconcile demo_reconciler demo_key) (demo_world (demo_cluster demo_policy [])) = (Some (rec', res, None), s')
     \<and> rec_inv rec' \<and> 0 < RequeueAfter res)
   \<and> (\<exists>rec' res s'. run_state (Reconcile demo_reconciler demo_key) demo_orphan = (Some (rec', res, None), s') \<and> \<not> 0 < RequeueAfter res)"
proof -
  have inv: "rec_inv demo_reconciler" by (simp add: demo_reconciler_def NewReconciler_def rec_inv_def)
  note returns = Reconcile_returns [of demo_reconciler, unfolded demo_reconciler_simps, OF demo_contracts(3) cluster_lists_sized inv, of demo_key]
  have ok: "case_option False (\<lambda>(_, _, err). err = None) (fst (run_state (Reconcile demo_reconciler demo_key) (demo_world (demo_cluster demo_policy []))))"
    "case_option False (\<lambda>(_, _, err). err = None) (fst (run_state (Reconcile demo_reconciler demo_key) demo_orphan))" by code_simp+
  have live: "polDeletionTimestamp demo_policy = None" by (simp add: demo_policy_def)
  have there: "\<not> service_missing demo_reconciler demo_key (outside (demo_world (demo_cluster demo_policy [])))"
    using demo_reads(2) by (simp add: service_missing_def demo_live [OF demo_reads(1)])
  have missing: "service_missing demo_reconciler demo_key (outside demo_orphan)"
    using demo_orphan_reads(2) by (auto simp: service_missing_def demo_live [OF demo_orphan_reads(1)])
  obtain rec1 res1 err1 s1 where 1: "run_state (Reconcile demo_reconciler demo_key) (demo_world (demo_cluster demo_policy [])) = (Some (rec1, res1, err1), s1)"
    "rec_inv rec1" "err1 = None \<longrightarrow> 0 < RequeueAfter res1"
    using returns [of "demo_world (demo_cluster demo_policy [])"] demo_reads(1) live there by blast
  obtain rec2 res2 err2 s2 where 2: "run_state (Reconcile demo_reconciler demo_key) demo_orphan = (Some (rec2, res2, err2), s2)"
    "err2 = None \<longrightarrow> \<not> 0 < RequeueAfter res2"
    using returns [of demo_orphan] demo_orphan_reads(1) live missing by blast
  show ?thesis using 1 2 ok by simp
qed

lemma Reconcile_slices:
  assumes "slice_store (recSlices rec) slices" and "other_calls_leave slices (recClient rec)"
    and "\<And>ips. leaves slices (sourceGetLatencies (recSource rec) ips)"
    and "latency_source (sourceGetLatencies (recSource rec))"
    and "lists_sized (recClient rec)"
    and "run_state (Reconcile rec req) s = (out, s')"
    and "slices (outside s') \<noteq> slices (outside s)"
  shows "(\<exists>policy w. getPolicy (recClient rec) req (outside s) = (Inr policy, w) \<and> polDeletionTimestamp policy \<noteq> None
      \<and> slices (outside s') = (slices (outside s))(target_key policy := None))
    \<or> rerouted rec req (outside s) (slices (outside s)) (slices (outside s'))"
proof (cases rule: Reconcile_cases [OF assms(6)])
  case (1 e w1)
  have "slices w1 = slices (outside s)" by (rule other_callsD(1) [OF assms(2) 1(1)])
  with 1(2) assms(7) have False by simp
  then show ?thesis ..
next
  case (2 policy w1 x)
  obtain rec' res err where x: "x = (rec', res, err)" by (cases x) auto
  have "slices w1 = slices (outside s)" by (rule other_callsD(1) [OF assms(2) 2(1)])
  with handleDeletion_slices [OF assms(1,2) 2(3) [unfolded x]] assms(7)
  have "slices (outside s') = (slices (outside s))(target_key policy := None)" by auto
  with 2(1,2) show ?thesis by blast
next
  case (3 policy w1 e)
  have "slices w1 = slices (outside s)" by (rule other_callsD(1) [OF assms(2) 3(1)])
  with leavesD [OF leaves_ensure_finalizer [OF assms(2)] 3(3)] assms(7) have False by simp
  then show ?thesis ..
next
  case (4 policy w1 policy' s1)
  have "slices w1 = slices (outside s)" by (rule other_callsD(1) [OF assms(2) 4(1)])
  with leavesD [OF leaves_ensure_finalizer [OF assms(2)] 4(3)] have s1: "slices (outside s1) = slices (outside s)" by simp
  with assms(7) have "slices (outside s') \<noteq> slices (outside s1)" by simp
  from service_writes [OF assms(1-5) 4(4) this live_policyI [OF 4(1-3)]] s1 show ?thesis by (simp only: simp_thms)
qed

text \<open>
  (C5) The only slice an evaluation changes is the one of the policy's service. It removes it only when
  the policy is being deleted; otherwise it writes endpoints that each stand for a running pod of
  the service, not being deleted and with an IP, under the labels and ports of that service.
\<close>

theorem Reconcile_writes:
  assumes "slice_store (recSlices rec) slices" and "other_calls_leave slices (recClient rec)"
    and "\<And>ips. leaves slices (sourceGetLatencies (recSource rec) ips)"
    and "latency_source (sourceGetLatencies (recSource rec))"
    and "lists_sized (recClient rec)"
    and "run_state (Reconcile rec req) s = (out, s')"
    and "slices (outside s') \<noteq> slices (outside s)"
  shows "(\<exists>policy w. getPolicy (recClient rec) req (outside s) = (Inr policy, w) \<and> polDeletionTimestamp policy \<noteq> None
      \<and> slices (outside s') = (slices (outside s))(target_key policy := None))
    \<or> rerouted rec req (outside s) (slices (outside s)) (slices (outside s'))"
  using Reconcile_slices [OF assms] .

abbreviation demo_start :: "AviatorPolicy \<Rightarrow> fault list \<Rightarrow> cluster world" where
  "demo_start policy faults \<equiv> demo_world (demo_cluster policy faults)"

text \<open>The first evaluation writes the slice of the demo service.\<close>

lemma demo_written:
  "slice_at (outside (snd (run_state (Reconcile demo_reconciler demo_key) (demo_start demo_policy []))))
     (routed demo_service) \<noteq> None"
  by code_simp

lemma demo_unwritten: "slice_at (outside (demo_start policy faults)) k = None"
  by (simp add: demo_world_def demo_cluster_def slice_at_def find_slice_def)

theorem Reconcile_writes_witness:
  "\<exists>out s'. run_state (Reconcile demo_reconciler demo_key) (demo_start demo_policy []) = (out, s')
     \<and> rerouted demo_reconciler demo_key (outside (demo_start demo_policy [])) (slice_at (outside (demo_start demo_policy []))) (slice_at (outside s'))"
proof -
  obtain out s' where run: "run_state (Reconcile demo_reconciler demo_key) (demo_start demo_policy []) = (out, s')"
    by fastforce
  have changed: "slice_at (outside s') \<noteq> slice_at (outside (demo_start demo_policy []))"
    using demo_written run demo_unwritten by (metis snd_conv)
  have read: "fst (getPolicy cluster_client demo_key (outside (demo_start demo_policy []))) = Inr demo_policy"
    by code_simp
  from Reconcile_writes [of demo_reconciler slice_at, unfolded demo_reconciler_simps, OF demo_contracts(1,2,4,3)
      cluster_lists_sized run changed]
  consider (deleted) policy w where "getPolicy cluster_client demo_key (outside (demo_start demo_policy [])) = (Inr policy, w)"
      "polDeletionTimestamp policy \<noteq> None"
    | (written) "rerouted demo_reconciler demo_key (outside (demo_start demo_policy [])) (slice_at (outside (demo_start demo_policy []))) (slice_at (outside s'))"
    by blast
  then show ?thesis
  proof cases
    case deleted
    with read have "policy = demo_policy" by simp
    with deleted(2) show ?thesis by (simp add: demo_policy_def)
  next
    case written
    with run show ?thesis by blast
  qed
qed

subsection \<open>Which pods are routed to\<close>

text \<open>
  (C6) When an evaluation writes the slice of its service, it writes the pods of a sound selection: they
  are measured pods that the breaker has not ejected (all measured pods count when every one of them is
  ejected), each once, at least one if any was measured, and none of them is slower than a candidate
  that is left out.
\<close>

theorem evaluation_selects:
  assumes "slice_store (recSlices rec) slices" and "other_calls_leave slices (recClient rec)"
    and "latency_source (sourceGetLatencies (recSource rec))" and "fleet_sized podList"
    and "collect_pods podList = (m, ips)"
    and "run_state (sourceGetLatencies (recSource rec) ips) s = (Some (Inr lat), s1)"
    and "run_state (evaluate rec key policy service podList) s = (Some (rec', res, err), s')"
    and "slices (outside s') \<noteq> slices (outside s1)"
  defines "cand \<equiv> candidates (ejected_by policy key rec') (measured m lat)"
  shows "\<exists>sel t. slices (outside s') = (slices (outside s1))(routed service \<mapsto> t)
    \<and> routes policy service (map (pod_endpoint m) sel) (slices (outside s1) (routed service)) t
    \<and> rankPodIP ` set sel \<subseteq> cand \<and> distinct (map rankPodIP sel) \<and> (cand \<noteq> {} \<longrightarrow> sel \<noteq> [])
    \<and> (\<forall>r\<in>set sel. map_of lat (rankPodIP r) = Some (rankStats r)
        \<and> (\<forall>ip st. ip \<in> cand - rankPodIP ` set sel \<longrightarrow> map_of lat ip = Some st \<longrightarrow> rankP99 r \<le> P99 st))"
proof -
  have "run_state (route rec key policy service m lat) s1 = (Some (rec', res, err), s')"
    using assms(5-7) by (simp add: evaluate_def)
  from route_selection [OF assms(1,2,5,4) latency_source.keys_distinct [OF assms(3,6)] this assms(8)]
  show ?thesis unfolding cand_def by blast
qed

text \<open>
  (C8) One evaluation never ejects a healthy pod: a pod in service whose measured P99 is within the
  threshold of the policy's breaker, or that was not measured, is in service afterwards, whatever
  happens to the other pods.
\<close>

theorem fast_pods_stay:
  assumes "latency_source (sourceGetLatencies (recSource rec))" and "fleet_sized podList" and "rec_inv rec"
    and "breaker_config policy = Some cfg"
    and "collect_pods podList = (m, ips)"
    and "run_state (sourceGetLatencies (recSource rec) ips) s = (Some (Inr lat), s1)"
    and "run_state (evaluate rec key policy service podList) s = (Some (rec', res, err), s')"
    and "\<not> IsEjected (breaker_before cfg key rec) ip"
    and "\<forall>st. map_of lat ip = Some st \<longrightarrow> P99 st \<le> p99Threshold (breaker_before cfg key rec)"
  shows "\<not> ejected_by policy key rec' ip"
proof -
  have run: "run_state (route rec key policy service m lat) s1 = (Some (rec', res, err), s')"
    using assms(5-7) by (simp add: evaluate_def)
  obtain rankings s0 rankings' br rec1 s2 sel update rec2 where
    r: "is_ranking m lat rankings" "run_state (break_circuits policy key rankings rec) s0 = ((rankings', br, rec1), s2)"
      "dampen policy key (map rankPodIP sel) rec1 = (update, rec2)"
      "if update then run_state (publish rec2 policy service m rankings' sel br) s2 = (Some (rec', res, err), s')
       else Some (rec', res, err) = Some (rec2, \<lparr>RequeueAfter = getEvaluationInterval policy\<rparr>, None) \<and> s' = s2"
    by (rule route_stages [OF run latency_source.keys_distinct [OF assms(1,6)] assms(5,2)])
  obtain b1 tr s3 b B where b: "run_state (CheckRecovery (breaker_before cfg key rec)) s0 = ((b1, tr), s3)"
    "run_state (measure_all rankings b1) s3 = (b, s2)" "rankings' = drop_ejected b rankings" "br = Some b"
    "rec1 = rec\<lparr>breakers := B\<rparr>" "map_of B = (map_of (breakers rec))(key \<mapsto> b)"
    "wf_map (breakers rec) \<longrightarrow> wf_map B"
    by (rule break_circuits_on [OF assms(4) r(2)])
  have "\<not> IsEjected b ip"
  proof
    assume "IsEjected b ip"
    then have "IsEjected (breaker_before cfg key rec) ip"
    proof (rule round_result(3) [OF b(1,2) breaker_inv_before [OF assms(3)], rotated])
      fix x assume "x \<in> set rankings" "rankPodIP x = ip"
      with r(1) have "map_of lat ip = Some (rankStats x)" by (auto simp: is_ranking_def)
      with assms(9) show "rankP99 x \<le> p99Threshold (breaker_before cfg key rec)" by simp
    qed
    with assms(8) show False by simp
  qed
  moreover have "rec' = rec2"
  proof (cases update)
    case True
    have "fleet_sized rankings'"
      using break_circuits_candidates(4) [OF r(2)] length_kept [OF r(1) assms(5,2)] by simp
    with True r(4) publish_requeues [of rec2 policy service m rankings' sel br s2 "Some (rec', res, err)" s']
    show ?thesis by (simp add: requeued_def)
  qed (use r(4) in simp)
  moreover obtain D where "rec2 = rec1\<lparr>dampeners := D\<rparr>" by (rule dampen_result [OF r(3)])
  ultimately show ?thesis using b(5,6) by (simp add: ejected_by_def)
qed

subsection \<open>The demo policy again\<close>

definition demo_map :: "Pod gomap" where
  "demo_map = [(''10.0.0.1'', demo_pod ''slow'' ''10.0.0.1''), (''10.0.0.2'', demo_pod ''fast'' ''10.0.0.2'')]"

definition demo_breaking :: AviatorPolicy where
  "demo_breaking = demo_policy\<lparr>polSpec := demo_spec\<lparr>specCircuitBreaker := Some \<lparr>cbEnabled = True,
     cbP99Threshold = 100 * millisecond, cbConsecutiveViolations = 1, cbRecoveryInterval = second\<rparr>\<rparr>\<rparr>"

lemma demo_collect: "collect_pods demo_pods = (demo_map, [''10.0.0.1'', ''10.0.0.2''])"
  by (simp add: collect_pods_def demo_pods_def demo_pod_def demo_map_def)

lemma demo_measured:
  "run_state (sourceGetLatencies (fixed_source demo_latencies) [''10.0.0.1'', ''10.0.0.2'']) s = (Some (Inr demo_latencies), s)"
  by (simp add: fixed_source_def demo_latencies_def)

lemma demo_pods_sized: "fleet_sized demo_pods"
  by (simp add: demo_pods_def)

lemma rec_inv_demo: "rec_inv demo_reconciler"
  by (simp add: demo_reconciler_def NewReconciler_def rec_inv_def)

abbreviation demo_evaluate :: "AviatorPolicy \<Rightarrow> (cluster world, cluster outcome option) state" where
  "demo_evaluate policy \<equiv> evaluate demo_reconciler ''shop/p'' policy demo_service demo_pods"

lemma demo_evaluated:
  obtains rec' res err s' where "run_state (demo_evaluate policy) s = (Some (rec', res, err), s')"
proof -
  obtain out s' where run: "run_state (demo_evaluate policy) s = (out, s')" by fastforce
  have "\<exists>x. out = Some x"
  proof (rule evaluate_outcome [OF run])
    show "latency_source (sourceGetLatencies (recSource demo_reconciler))" by (simp add: demo_contracts(3))
    show "fleet_sized demo_pods" by (rule demo_pods_sized)
  qed blast
  then obtain x where "out = Some x" ..
  with run that show ?thesis by (cases x) auto
qed

theorem evaluation_selects_witness:
  "\<exists>rec' res err s' sel t. run_state (demo_evaluate demo_policy) (demo_start demo_policy []) = (Some (rec', res, err), s')
     \<and> slice_at (outside s') (routed demo_service) = Some t
     \<and> routes demo_policy demo_service (map (pod_endpoint demo_map) sel) None t \<and> sel \<noteq> []"
proof -
  let ?s = "demo_start demo_policy []"
  obtain rec' res err s' where run: "run_state (demo_evaluate demo_policy) ?s = (Some (rec', res, err), s')"
    by (rule demo_evaluated)
  have "slice_at (outside (snd (run_state (demo_evaluate demo_policy) ?s))) (routed demo_service) \<noteq> None"
    by code_simp
  then have changed: "slice_at (outside s') \<noteq> slice_at (outside ?s)" using run demo_unwritten by (metis snd_conv)
  let ?cand = "candidates (ejected_by demo_policy ''shop/p'' rec') (measured demo_map demo_latencies)"
  have "breaker_config demo_policy = None" by (simp add: breaker_config_def demo_policy_def demo_spec_def)
  then have "?cand = measured demo_map demo_latencies" by (auto simp: candidates_def ejected_by_def)
  then have cand: "?cand \<noteq> {}" by (auto simp: measured_def demo_map_def demo_latencies_def)
  from evaluation_selects [of demo_reconciler slice_at, unfolded demo_reconciler_simps, OF demo_contracts(1,2,3)
      demo_pods_sized demo_collect demo_measured run changed]
  obtain sel t where sel: "slice_at (outside s') = (slice_at (outside ?s))(routed demo_service \<mapsto> t)"
    "routes demo_policy demo_service (map (pod_endpoint demo_map) sel) (slice_at (outside ?s) (routed demo_service)) t" "?cand \<noteq> {} \<longrightarrow> sel \<noteq> []"
    by blast
  with cand have "sel \<noteq> []" by blast
  moreover have "slice_at (outside s') (routed demo_service) = Some t" unfolding sel(1) by simp
  ultimately show ?thesis using run sel(2) [unfolded demo_unwritten] by blast
qed

theorem fast_pods_stay_witness:
  "\<exists>rec' res err s'. run_state (demo_evaluate demo_breaking) (demo_start demo_breaking []) = (Some (rec', res, err), s')
     \<and> ejected_by demo_breaking ''shop/p'' rec' ''10.0.0.1'' \<and> \<not> ejected_by demo_breaking ''shop/p'' rec' ''10.0.0.2''"
proof -
  let ?s = "demo_start demo_breaking []"
  let ?cfg = "\<lparr>cfgP99Threshold = 100 * millisecond, cfgConsecutiveViolations = 1, cfgRecoveryInterval = second\<rparr>"
  obtain rec' res err s' where run: "run_state (demo_evaluate demo_breaking) ?s = (Some (rec', res, err), s')"
    by (rule demo_evaluated)
  have cfg: "breaker_config demo_breaking = Some ?cfg"
    by (simp add: breaker_config_def demo_breaking_def demo_policy_def demo_spec_def)
  have before: "breaker_before ?cfg ''shop/p'' demo_reconciler = NewBreaker ?cfg"
    by (simp add: breaker_before_def demo_reconciler_def NewReconciler_def)
  have new: "\<not> IsEjected (NewBreaker ?cfg) ''10.0.0.2''" by (simp add: IsEjected_def NewBreaker_def)
  have fast: "\<forall>st. map_of demo_latencies ''10.0.0.2'' = Some st \<longrightarrow> P99 st \<le> p99Threshold (NewBreaker ?cfg)"
    by (simp add: demo_latencies_def NewBreaker_def less_eq_go_int_def go_eval)
  have "\<not> ejected_by demo_breaking ''shop/p'' rec' ''10.0.0.2''"
    using fast_pods_stay [of demo_reconciler, unfolded demo_reconciler_simps, OF demo_contracts(3) demo_pods_sized
        rec_inv_demo cfg demo_collect demo_measured run] new fast unfolding before by blast
  moreover have "ejected_by demo_breaking ''shop/p'' rec' ''10.0.0.1''"
  proof -
    have "case_option False (\<lambda>(r, _). ejected_by demo_breaking ''shop/p'' r ''10.0.0.1'')
        (fst (run_state (demo_evaluate demo_breaking) ?s))" by code_simp
    with run show ?thesis by simp
  qed
  ultimately show ?thesis using run by blast
qed

end
