(* ===== verification/Policy_Lifecycle.thy ===== *)
theory Policy_Lifecycle
  imports Reconciler_Properties
begin

section \<open>Over the life of a policy\<close>

text \<open>
  Deletion, changes of the policy, the status, and the default latency source: properties of the reconciler
  over the life of a policy.
\<close>

subsection \<open>Deletion\<close>

text \<open>
  (C10) The deletion of a policy: without an error, the slice of its service is gone, the state kept for
  the policy is forgotten, and the finalizer was removed after that; if the slice could not be
  removed, the finalizer stays, the state stays, and the error brings the request back.
\<close>

theorem deletion_cleans:
  assumes "slice_store (recSlices rec) slices" and "other_calls_leave slices (recClient rec)"
    and "containsFinalizer (recLib rec) (polFinalizers policy) finalizerName"
    and "run_state (handleDeletion rec policy) s = ((rec', res, err), s')"
  defines "released \<equiv> policy\<lparr>polFinalizers := removeFinalizer (recLib rec) (polFinalizers policy) finalizerName\<rparr>"
  shows "(err = None \<longrightarrow> slices (outside s') = (slices (outside s))(target_key policy := None)
      \<and> map_of (breakers rec') (state_key policy) = None \<and> map_of (dampeners rec') (state_key policy) = None
      \<and> (\<exists>w p. slices w (target_key policy) = None \<and> updatePolicy (recClient rec) released w = (Inr p, outside s')))
    \<and> (slices (outside s') (target_key policy) \<noteq> None \<longrightarrow> err \<noteq> None \<and> rec' = rec
      \<and> (\<exists>e. deleteSlice (recSlices rec) (target_key policy) (outside s) = (Some e, outside s')))"
  using assms(4)
proof (cases rule: handleDeletion_cases)
  case no_finalizer
  with assms(3) show ?thesis by simp
next
  case (stuck e)
  obtain d w where d: "deleteSlice (recSlices rec) (target_key policy) (outside s) = (d, w)" by fastforce
  with stuck(1) have "d = Some e" "outside s' = w"
    by (auto simp: Manager_Cleanup_def target_key_def split: option.splits if_splits)
  with d stuck(2,3) show ?thesis by simp
next
  case (cleaned s1 r)
  have s1: "slices (outside s1) = (slices (outside s))(target_key policy := None)"
    using slice_store.cleanup_store(3) [OF assms(1) cleaned(1)] by (simp add: target_key_def)
  moreover have s': "slices (outside s') = slices (outside s1)" by (rule other_callsD(2) [OF assms(2) cleaned(2)])
  moreover have "\<exists>w p. slices w (target_key policy) = None \<and> updatePolicy (recClient rec) released w = (Inr p, outside s')"
    if ok: "err = None"
  proof -
    obtain p where "r = Inr p" using ok cleaned(3) by (cases r) auto
    with cleaned(2) s1 show ?thesis unfolding released_def by (intro exI [of _ "outside s1"] exI [of _ p]) simp
  qed
  ultimately show ?thesis unfolding cleaned(4) by (simp add: map_of_delete_if)
qed

theorem deletion_cleans_witness:
  "\<exists>rec' res s'. run_state (handleDeletion demo_reconciler demo_policy)
      (snd (run_state (Reconcile demo_reconciler demo_key) (demo_start demo_policy []))) = ((rec', res, None), s')
    \<and> slice_at (outside s') (target_key demo_policy) = None"
proof -
  let ?s = "snd (run_state (Reconcile demo_reconciler demo_key) (demo_start demo_policy []))"
  obtain rec' res err s' where run: "run_state (handleDeletion demo_reconciler demo_policy) ?s = ((rec', res, err), s')"
    by (metis prod.collapse)
  have "snd (snd (fst (run_state (handleDeletion demo_reconciler demo_policy) ?s))) = None" by code_simp
  with run have err: "err = None" by simp
  have "containsFinalizer demo_lib (polFinalizers demo_policy) finalizerName" by code_simp
  from deletion_cleans [of demo_reconciler slice_at, unfolded demo_reconciler_simps, OF demo_contracts(1,2) this run]
  show ?thesis using run err by (auto simp: fun_upd_apply)
qed

subsection \<open>Changes of the policy\<close>

text \<open>
  (C30) The settings of a breaker are read once: as long as a policy's breaker is kept, evaluations leave
  its threshold, its count of violations and its recovery interval as they were when it was created,
  whatever the policy says by now.
\<close>

theorem breaker_config_frozen:
  assumes "latency_source (sourceGetLatencies (recSource rec))" and "lists_sized (recClient rec)" and "rec_inv rec"
    and "run_state (Reconcile rec req) s = (Some (rec', res, err), s')"
    and "map_of (breakers rec) key = Some b" and "map_of (breakers rec') key = Some b'"
  shows "p99Threshold b' = p99Threshold b \<and> consecutiveViolations b' = consecutiveViolations b
    \<and> recoveryInterval b' = recoveryInterval b"
proof -
  have "evolves rec rec'"
    by (rule Reconcile_outcome [OF assms(1) lists_sizedD [OF assms(2)] assms(4)]) simp_all
  with assms(3,5,6) have "same_config b b'" by (auto simp: evolves_def simp del: map_of_eq_Some_iff)
  then show ?thesis by (simp add: same_config_def)
qed

definition old_config :: Config where
  "old_config = \<lparr>cfgP99Threshold = 30 * second, cfgConsecutiveViolations = 5, cfgRecoveryInterval = 60 * second\<rparr>"

definition demo_keeping :: "cluster Reconciler" where
  "demo_keeping = demo_reconciler\<lparr>breakers := [(''shop/p'', NewBreaker old_config)]\<rparr>"

theorem breaker_config_frozen_witness:
  "\<exists>rec' res err s' b. run_state (Reconcile demo_keeping demo_key) (demo_start demo_breaking []) = (Some (rec', res, err), s')
     \<and> map_of (breakers rec') ''shop/p'' = Some b \<and> p99Threshold b = 30 * second
     \<and> map_option cbP99Threshold (specCircuitBreaker (polSpec demo_breaking)) = Some (100 * millisecond)"
proof -
  have simps: "recClient demo_keeping = cluster_client" "recSource demo_keeping = fixed_source demo_latencies"
    "map_of (breakers demo_keeping) ''shop/p'' = Some (NewBreaker old_config)"
    by (simp_all add: demo_keeping_def)
  have inv: "rec_inv demo_keeping"
    using breaker_inv_New [of old_config] by (auto simp: demo_keeping_def rec_inv_def demo_reconciler_def NewReconciler_def)
  have "case_option False (\<lambda>(r, _). map_of (breakers r) ''shop/p'' \<noteq> None)
      (fst (run_state (Reconcile demo_keeping demo_key) (demo_start demo_breaking [])))" by code_simp
  then obtain rec' res err s' b where run: "run_state (Reconcile demo_keeping demo_key) (demo_start demo_breaking [])
      = (Some (rec', res, err), s')" "map_of (breakers rec') ''shop/p'' = Some b"
    by (cases "run_state (Reconcile demo_keeping demo_key) (demo_start demo_breaking [])") (auto split: option.splits)
  from breaker_config_frozen [of demo_keeping, unfolded simps, OF demo_contracts(3) cluster_lists_sized inv run(1) simps(3) run(2)]
  have "p99Threshold b = 30 * second" by (simp add: NewBreaker_def old_config_def)
  with run show ?thesis by (simp add: demo_breaking_def)
qed

subsection \<open>The status\<close>

text \<open>
  (C31) The status does not show the ejections: the rows are those of the pods left after the ejected ones
  were dropped, so unless every measured pod is ejected no row is marked as circuit broken, and
  \<open>TotalPods\<close> counts the pods left instead of the pods of the Service.
\<close>

theorem status_hides_ejected:
  assumes "run_state (break_circuits policy key rankings rec) s = ((rankings', br, rec'), s1)"
    and "breaker_config policy = Some cfg"
    and "r \<in> set rankings" and "\<not> ejected_by policy key rec' (rankPodIP r)"
    and "run_state (updateStatus policy rankings' selected br) s2 = (Some p, s3)"
  shows "totalPods (polStatus p) = go_conv (go_len (filter (\<lambda>x. \<not> ejected_by policy key rec' (rankPodIP x)) rankings))
    \<and> (\<forall>row\<in>set (podLatencies (polStatus p)). \<not> infoCircuitBroken row)"
proof -
  obtain b1 tr s4 b B where b: "run_state (CheckRecovery (breaker_before cfg key rec)) s = ((b1, tr), s4)"
    "run_state (measure_all rankings b1) s4 = (b, s1)" "rankings' = drop_ejected b rankings" "br = Some b"
    "rec' = rec\<lparr>breakers := B\<rparr>" "map_of B = (map_of (breakers rec))(key \<mapsto> b)"
    "wf_map (breakers rec) \<longrightarrow> wf_map B"
    by (rule break_circuits_on [OF assms(2,1)])
  have ej: "ejected_by policy key rec' = IsEjected b" using assms(2) b(5,6) by (simp add: ejected_by_def fun_eq_iff)
  have left: "rankings' = filter (\<lambda>x. \<not> IsEjected b (rankPodIP x)) rankings"
    using assms(3,4) unfolding ej b(3) by (auto simp: drop_ejected_def Let_def filter_empty_conv)
  have p: "totalPods (polStatus p) = go_conv (go_len rankings')"
    "podLatencies (polStatus p) = map (pod_info br) (take maxStatusPodEntries rankings')"
    using assms(5) by (auto simp: updateStatus_def Let_def split: if_splits option.splits prod.splits)
  have "\<not> infoCircuitBroken row" if "row \<in> set (podLatencies (polStatus p))" for row
  proof -
    from that obtain x where "x \<in> set rankings'" "row = pod_info br x" unfolding p(2) by (auto dest: in_set_takeD)
    then show ?thesis unfolding left b(4) by (simp add: pod_info_def)
  qed
  with p(1) left show ?thesis by (simp add: ej)
qed

subsection \<open>The default latency source\<close>

lemma fresh_ebpf_leaves:
  assumes "other_calls_leave slices (recClient rec)" and "recSource rec = ebpf_Source (NewEBPFSource http)"
    and "getPolicy (recClient rec) req (outside s) = (Inr policy, w)" and "polDeletionTimestamp policy = None"
    and "run_state (Reconcile rec req) s = (out, s')"
  shows "slices (outside s') = slices (outside s)"
proof -
  have evaluate: "leaves slices (evaluate rec key p service ps)" for key p service ps
  proof (rule leavesI)
    fix s r s' assume run: "run_state (evaluate rec key p service ps) s = (r, s')"
    obtain m ips where c: "collect_pods ps = (m, ips)" by fastforce
    have "run_state (sourceGetLatencies (recSource rec) ips) s
        = (Some (Inl (Errorf ''no eBPF agent endpoints available'')), s)"
      by (simp add: assms(2) ebpf_Source_def EBPFSource_GetLatencies_def NewEBPFSource_def)
    with run c have "run_state (give_up rec p ''LatencyFetchFailed'' ''no eBPF agent endpoints available'') s = (r, s')"
      by (simp add: evaluate_def)
    then show "slices (outside s') = slices (outside s)" by (rule leavesD [OF leaves_give_up [OF assms(1)]])
  qed
  have "leaves slices (reconcile_service rec req p)" for p
    unfolding reconcile_service_def
    by (intro leaves_intros evaluate assms(1)) (use assms(1) in \<open>simp add: other_calls_leave_def\<close>)
  then have service: "leaves slices (reconcile_service rec req p)" for p .
  have w: "slices w = slices (outside s)" by (rule other_callsD(1) [OF assms(1,3)])
  show ?thesis
  proof (cases rule: Reconcile_cases [OF assms(5)])
    case (3 p w1 e)
    with assms(3) w leavesD [OF leaves_ensure_finalizer [OF assms(1)] 3(3)] show ?thesis by simp
  next
    case (4 p w1 p' s1)
    with assms(3) w leavesD [OF leaves_ensure_finalizer [OF assms(1)] 4(3)] leavesD [OF service 4(4)] show ?thesis by simp
  qed (use assms(3,4) in simp_all)
qed

text \<open>
  (C32) With the eBPF source as the controller creates it, an evaluation of a policy that is not being
  deleted never touches a slice: the traffic of the service is never routed.
\<close>

theorem fresh_ebpf_never_routes:
  assumes "other_calls_leave slices (recClient rec)" and "recSource rec = ebpf_Source (NewEBPFSource http)"
    and "getPolicy (recClient rec) req (outside s) = (Inr policy, w)" and "polDeletionTimestamp policy = None"
    and "run_state (Reconcile rec req) s = (out, s')"
  shows "slices (outside s') = slices (outside s)"
  using assms by (rule fresh_ebpf_leaves)

definition demo_rankings :: "PodRanking list" where
  "demo_rankings = sample_ranking [(''10.0.0.2'', 5 * millisecond), (''10.0.0.1'', 900 * millisecond)]"

theorem status_hides_ejected_witness:
  "\<exists>rankings' br rec' s1 p s3.
     run_state (break_circuits demo_breaking ''shop/p'' demo_rankings demo_reconciler) (demo_start demo_breaking [])
       = ((rankings', br, rec'), s1)
     \<and> ejected_by demo_breaking ''shop/p'' rec' ''10.0.0.1''
     \<and> run_state (updateStatus demo_breaking rankings' rankings' br) s1 = (Some p, s3)
     \<and> totalPods (polStatus p) = 1 \<and> (\<exists>rows. podLatencies (polStatus p) = rows \<and> filter infoCircuitBroken rows = [])"
proof -
  let ?break = "run_state (break_circuits demo_breaking ''shop/p'' demo_rankings demo_reconciler) (demo_start demo_breaking [])"
  let ?rec = "snd (snd (fst ?break))" and ?cfg = "the (breaker_config demo_breaking)"
  let ?ejected = "ejected_by demo_breaking ''shop/p''"
  obtain rankings' br rec' s1 where break: "?break = ((rankings', br, rec'), s1)" by (metis prod.collapse)
  have facts: "filter (\<lambda>x. \<not> ?ejected ?rec (rankPodIP x)) demo_rankings = [hd demo_rankings]"
    "?ejected ?rec ''10.0.0.1''" "\<not> ?ejected ?rec (rankPodIP (hd demo_rankings))" by code_simp+
  have cfg: "breaker_config demo_breaking = Some ?cfg"
    by (simp add: breaker_config_def demo_breaking_def demo_policy_def demo_spec_def)
  have hd: "hd demo_rankings \<in> set demo_rankings" by (simp add: demo_rankings_def sample_ranking_def)
  have "fleet_sized rankings'"
    using break_circuits_candidates(4) [OF break] by (simp add: demo_rankings_def sample_ranking_def)
  then obtain p s3 where status: "run_state (updateStatus demo_breaking rankings' rankings' br) s1 = (Some p, s3)"
    using updateStatus_Some [of rankings' demo_breaking rankings' br s1] by (metis prod.collapse)
  have total: "totalPods (polStatus p) = go_conv (go_len [hd demo_rankings])"
    and rows: "\<forall>row\<in>set (podLatencies (polStatus p)). \<not> infoCircuitBroken row"
    using status_hides_ejected [OF break cfg hd _ status] facts break by simp_all
  have "totalPods (polStatus p) = 1" unfolding total by (simp add: go_conv_def go_eval)
  with break status facts(2) rows show ?thesis by (auto simp: filter_empty_conv)
qed

text \<open>The demo reconciler on that source; there are no agents to ask.\<close>

definition silent_agents :: "cluster http_client" where
  "silent_agents = \<lparr>newRequest = (\<lambda>url. None), httpDo = (\<lambda>url w. (Inl (Errorf ''connection refused''), w))\<rparr>"

theorem fresh_ebpf_never_routes_witness:
  "\<exists>out s'. run_state (Reconcile (demo_reconciler\<lparr>recSource := ebpf_Source (NewEBPFSource silent_agents)\<rparr>) demo_key)
       (demo_start demo_policy []) = (out, s') \<and> slice_at (outside s') = slice_at (outside (demo_start demo_policy []))"
proof -
  let ?rec = "demo_reconciler\<lparr>recSource := ebpf_Source (NewEBPFSource silent_agents)\<rparr>"
  let ?s = "demo_start demo_policy []"
  obtain out s' where run: "run_state (Reconcile ?rec demo_key) ?s = (out, s')" by fastforce
  have client: "recClient ?rec = cluster_client" "recSource ?rec = ebpf_Source (NewEBPFSource silent_agents)" by simp_all
  have "fst (getPolicy cluster_client demo_key (outside ?s)) = Inr demo_policy" by code_simp
  then obtain w where get: "getPolicy cluster_client demo_key (outside ?s) = (Inr demo_policy, w)"
    by (metis prod.collapse)
  have live: "polDeletionTimestamp demo_policy = None" by (simp add: demo_policy_def)
  have "slice_at (outside s') = slice_at (outside ?s)"
    by (rule fresh_ebpf_never_routes [where slices = slice_at and rec = ?rec and http = silent_agents,
          unfolded client, OF cluster_other_calls refl get live run])
  with run show ?thesis by blast
qed

end
