(* ===== verification/Slice_Properties.thy ===== *)
theory Slice_Properties
  imports Policy_Lifecycle
begin

section \<open>Properties of the EndpointSlice manager\<close>

text \<open>
  The manager against its specification on the map of slices: one entry replaced, or one removed.
\<close>

text \<open>
  (C28) \<open>Manager.Reconcile\<close> refines "put the slice of the service": when it succeeds, the slice
  \<open>aviator-\<close>\<^emph>\<open>service\<close> in the namespace of the service carries exactly the selected endpoints, the ports
  of the service and the three labels, whether it was there before or not, and every other slice is
  as it was; when it fails, it has done that or nothing. A new slice is owned by the policy, one that
  was there keeps its owners.
\<close>

theorem slice_reconciled:
  assumes "slice_store client slices"
    and "run_state (Manager_Reconcile client policy service eps) s = (err, s')"
  shows "\<exists>t. slice_key t = routed service \<and> map epAddresses (sliceEndpoints t) = map (\<lambda>e. [pePodIP e]) eps
    \<and> slicePorts t = map build_port (svcPorts service)
    \<and> map_of (sliceLabels t) ServiceNameLabel = Some (svcName service)
    \<and> map_of (sliceLabels t) PolicyNameLabel = Some (polName policy)
    \<and> sliceOwnerReferences t = (case slices (outside s) (routed service) of
         None \<Rightarrow> [owner_reference policy] | Some before \<Rightarrow> sliceOwnerReferences before)
    \<and> (slices (outside s') = (slices (outside s))(routed service \<mapsto> t)
       \<or> err \<noteq> None \<and> slices (outside s') = slices (outside s))"
proof -
  let ?old = "slices (outside s) (routed service)"
  have content: "slice_key t = routed service \<and> map epAddresses (sliceEndpoints t) = map (\<lambda>e. [pePodIP e]) eps
    \<and> slicePorts t = map build_port (svcPorts service)
    \<and> map_of (sliceLabels t) ServiceNameLabel = Some (svcName service)
    \<and> map_of (sliceLabels t) PolicyNameLabel = Some (polName policy)
    \<and> sliceOwnerReferences t = (case ?old of None \<Rightarrow> [owner_reference policy] | Some before \<Rightarrow> sliceOwnerReferences before)"
    if "routes policy service eps ?old t" for t
    using that by (simp add: routes_def build_endpoint_def comp_def ManagedByLabel_def ServiceNameLabel_def PolicyNameLabel_def)
  show ?thesis
  proof (cases "slices (outside s') = slices (outside s) \<and> err \<noteq> None")
    case True
    let ?new = "buildEndpointSlice (slice_name (svcName service)) policy service eps"
    have "routes policy service eps ?old (?new\<lparr>sliceOwnerReferences :=
        (case ?old of None \<Rightarrow> [owner_reference policy] | Some before \<Rightarrow> sliceOwnerReferences before)\<rparr>)"
      by (simp add: routes_def buildEndpointSlice_def)
    with True content show ?thesis by blast
  next
    case False
    then obtain t where "routes policy service eps ?old t" "slices (outside s') = (slices (outside s))(routed service \<mapsto> t)"
      using slice_store.reconcile_store(3,4) [OF assms] by blast
    with content show ?thesis by blast
  qed
qed

theorem slice_reconciled_witness:
  "\<exists>err s' t. run_state (Manager_Reconcile cluster_client demo_policy demo_service [pod_endpoint demo_map (hd demo_rankings)])
       (demo_start demo_policy [Healthy, Late ''timeout'']) = (Some err, s')
     \<and> slice_at (outside s') (routed demo_service) = Some t \<and> map epAddresses (sliceEndpoints t) = [[''10.0.0.2'']]"
proof -
  let ?eps = "[pod_endpoint demo_map (hd demo_rankings)]" and ?s = "demo_start demo_policy [Healthy, Late ''timeout'']"
  let ?run = "run_state (Manager_Reconcile cluster_client demo_policy demo_service ?eps) ?s"
  have facts: "fst ?run \<noteq> None" "slice_at (outside (snd ?run)) (routed demo_service) \<noteq> None" by code_simp+
  then obtain err s' where run: "?run = (Some err, s')" by (metis option.exhaust prod.collapse)
  from slice_reconciled [OF cluster.slice_store_axioms run]
  obtain t where t: "map epAddresses (sliceEndpoints t) = map (\<lambda>e. [pePodIP e]) ?eps"
    "slice_at (outside s') = (slice_at (outside ?s))(routed demo_service \<mapsto> t) \<or> slice_at (outside s') = slice_at (outside ?s)"
    by blast
  have "slice_at (outside s') \<noteq> slice_at (outside ?s)" using facts(2) run demo_unwritten by (metis snd_conv)
  with t(2) have "slice_at (outside s') (routed demo_service) = Some t" by simp
  moreover have "map (\<lambda>e. [pePodIP e]) ?eps = [[''10.0.0.2'']]" by code_simp
  ultimately show ?thesis using run t(1) by metis
qed

text \<open>
  A cached read may miss the slice that was written last: the creation is then refused, and the slice stays as
  it is until the next evaluation.
\<close>

lemma stale_read_refused:
  defines "s1 \<equiv> snd (run_state (Manager_Reconcile cluster_client demo_policy demo_service []) (demo_start demo_policy [Healthy, Healthy, Stale]))"
  defines "stale \<equiv> run_state (Manager_Reconcile cluster_client demo_policy demo_service [pod_endpoint demo_map (hd demo_rankings)]) s1"
  shows "fst stale = Some (ApiError ''already exists'')"
    and "map_option sliceEndpoints (slice_at (outside (snd stale)) (routed demo_service)) = Some []"
  unfolding s1_def stale_def by code_simp+

text \<open>
  \<open>Manager.Cleanup\<close> refines "remove the slice of the service": a slice that is not there is no
  error, without an error the slice is gone, and no other slice is touched either way.
\<close>

theorem slice_cleaned:
  assumes "slice_store client slices"
    and "run_state (Manager_Cleanup client namespace name) s = (err, s')"
  defines "k \<equiv> \<lparr>nnNamespace = namespace, nnName = slice_name name\<rparr>"
  shows "(err = None \<longrightarrow> slices (outside s') k = None) \<and> (\<forall>j. j \<noteq> k \<longrightarrow> slices (outside s') j = slices (outside s) j)
    \<and> (\<forall>e. fst (deleteSlice client k (outside s)) = Some e \<longrightarrow> err = (if is_not_found e then None else Some e))"
proof -
  have "\<forall>j. j \<noteq> k \<longrightarrow> slices (outside s') j = slices (outside s) j"
    using slice_store.cleanup_store(4) [OF assms(1,2)] unfolding k_def by auto
  moreover have "err = None \<longrightarrow> slices (outside s') k = None"
    using slice_store.cleanup_store(3) [OF assms(1,2)] unfolding k_def by simp
  moreover have "\<forall>e. fst (deleteSlice client k (outside s)) = Some e \<longrightarrow> err = (if is_not_found e then None else Some e)"
    using assms(2) by (auto simp: Manager_Cleanup_def k_def split: option.splits if_splits)
  ultimately show ?thesis by blast
qed

theorem slice_cleaned_witness:
  "\<exists>s'. run_state (Manager_Cleanup cluster_client ''shop'' ''web'') (demo_start demo_policy []) = (None, s')
     \<and> slice_at (outside s') \<lparr>nnNamespace = ''shop'', nnName = ''aviator-web''\<rparr> = None"
proof -
  let ?run = "run_state (Manager_Cleanup cluster_client ''shop'' ''web'') (demo_start demo_policy [])"
  have "fst ?run = None" by code_simp
  then obtain s' where run: "?run = (None, s')" by (metis prod.collapse)
  from slice_cleaned [OF cluster.slice_store_axioms run] run show ?thesis by (simp add: slice_name_def)
qed

text \<open>
  A Service port that names its target port (the container port is found by name in each pod) is
  written with the port of the Service instead, which need not be the one the pods listen on.
\<close>

lemma named_target_port: "spTargetPort sp = StringPort n \<Longrightarrow> portNumber (build_port sp) = Some (spPort sp)"
  by (simp add: build_port_def Let_def)

end
