(* ===== verification/Routing.thy ===== *)
theory Routing
  imports Reconciler_Properties
begin

section \<open>Evaluations route\<close>

text \<open>
  The other properties of an evaluation say what it may write. This theory says that it does: a live policy
  whose service has measured pods is routed by one call of \<open>Reconcile\<close>, unless dampening suppresses the
  change or the API refuses a call, and then it is tried again.
\<close>

text \<open>Dampening suppresses nothing: it is off, or nothing was applied before.\<close>

definition applies_at_once :: "AviatorPolicy \<Rightarrow> string \<Rightarrow> 'w Reconciler \<Rightarrow> bool" where
  "applies_at_once policy key rec \<longleftrightarrow>
     (case specDampening (polSpec policy) of None \<Rightarrow> True | Some sp \<Rightarrow> \<not> dampEnabled sp)
     \<or> (case map_of (dampeners rec) key of None \<Rightarrow> True | Some d \<Rightarrow> previousSelected d = [])"

lemma dampen_applies:
  assumes "applies_at_once policy key rec" and "dampen policy key ips rec = (update, rec')"
  shows "update"
proof -
  have "previousSelected NewDampeningState = []" by (simp add: NewDampeningState_def)
  with assms show ?thesis
    by (auto simp: applies_at_once_def dampen_def getOrCreateDampener_def ShouldUpdate_first
        split: option.splits if_splits prod.splits)
qed

text \<open>Whether the API takes the slice depends on the world outside, not on the clock.\<close>

lemma Manager_Reconcile_outside:
  "outside s = outside s1 \<Longrightarrow> fst (run_state (Manager_Reconcile client policy service eps) s)
     = fst (run_state (Manager_Reconcile client policy service eps) s1)"
  by (simp add: Manager_Reconcile_def Let_def split: prod.split sum.split)

lemma publish_routes:
  assumes "slice_store (recSlices rec) slices" and "other_calls_leave slices (recClient rec)"
    and "run_state (publish rec policy service m rankings selected br) s = (out, s')"
    and "fst (run_state (Manager_Reconcile (recSlices rec) policy service (map (pod_endpoint m) selected)) s) = None"
  shows "\<exists>t. routes policy service (map (pod_endpoint m) selected) (slices (outside s) (routed service)) t
    \<and> slices (outside s') = (slices (outside s))(routed service \<mapsto> t)"
proof -
  obtain s1 where r: "run_state (Manager_Reconcile (recSlices rec) policy service (map (pod_endpoint m) selected)) s = (None, s1)"
    using assms(4) by (metis prod.collapse)
  let ?rest = "do {
      p \<leftarrow> updateStatus policy rankings selected br;
      (case p of
         None \<Rightarrow> ret None
       | Some policy \<Rightarrow> do {
           policy \<leftarrow> setCondition (recLib rec) policy ''Ready'' ''True'' ''Reconciled'' ''Successfully updated routing'';
           policy \<leftarrow> push_status (recClient rec) policy;
           ret (Some (rec, \<lparr>RequeueAfter = getEvaluationInterval policy\<rparr>, None))
         })
    }"
  have "leaves slices ?rest" by (intro leaves_intros assms(2))
  moreover have "run_state ?rest s1 = (out, s')" using assms(3) r by (simp add: publish_def)
  ultimately have "slices (outside s') = slices (outside s1)" by (rule leavesD)
  with slice_store.reconcile_store(3) [OF assms(1) r] show ?thesis by simp
qed

lemma evaluate_routes:
  assumes "slice_store (recSlices rec) slices" and "other_calls_leave slices (recClient rec)"
    and "latency_source (sourceGetLatencies (recSource rec))" and "fleet_sized podList"
    and "collect_pods podList = (m, ips)"
    and "run_state (sourceGetLatencies (recSource rec) ips) s = (Some (Inr lat), s1)"
    and "applies_at_once policy key rec"
    and "run_state (evaluate rec key policy service podList) s = (Some (rec', res, err), s')"
  shows "err = None \<and> 0 < RequeueAfter res
    \<and> (\<exists>sel. sound_pick m lat (candidates (ejected_by policy key rec') (measured m lat)) sel
      \<and> (fst (run_state (Manager_Reconcile (recSlices rec) policy service (map (pod_endpoint m) sel)) s1) = None \<longrightarrow>
         (\<exists>t. routes policy service (map (pod_endpoint m) sel) (slices (outside s1) (routed service)) t
            \<and> slices (outside s') = (slices (outside s1))(routed service \<mapsto> t))))"
proof -
  have run: "run_state (route rec key policy service m lat) s1 = (Some (rec', res, err), s')"
    using assms(5,6,8) by (simp add: evaluate_def)
  obtain sel update rankings' br rec1 s2 where p: "outside s2 = outside s1"
    "recSlices rec' = recSlices rec" "recClient rec' = recClient rec" "fleet_sized rankings'"
    "dampen policy key (map rankPodIP sel) rec1 = (update, rec')" "dampeners rec1 = dampeners rec"
    "if update then run_state (publish rec' policy service m rankings' sel br) s2 = (Some (rec', res, err), s')
     else res = \<lparr>RequeueAfter = getEvaluationInterval policy\<rparr> \<and> err = None \<and> s' = s2"
    "sound_pick m lat (candidates (ejected_by policy key rec') (measured m lat)) sel"
    by (rule route_picks [OF assms(5,4) latency_source.keys_distinct [OF assms(3,6)] run])
  have "applies_at_once policy key rec1" using assms(7) p(6) by (simp add: applies_at_once_def)
  then have update by (rule dampen_applies) (rule p(5))
  then have pub: "run_state (publish rec' policy service m rankings' sel br) s2 = (Some (rec', res, err), s')" using p(7) by simp
  have "err = None \<and> 0 < RequeueAfter res"
    using publish_requeues [OF pub p(4)] getEvaluationInterval_pos by (auto simp: requeued_def)
  moreover have "\<exists>t. routes policy service (map (pod_endpoint m) sel) (slices (outside s1) (routed service)) t
      \<and> slices (outside s') = (slices (outside s1))(routed service \<mapsto> t)"
    if "fst (run_state (Manager_Reconcile (recSlices rec) policy service (map (pod_endpoint m) sel)) s1) = None"
  proof -
    have "fst (run_state (Manager_Reconcile (recSlices rec') policy service (map (pod_endpoint m) sel)) s2) = None"
      using that Manager_Reconcile_outside [OF p(1)] p(2) by metis
    from publish_routes [OF _ _ pub this, of slices] assms(1,2) p(1-3) show ?thesis by simp
  qed
  ultimately show ?thesis using p(8) by (intro conjI exI [of _ sel] impI) blast+
qed

lemma candidates_nonempty: "M \<noteq> {} \<Longrightarrow> candidates E M \<noteq> {}"
  by (auto simp: candidates_def)

text \<open>
  (C7) A live policy that has its finalizer routes. If the policy, its service and its pods can be read, the
  source measures at least one of the pods, and dampening is off or has nothing to compare with, then
  \<open>Reconcile\<close> returns without an error and with a time to run again, having tried to write a sound, nonempty
  selection of the measured pods; and if the API takes the write, the slice of the service routes exactly
  that selection.
\<close>

theorem Reconcile_routes:
  assumes "slice_store (recSlices rec) slices" and "other_calls_leave slices (recClient rec)"
    and "\<And>ips. leaves slices (sourceGetLatencies (recSource rec) ips)"
    and "latency_source (sourceGetLatencies (recSource rec))" and "lists_sized (recClient rec)"
    and "getPolicy (recClient rec) req (outside s) = (Inr policy, w1)" and "polDeletionTimestamp policy = None"
    and "containsFinalizer (recLib rec) (polFinalizers policy) finalizerName"
    and "getService (recClient rec) (service_key req policy) w1 = (Inr service, w2)"
    and "listPods (recClient rec) (svcNamespace service) (svcSelector service) w2 = (Inr listed, w3)"
    and "collect_pods (filter running listed) = (m, ips)"
    and "run_state (sourceGetLatencies (recSource rec) ips) (s\<lparr>outside := w3\<rparr>) = (Some (Inr lat), s1)"
    and "measured m lat \<noteq> {}" and "applies_at_once policy (NamespacedName_String req) rec"
  shows "\<exists>rec' res s' sel. run_state (Reconcile rec req) s = (Some (rec', res, None), s') \<and> 0 < RequeueAfter res
    \<and> sel \<noteq> [] \<and> sound_pick m lat (candidates (ejected_by policy (NamespacedName_String req) rec') (measured m lat)) sel
    \<and> (fst (run_state (Manager_Reconcile (recSlices rec) policy service (map (pod_endpoint m) sel)) s1) = None \<longrightarrow>
       (\<exists>t. routes policy service (map (pod_endpoint m) sel) (slices (outside s) (routed service)) t
          \<and> slices (outside s') = (slices (outside s))(routed service \<mapsto> t)))"
proof -
  let ?key = "NamespacedName_String req"
  have nonempty: "filter running listed \<noteq> []"
    using assms(11,13) by (auto simp: collect_pods_def measured_def)
  have s1: "slices (outside s1) = slices (outside s)"
    using leavesD [OF assms(3,12)] other_callsD(1) [OF assms(2,6)] other_callsD(3) [OF assms(2,9)]
      other_callsD(4) [OF assms(2,10)] by simp
  have sized: "fleet_sized (filter running listed)"
    using lists_sizedD [OF assms(5,10)] le_less_trans [OF length_filter_le] by blast
  obtain out s' where run: "run_state (evaluate rec ?key policy service (filter running listed)) (s\<lparr>outside := w3\<rparr>) = (out, s')"
    by fastforce
  have "(\<lambda>pod. podPhase pod = ''Running'' \<and> podDeletionTimestamp pod = None) = running" by (simp add: running_def fun_eq_iff)
  then have whole: "run_state (Reconcile rec req) s = (out, s')"
    using assms(6-10) run nonempty
    by (simp add: Reconcile_def ensure_finalizer_def reconcile_service_def service_key_def getPodsForService_def)
  have "\<exists>x. out = Some x" by (rule evaluate_outcome [OF run assms(4) sized]) blast
  then obtain rec' res err where out: "out = Some (rec', res, err)" by (metis prod_cases3)
  have "err = None \<and> 0 < RequeueAfter res
    \<and> (\<exists>sel. sound_pick m lat (candidates (ejected_by policy ?key rec') (measured m lat)) sel
      \<and> (fst (run_state (Manager_Reconcile (recSlices rec) policy service (map (pod_endpoint m) sel)) s1) = None \<longrightarrow>
         (\<exists>t. routes policy service (map (pod_endpoint m) sel) (slices (outside s1) (routed service)) t
            \<and> slices (outside s') = (slices (outside s1))(routed service \<mapsto> t))))"
    by (rule evaluate_routes [OF assms(1,2,4) sized assms(11,12,14) run [unfolded out]])
  then obtain sel where sel: "err = None" "0 < RequeueAfter res"
    "sound_pick m lat (candidates (ejected_by policy ?key rec') (measured m lat)) sel"
    "fst (run_state (Manager_Reconcile (recSlices rec) policy service (map (pod_endpoint m) sel)) s1) = None \<longrightarrow>
       (\<exists>t. routes policy service (map (pod_endpoint m) sel) (slices (outside s) (routed service)) t
          \<and> slices (outside s') = (slices (outside s))(routed service \<mapsto> t))" unfolding s1 by (elim conjE exE)
  have "sel \<noteq> []" using sel(3) candidates_nonempty [OF assms(13)] unfolding sound_pick_def by blast
  with sel whole out show ?thesis by (intro exI [of _ rec'] exI [of _ res] exI [of _ s'] exI [of _ sel] conjI) simp_all
qed

text \<open>The cluster accepts any slice for the demo service.\<close>

lemma demo_accepts:
  "fst (run_state (Manager_Reconcile cluster_client demo_policy demo_service eps) (demo_start demo_policy [])) = None"
  by (simp add: Manager_Reconcile_def Let_def cluster_client_def serve_def demo_world_def demo_cluster_def read_object_def
      slice_at_def find_slice_def get_slice_def create_slice_def store_slice_def error_of_def buildEndpointSlice_def Let_def)

theorem Reconcile_routes_witness:
  "\<exists>rec' res s' sel t. run_state (Reconcile demo_reconciler demo_key) (demo_start demo_policy []) = (Some (rec', res, None), s')
     \<and> sel \<noteq> [] \<and> slice_at (outside s') (routed demo_service) = Some t
     \<and> map epAddresses (sliceEndpoints t) = map (\<lambda>r :: PodRanking. [rankPodIP r]) sel"
proof -
  let ?s = "demo_start demo_policy []"
  have "filter running demo_pods = demo_pods" by (simp add: demo_pods_def demo_pod_def running_def)
  then have pods: "collect_pods (filter running demo_pods) = (demo_map, [''10.0.0.1'', ''10.0.0.2''])" by (simp add: demo_collect)
  have source: "run_state (sourceGetLatencies (recSource demo_reconciler) [''10.0.0.1'', ''10.0.0.2'']) (?s\<lparr>outside := outside ?s\<rparr>)
      = (Some (Inr demo_latencies), ?s)" by (simp add: demo_measured)
  have live: "polDeletionTimestamp demo_policy = None" "containsFinalizer (recLib demo_reconciler) (polFinalizers demo_policy) finalizerName"
    "applies_at_once demo_policy (NamespacedName_String demo_key) demo_reconciler" "measured demo_map demo_latencies \<noteq> {}"
    by (auto simp: demo_policy_def demo_lib_def applies_at_once_def demo_spec_def measured_def demo_map_def demo_latencies_def)
  have client: "slice_store (recSlices demo_reconciler) slice_at" "other_calls_leave slice_at (recClient demo_reconciler)"
    "latency_source (sourceGetLatencies (recSource demo_reconciler))" "lists_sized (recClient demo_reconciler)"
    "leaves slice_at (sourceGetLatencies (recSource demo_reconciler) ips)" for ips
    by (simp_all add: demo_contracts cluster_lists_sized)
  note reads = demo_reads [folded demo_reconciler_simps(1)]
  from Reconcile_routes [of demo_reconciler slice_at, OF client(1,2,5,3,4) reads(1) live(1,2) reads(2,3) pods source live(4,3)]
  obtain rec' res s' sel where out: "run_state (Reconcile demo_reconciler demo_key) ?s = (Some (rec', res, None), s')"
    "sel \<noteq> []" "fst (run_state (Manager_Reconcile (recSlices demo_reconciler) demo_policy demo_service (map (pod_endpoint demo_map) sel)) ?s) = None \<longrightarrow>
      (\<exists>t. routes demo_policy demo_service (map (pod_endpoint demo_map) sel) (slice_at (outside ?s) (routed demo_service)) t
        \<and> slice_at (outside s') = (slice_at (outside ?s))(routed demo_service \<mapsto> t))"
    by (elim exE conjE)
  then obtain t where t: "routes demo_policy demo_service (map (pod_endpoint demo_map) sel) (slice_at (outside ?s) (routed demo_service)) t"
    "slice_at (outside s') = (slice_at (outside ?s))(routed demo_service \<mapsto> t)"
    unfolding demo_reconciler_simps by (elim impE [OF _ demo_accepts] exE conjE)
  have "map epAddresses (sliceEndpoints t) = map (\<lambda>r :: PodRanking. [rankPodIP r]) sel"
  proof -
    have "sliceEndpoints t = map (build_endpoint demo_service) (map (pod_endpoint demo_map) sel)"
      using t(1) unfolding routes_def by (elim conjE)
    then show ?thesis by (simp add: build_endpoint_def pod_endpoint_def)
  qed
  moreover have "slice_at (outside s') (routed demo_service) = Some t" unfolding t(2) by (rule fun_upd_same)
  ultimately show ?thesis using out(1,2)
    by (intro exI [of _ rec'] exI [of _ res] exI [of _ s'] exI [of _ sel] exI [of _ t] conjI)
qed

end
