(* ===== verification/Failed_Update.thy ===== *)
theory Failed_Update
  imports Policy_Lifecycle
begin

section \<open>Updates that fail\<close>

text \<open>
  What becomes of a selection that dampening lets through and that then cannot be written: the dampener has
  recorded it as applied, and suppresses it from then on.
\<close>

subsection \<open>Selecting\<close>

text \<open>
  Steps 6 to 10 of an evaluation: the reconciler they leave, the rankings, the selection and the breaker, or
  nothing when the source has no latencies. \<open>selection\<close> is the set of the selected IPs.
\<close>

definition selects :: "'w Reconciler \<Rightarrow> string \<Rightarrow> AviatorPolicy \<Rightarrow> Pod list
    \<Rightarrow> ('w world, ('w Reconciler \<times> PodRanking list \<times> PodRanking list \<times> Breaker option) option) state" where
  "selects rec key policy podList = (case collect_pods podList of (podIPMap, podIPs) \<Rightarrow> do {
     r \<leftarrow> sourceGetLatencies (recSource rec) podIPs;
     (case r of
        Some (Inr lat) \<Rightarrow> do {
          rankings \<leftarrow> ranked podIPMap lat;
          (rankings, breaker, rec) \<leftarrow> break_circuits policy key rankings rec;
          ret (map_option (\<lambda>selected. (rec, rankings, selected, breaker)) (selectPods policy rankings))
        }
      | _ \<Rightarrow> ret None)
   })"

definition selection :: "'w Reconciler \<Rightarrow> string \<Rightarrow> AviatorPolicy \<Rightarrow> Pod list \<Rightarrow> 'w world \<Rightarrow> string set" where
  "selection rec key policy podList s = (case fst (run_state (selects rec key policy podList) s) of
     None \<Rightarrow> {} | Some (_, _, selected, _) \<Rightarrow> rankPodIP ` set selected)"

lemma leaves_selects: "(\<And>ips. leaves v (sourceGetLatencies (recSource rec) ips)) \<Longrightarrow> leaves v (selects rec key policy podList)"
  unfolding selects_def ranked_def RankPods_def by (auto intro!: leaves_intros split: prod.split option.split sum.split)

text \<open>An evaluation selects, and then dampens and publishes; or it has nothing to select from and gives up.\<close>

lemma evaluate_selects:
  assumes "latency_source (sourceGetLatencies (recSource rec))" and "fleet_sized podList"
    and "run_state (evaluate rec key policy service podList) s = (out, s')"
  obtains (failed) s1 e where "run_state (selects rec key policy podList) s = (None, s1)"
      "run_state (give_up rec policy ''LatencyFetchFailed'' e) s1 = (out, s')"
  | (selected) rec1 rankings sel br s1 update rec2 where
      "run_state (selects rec key policy podList) s = (Some (rec1, rankings, sel, br), s1)"
      "rec1 = rec\<lparr>breakers := breakers rec1\<rparr>" "fleet_sized rankings"
      "dampen policy key (map rankPodIP sel) rec1 = (update, rec2)"
      "if update then run_state (publish rec2 policy service (fst (collect_pods podList)) rankings sel br) s1 = (out, s')
       else out = Some (rec2, \<lparr>RequeueAfter = getEvaluationInterval policy\<rparr>, None) \<and> s' = s1"
proof -
  obtain m ips where c: "collect_pods podList = (m, ips)" by fastforce
  show ?thesis
  proof (cases rule: latency_source.outcome [OF assms(1), of ips s])
    case (1 e s1)
    show ?thesis by (rule failed [of s1 "err_msg e"]) (use 1 c assms(3) in \<open>simp_all add: selects_def evaluate_def\<close>)
  next
    case (2 lat s1)
    have run: "run_state (route rec key policy service m lat) s1 = (out, s')"
      using 2(1) c assms(3) by (simp add: evaluate_def)
    obtain rankings s0 where r: "run_state (ranked m lat) s1 = (rankings, s0)" "is_ranking m lat rankings"
      by (rule ranked_result [OF 2(3)])
    obtain rankings' br rec1 s2 where b: "run_state (break_circuits policy key rankings rec) s0 = ((rankings', br, rec1), s2)"
      by (metis prod.collapse)
    have sized: "fleet_sized rankings'"
      using break_circuits_candidates(4) [OF b] length_kept [OF r(2) c assms(2)] by simp
    have "sorted (map rankP99 rankings')" using break_circuits_candidates(2) [OF b, where f = rankP99] r(2) by (simp add: is_ranking_def)
    with sized obtain sel where sel: "selectPods policy rankings' = Some sel"
      using selecting.sel_prefix [of "rankings'" policy] by (cases "rankings' = []") auto
    obtain update rec2 where d: "dampen policy key (map rankPodIP sel) rec1 = (update, rec2)" by fastforce
    show ?thesis
    proof (rule selected [OF _ break_circuits_candidates(6) [OF b] sized d])
      show "run_state (selects rec key policy podList) s = (Some (rec1, rankings', sel, br), s2)"
        using 2(1) c r(1) b sel by (simp add: selects_def)
      show "if update then run_state (publish rec2 policy service (fst (collect_pods podList)) rankings' sel br) s2 = (out, s')
          else out = Some (rec2, \<lparr>RequeueAfter = getEvaluationInterval policy\<rparr>, None) \<and> s' = s2"
        using run r(1) b sel d c by (auto simp: route_def ranked_def split: prod.splits)
    qed
  qed
qed

subsection \<open>What the dampener remembers\<close>

text \<open>Dampening is on, within the bounds the API puts on its settings.\<close>

definition damps :: "AviatorPolicy \<Rightarrow> bool" where
  "damps policy = (case specDampening (polSpec policy) of None \<Rightarrow> False
     | Some sp \<Rightarrow> dampEnabled sp \<and> 1 \<le> sval (dampThresholdPercent sp) \<and> 1 \<le> sval (dampConsecutiveIntervals sp))"

definition remembers :: "string \<Rightarrow> string set \<Rightarrow> 'w Reconciler \<Rightarrow> bool" where
  "remembers key S rec \<longleftrightarrow> (\<exists>ips. ips \<noteq> [] \<and> set ips = S \<and> map_of (dampeners rec) key = Some (applied ips))"

lemma dampen_applied:
  assumes "damps policy" and "dampen policy key ips rec = (True, rec')" and "ips \<noteq> []"
  shows "remembers key (set ips) rec'"
proof -
  have "map_of (dampeners rec') key = Some (applied ips)"
    using assms(1,2) by (auto simp: damps_def dampen_def getOrCreateDampener_def update_conv'
        split: prod.splits option.splits dest: ShouldUpdate_TrueD)
  with assms(3) show ?thesis unfolding remembers_def by blast
qed

lemma dampen_suppresses:
  assumes "damps policy" and "remembers key S rec" and "set ips \<subseteq> S" and "dampen policy key ips rec = (update, rec')"
  shows "\<not> update \<and> remembers key S rec'"
proof -
  obtain ips0 where old: "ips0 \<noteq> []" "set ips0 = S" "map_of (dampeners rec) key = Some (applied ips0)"
    using assms(2) unfolding remembers_def by blast
  obtain sp where sp: "specDampening (polSpec policy) = Some sp" "dampEnabled sp"
    "1 \<le> sval (dampThresholdPercent sp)" "1 \<le> sval (dampConsecutiveIntervals sp)"
    using assms(1) by (auto simp: damps_def split: option.splits)
  have "ShouldUpdate ips (go_conv (dampThresholdPercent sp)) (go_conv (dampConsecutiveIntervals sp)) (applied ips0)
      = (False, applied ips0)"
    by (rule subset_suppressed) (use old assms(3) sp in simp_all)
  with old(3) sp(1,2) assms(4) have "\<not> update" "map_of (dampeners rec') key = Some (applied ips0)"
    by (auto simp: dampen_def getOrCreateDampener_def update_conv')
  with old(1,2) show ?thesis unfolding remembers_def by blast
qed

lemma dampen_other:
  "dampen policy key' ips rec = (update, rec') \<Longrightarrow> key' \<noteq> key \<Longrightarrow> remembers key S rec' = remembers key S rec"
  by (auto simp: remembers_def dampen_def getOrCreateDampener_def update_conv' split: option.splits if_splits prod.splits)

lemma remembers_breakers: "rec1 = rec\<lparr>breakers := B\<rparr> \<Longrightarrow> remembers key S rec1 = remembers key S rec"
  by (simp add: remembers_def)

subsection \<open>Later evaluations\<close>

text \<open>An evaluation of the policy that selects within \<open>S\<close> touches no slice and leaves the dampener as it is.\<close>

lemma evaluate_suppressed:
  assumes "other_calls_leave slices (recClient rec)" and "\<And>ips. leaves slices (sourceGetLatencies (recSource rec) ips)"
    and "latency_source (sourceGetLatencies (recSource rec))" and "fleet_sized podList"
    and "damps policy" and "remembers key S rec" and "selection rec key policy podList s \<subseteq> S"
    and "run_state (evaluate rec key policy service podList) s = (out, s')"
  shows "slices (outside s') = slices (outside s) \<and> (\<forall>rec' res err. out = Some (rec', res, err) \<longrightarrow> remembers key S rec')"
  using assms(3,4,8)
proof (cases rule: evaluate_selects)
  case (failed s1 e)
  have "slices (outside s1) = slices (outside s)" by (rule leavesD [OF leaves_selects [OF assms(2)] failed(1)])
  moreover have "slices (outside s') = slices (outside s1)" by (rule leavesD [OF leaves_give_up [OF assms(1)] failed(2)])
  moreover have "\<exists>x. out = Some x \<and> requeued rec x" by (rule give_up_requeues [OF failed(2)])
  ultimately show ?thesis using assms(6) by (auto simp: requeued_def)
next
  case (selected rec1 rankings sel br s1 update rec2)
  have "slices (outside s1) = slices (outside s)" by (rule leavesD [OF leaves_selects [OF assms(2)] selected(1)])
  moreover have "set (map rankPodIP sel) \<subseteq> S" using assms(7) selected(1) by (simp add: selection_def)
  moreover have "remembers key S rec1" using assms(6) remembers_breakers [OF selected(2)] by simp
  ultimately show ?thesis using dampen_suppresses [OF assms(5) _ _ selected(4)] selected(5) by simp
qed

lemma evaluate_other:
  assumes "latency_source (sourceGetLatencies (recSource rec))" and "fleet_sized podList" and "key' \<noteq> key"
    and "run_state (evaluate rec key' policy service podList) s = (Some (rec', res, err), s')"
  shows "remembers key S rec' = remembers key S rec"
  using assms(1,2,4)
proof (cases rule: evaluate_selects)
  case (failed s1 e)
  with give_up_requeues [OF failed(2)] show ?thesis by (simp add: requeued_def)
next
  case (selected rec1 rankings sel br s1 update rec2)
  have "rec' = rec2"
  proof (cases update)
    case True
    with selected(5) have pub: "run_state (publish rec2 policy service (fst (collect_pods podList)) rankings sel br) s1
        = (Some (rec', res, err), s')" by simp
    from publish_requeues [OF pub selected(3)] show ?thesis by (simp add: requeued_def)
  qed (use selected(5) in simp)
  with dampen_other [OF selected(4) assms(3)] remembers_breakers [OF selected(2)] show ?thesis by simp
qed

text \<open>
  \<open>later key S rec rec'\<close>: evaluations take the reconciler from \<open>rec\<close> to \<open>rec'\<close>. Those of the policy \<open>key\<close> (whose
  other settings, service and pods may have changed) select within \<open>S\<close>, those of others are free, and
  between any two the clock, the API and the pods may do anything.
\<close>

inductive later :: "string \<Rightarrow> string set \<Rightarrow> 'w Reconciler \<Rightarrow> 'w Reconciler \<Rightarrow> bool" for key S rec where
  now: "later key S rec rec"
| again: "later key S rec rec1 \<Longrightarrow> damps policy \<Longrightarrow> fleet_sized podList \<Longrightarrow> selection rec1 key policy podList s \<subseteq> S \<Longrightarrow>
    run_state (evaluate rec1 key policy service podList) s = (Some (rec2, res, err), s') \<Longrightarrow> later key S rec rec2"
| others: "later key S rec rec1 \<Longrightarrow> key' \<noteq> key \<Longrightarrow> fleet_sized podList \<Longrightarrow>
    run_state (evaluate rec1 key' policy service podList) s = (Some (rec2, res, err), s') \<Longrightarrow> later key S rec rec2"

lemma evaluate_keeps_parts:
  assumes "run_state (evaluate rec key policy service podList) s = (Some (rec', res, err), s')"
    and "latency_source (sourceGetLatencies (recSource rec))" and "fleet_sized podList"
  shows "recSource rec' = recSource rec" and "recClient rec' = recClient rec"
proof -
  have "evolves rec rec'" by (rule evaluate_outcome [OF assms]) (auto simp: requeued_def)
  then have "rec' = rec\<lparr>breakers := breakers rec', dampeners := dampeners rec'\<rparr>" unfolding evolves_def by blast
  from arg_cong [OF this, of recSource] arg_cong [OF this, of recClient]
  show "recSource rec' = recSource rec" and "recClient rec' = recClient rec" by simp_all
qed

lemma later_remembers:
  assumes "later key S rec rec'" and "remembers key S rec"
    and "other_calls_leave slices (recClient rec)" and "\<And>ips. leaves slices (sourceGetLatencies (recSource rec) ips)"
    and "latency_source (sourceGetLatencies (recSource rec))"
  shows "remembers key S rec' \<and> recSource rec' = recSource rec \<and> recClient rec' = recClient rec"
  using assms(1)
proof (induction rule: later.induct)
  case now
  with assms(2) show ?case by simp
next
  case (again rec1 policy podList s service rec2 res err s')
  then have parts: "recSource rec1 = recSource rec" "recClient rec1 = recClient rec" by simp_all
  from evaluate_suppressed [of slices rec1, unfolded parts, OF assms(3-5) again(3,2) _ again(4,5)] again(6)
    evaluate_keeps_parts [OF again(5) _ again(3)] assms(5) parts
  show ?case by simp
next
  case (others rec1 key' podList policy service s rec2 res err s')
  then have parts: "recSource rec1 = recSource rec" "recClient rec1 = recClient rec" by simp_all
  from evaluate_other [OF _ others(3,2,4)] evaluate_keeps_parts [OF others(4) _ others(3)] others(5) assms(5) parts
  show ?case by simp
qed

subsection \<open>The property\<close>

text \<open>
  (C29) With dampening on, a selection that was let through and could not be written is not tried again. The
  evaluation in which the write fails reports that in the condition of the policy, returns no error, leaves the
  slices as the failed write did, and has recorded the selection as applied: from then on, however often this
  and other policies are evaluated and whatever happens in between, as long as the evaluations of the policy
  select no other pods, none of them changes any slice.
\<close>

theorem failed_update_not_retried:
  assumes "other_calls_leave slices (recClient rec)" and "\<And>ips. leaves slices (sourceGetLatencies (recSource rec) ips)"
    and "latency_source (sourceGetLatencies (recSource rec))"
    and "damps policy" and "fleet_sized podList"
    and "run_state (selects rec key policy podList) s = (Some (rec1, rankings, sel, br), s1)" and "sel \<noteq> []"
    and "dampen policy key (map rankPodIP sel) rec1 = (True, rec2)"
    and "run_state (Manager_Reconcile (recSlices rec) policy service
           (map (pod_endpoint (fst (collect_pods podList))) sel)) s1 = (Some e, s2)"
    and "run_state (evaluate rec key policy service podList) s = (out, s')"
    and "later key (rankPodIP ` set sel) rec2 rec3" and "damps policy'" and "fleet_sized podList'"
    and "selection rec3 key policy' podList' s3 \<subseteq> rankPodIP ` set sel"
    and "run_state (evaluate rec3 key policy' service' podList') s3 = (out', s4)"
  shows "run_state (give_up rec2 policy ''EndpointSliceUpdateFailed'' (err_msg e)) s2 = (out, s')
    \<and> (\<exists>res. out = Some (rec2, res, None)) \<and> slices (outside s') = slices (outside s2)
    \<and> slices (outside s4) = slices (outside s3)"
proof -
  let ?S = "rankPodIP ` set sel"
  obtain D where D: "rec2 = rec1\<lparr>dampeners := D\<rparr>" by (rule dampen_result [OF assms(8)])
  have give_up: "run_state (give_up rec2 policy ''EndpointSliceUpdateFailed'' (err_msg e)) s2 = (out, s')"
    and rec1: "rec1 = rec\<lparr>breakers := breakers rec1\<rparr>"
    using assms(3,5,10)
  proof (atomize (full), cases rule: evaluate_selects)
    case (selected rec1' rankings' sel' br' s1' update rec2')
    then have same: "rec1' = rec1" "rankings' = rankings" "sel' = sel" "br' = br" "s1' = s1" "update" "rec2' = rec2"
      using assms(6,8) by simp_all
    have "recSlices rec2 = recSlices rec" unfolding D by (subst selected(2) [unfolded same]) simp
    with selected(2,5) assms(9) show "run_state (give_up rec2 policy ''EndpointSliceUpdateFailed'' (err_msg e)) s2 = (out, s')
        \<and> rec1 = rec\<lparr>breakers := breakers rec1\<rparr>"
      unfolding same by (simp add: publish_def same(6))
  qed (use assms(6) in simp)
  have parts: "recSource rec2 = recSource rec" "recClient rec2 = recClient rec"
    unfolding D by (subst rec1, simp)+
  have "remembers key (set (map rankPodIP sel)) rec2" by (rule dampen_applied [OF assms(4,8)]) (use assms(7) in simp)
  then have "remembers key ?S rec3 \<and> recSource rec3 = recSource rec2 \<and> recClient rec3 = recClient rec2"
    by (intro later_remembers [where slices = slices, OF assms(11)]) (simp_all add: parts assms(1-3))
  then have "slices (outside s4) = slices (outside s3)"
    using evaluate_suppressed [of slices rec3, OF _ _ _ assms(13,12) _ assms(14,15)] assms(1-3) parts by simp
  moreover have "slices (outside s') = slices (outside s2)"
    by (rule leavesD [OF leaves_give_up give_up]) (simp add: parts assms(1))
  ultimately show ?thesis using give_up give_up_requeues [OF give_up] by (auto simp: requeued_def)
qed

definition demo_dampened :: AviatorPolicy where
  "demo_dampened = demo_policy\<lparr>polSpec := demo_spec\<lparr>specDampening := Some \<lparr>dampEnabled = True,
     dampThresholdPercent = 20, dampConsecutiveIntervals = 3\<rparr>\<rparr>\<rparr>"

text \<open>The write of the first evaluation is lost. The next evaluation finds an API without faults, and writes nothing.\<close>

theorem failed_update_not_retried_witness:
  "\<exists>rec2 res s' out s4.
     run_state (evaluate demo_reconciler ''shop/p'' demo_dampened demo_service demo_pods)
       (demo_start demo_dampened [Healthy, Lost ''timeout'']) = (Some (rec2, res, None), s')
     \<and> run_state (evaluate rec2 ''shop/p'' demo_dampened demo_service demo_pods) (demo_start demo_dampened []) = (out, s4)
     \<and> slice_at (outside s4) (routed demo_service) = None"
proof -
  let ?s = "demo_start demo_dampened [Healthy, Lost ''timeout'']" and ?s3 = "demo_start demo_dampened []"
  let ?select = "run_state (selects demo_reconciler ''shop/p'' demo_dampened demo_pods) ?s"
  let ?put = "\<lambda>sel. run_state (Manager_Reconcile cluster_client demo_dampened demo_service (map (pod_endpoint demo_map) sel))"
  have facts: "map_option (\<lambda>(rec, rankings, sel, br). case dampen demo_dampened ''shop/p'' (map rankPodIP sel) rec of (update, rec2) \<Rightarrow>
       (map rankPodIP sel, update, fst (?put sel (snd ?select)), selection rec2 ''shop/p'' demo_dampened demo_pods ?s3 \<subseteq> {''10.0.0.2''}))
     (fst ?select) = Some ([''10.0.0.2''], True, Some (ApiError ''timeout''), True)" by code_simp
  then obtain rec1 rankings sel br s1 where select: "?select = (Some (rec1, rankings, sel, br), s1)"
    by (cases ?select) auto
  obtain rec2 where damp: "dampen demo_dampened ''shop/p'' (map rankPodIP sel) rec1 = (True, rec2)"
    using facts select by (cases "dampen demo_dampened ''shop/p'' (map rankPodIP sel) rec1") auto
  obtain s2 where lost: "?put sel s1 = (Some (ApiError ''timeout''), s2)"
    using facts select damp by (cases "?put sel s1") auto
  have ips: "map rankPodIP sel = [''10.0.0.2'']" using facts select damp by simp
  then have sel: "rankPodIP ` set sel = {''10.0.0.2''}" "sel \<noteq> []" by (metis list.set_map list.simps(15) empty_set, auto)
  obtain out s' where first: "run_state (demo_evaluate demo_dampened) ?s = (out, s')" by fastforce
  obtain out' s4 where second: "run_state (evaluate rec2 ''shop/p'' demo_dampened demo_service demo_pods) ?s3 = (out', s4)" by fastforce
  have within: "selection rec2 ''shop/p'' demo_dampened demo_pods ?s3 \<subseteq> rankPodIP ` set sel" using facts select damp sel by simp
  have damps: "damps demo_dampened" by (simp add: damps_def demo_dampened_def go_eval)
  have map: "fst (collect_pods demo_pods) = demo_map" by (simp add: demo_collect)
  from failed_update_not_retried [where slices = slice_at and rec = demo_reconciler and podList = demo_pods, unfolded demo_reconciler_simps map, OF demo_contracts(2,4,3) damps
      demo_pods_sized select sel(2) damp lost first later.now damps demo_pods_sized within second]
  obtain res where "out = Some (rec2, res, None)" "slice_at (outside s4) = slice_at (outside ?s3)" by blast
  with first second demo_unwritten show ?thesis by auto
qed

end
