(* ===== verification/Agent.thy ===== *)
theory Agent
  imports Collector Ebpf_Source "HOL-Library.Char_ord" "HOL-Library.List_Lexorder"
begin

section \<open>The HTTP API of the agent\<close>

text \<open>
  The handlers of \<open>cmd/agent/main.go\<close>. \<open>latenciesHandler\<close> serves the statistics of the collector as JSON,
  which the eBPF source of the controller reads (\<open>Ebpf_Source\<close>): the two have their own types for
  what goes over the wire, with different names, and the round trip below is what makes them fit.
  How \<open>encoding/json\<close> writes a \<open>time.Time\<close> (or refuses to, for a year of five digits) is the parameter
  \<open>time_text\<close>; nobody reads it.
\<close>

subsection \<open>The code\<close>

record agentResponse =
  respPodLatencies :: "PodStats gomap"
  respNodeName :: string

text \<open>
  \<open>json.Encoder.Encode\<close>: a struct as an object of its fields in order (\<open>PodStats\<close> has no tags, so under
  their Go names), a map as an object in the order of its keys. An error of a field is the error.
\<close>

definition encode_PodStats :: "(time \<Rightarrow> go_error + string) \<Rightarrow> PodStats \<Rightarrow> go_error + json" where
  "encode_PodStats time_text st = map_sum id (\<lambda>t. JObj
     [(''P50Us'', JInt (sval (podP50Us st))), (''P99Us'', JInt (sval (podP99Us st))),
      (''SampleCount'', JInt (sval (podSampleCount st))), (''LastUpdated'', JStr t)]) (time_text (podLastUpdated st))"

fun encode_entries :: "('v \<Rightarrow> go_error + json) \<Rightarrow> (string \<times> 'v) list \<Rightarrow> go_error + (string \<times> json) list" where
  "encode_entries enc [] = Inr []"
| "encode_entries enc ((k, v) # kvs) = (case enc v of
     Inl e \<Rightarrow> Inl e
   | Inr j \<Rightarrow> map_sum id (\<lambda>kjs. (k, j) # kjs) (encode_entries enc kvs))"

definition encode_map :: "('v \<Rightarrow> go_error + json) \<Rightarrow> 'v gomap \<Rightarrow> go_error + json" where
  "encode_map enc m = map_sum id JObj (encode_entries enc (sort_key fst m))"

definition encode_agentResponse :: "(time \<Rightarrow> go_error + string) \<Rightarrow> agentResponse \<Rightarrow> go_error + json" where
  "encode_agentResponse time_text resp = map_sum id (\<lambda>m. JObj
     [(''podLatencies'', m), (''nodeName'', JStr (respNodeName resp))])
     (encode_map (encode_PodStats time_text) (respPodLatencies resp))"

text \<open>
  The encoder writes nothing before it has encoded the whole value, so on an error \<open>http.Error\<close> still sets
  the status; the text it writes is not JSON. \<open>None\<close> is a panic.
\<close>

definition latenciesHandler ::
  "(time \<Rightarrow> go_error + string) \<Rightarrow> string \<Rightarrow> Collector \<Rightarrow> ('x runtime_scheme, http_response option) state" where
  "latenciesHandler time_text nodeName collector = do {
     stats \<leftarrow> GetStats collector;
     ret (map_option (\<lambda>stats.
       (case encode_agentResponse time_text \<lparr>respPodLatencies = stats, respNodeName = nodeName\<rparr> of
          Inl err \<Rightarrow> \<lparr>statusCode = 500, respBody = Inr None\<rparr>
        | Inr body \<Rightarrow> \<lparr>statusCode = 200, respBody = Inr (Some body)\<rparr>)) stats)
   }"

text \<open>\<open>ok\<close> is not JSON.\<close>

definition healthzHandler :: http_response where
  "healthzHandler = \<lparr>statusCode = 200, respBody = Inr None\<rparr>"

definition readyzHandler :: http_response where
  "readyzHandler = \<lparr>statusCode = 200, respBody = Inr None\<rparr>"

subsection \<open>The round trip\<close>

text \<open>What the source keeps of the statistics of a pod.\<close>

definition on_wire :: "PodStats \<Rightarrow> AgentPodStats" where
  "on_wire st = \<lparr>agentP50Us = podP50Us st, agentP99Us = podP99Us st, agentSampleCount = podSampleCount st\<rparr>"

lemma decode_int64_sval [simp]: "decode_int64 (JInt (sval x)) old = Inr x"
  using sval_range_64 [of x] by (simp add: decode_int64_def)

text \<open>The Go names of the fields match the tags of the source up to case, and \<open>LastUpdated\<close> none of them.\<close>

lemma wire_names [simp]:
  "match_field (map fst AgentPodStats_fields) ''P50Us'' = Some ''p50Us''"
  "match_field (map fst AgentPodStats_fields) ''P99Us'' = Some ''p99Us''"
  "match_field (map fst AgentPodStats_fields) ''SampleCount'' = Some ''sampleCount''"
  "match_field (map fst AgentPodStats_fields) ''LastUpdated'' = None"
  "match_field (map fst AgentResponse_fields) ''podLatencies'' = Some ''podLatencies''"
  "match_field (map fst AgentResponse_fields) ''nodeName'' = Some ''nodeName''"
  by (simp_all add: match_field_def AgentPodStats_fields_def AgentResponse_fields_def field_names)

lemma wire_decoders [simp]:
  "the (map_of AgentPodStats_fields ''p50Us'') j s = map_sum id (\<lambda>v. s\<lparr>agentP50Us := v\<rparr>) (decode_int64 j (agentP50Us s))"
  "the (map_of AgentPodStats_fields ''p99Us'') j s = map_sum id (\<lambda>v. s\<lparr>agentP99Us := v\<rparr>) (decode_int64 j (agentP99Us s))"
  "the (map_of AgentPodStats_fields ''sampleCount'') j s
     = map_sum id (\<lambda>v. s\<lparr>agentSampleCount := v\<rparr>) (decode_int64 j (agentSampleCount s))"
  "the (map_of AgentResponse_fields ''podLatencies'') j r = map_sum id (\<lambda>m. r\<lparr>agentPodLatencies := m\<rparr>)
     (decode_map (decode_struct AgentPodStats_fields) zero_AgentPodStats j (agentPodLatencies r))"
  "the (map_of AgentResponse_fields ''nodeName'') j r
     = map_sum id (\<lambda>v. r\<lparr>agentNodeName := v\<rparr>) (decode_string j (agentNodeName r))"
  by (simp_all add: AgentPodStats_fields_def AgentResponse_fields_def)

lemma decode_encode_PodStats:
  "encode_PodStats time_text st = Inr j \<Longrightarrow> decode_struct AgentPodStats_fields j zero_AgentPodStats = Inr (on_wire st)"
  by (auto simp: encode_PodStats_def map_sum_Inr decode_struct_def on_wire_def zero_AgentPodStats_def)

lemma encode_entries_Inr:
  "encode_entries enc kvs = Inr kjs \<Longrightarrow> map fst kjs = map fst kvs \<and> list_all2 (\<lambda>(k, v) (k', j). k = k' \<and> enc v = Inr j) kvs kjs"
  by (induction kvs arbitrary: kjs) (auto simp: map_sum_Inr split: sum.splits)

lemma decode_encode_entries:
  assumes "\<And>v j. enc v = Inr j \<Longrightarrow> dec j zero = Inr (f v)" and "encode_entries enc kvs = Inr kjs" and "distinct (map fst kvs)"
  shows "decode_entries dec zero kjs [] = Inr (map (\<lambda>(k, v). (k, f v)) kvs)"
proof -
  let ?g = "\<lambda>j. projr (dec j zero)"
  have all: "list_all2 (\<lambda>(k, v) (k', j). k = k' \<and> enc v = Inr j) kvs kjs" and keys: "map fst kjs = map fst kvs"
    using encode_entries_Inr [OF assms(2)] by simp_all
  have "dec j zero = Inr (?g j)" if "(k, j) \<in> set kjs" for k j
  proof -
    from that all obtain v where "enc v = Inr j" by (auto simp: list_all2_conv_all_nth in_set_conv_nth)
    then show ?thesis using assms(1) by simp
  qed
  then have "decode_entries dec zero kjs [] = Inr (map (\<lambda>(k, j). (k, ?g j)) kjs)"
    using assms(3) keys by (intro decode_entries_map) simp_all
  moreover have "map (\<lambda>(k, j). (k, ?g j)) kjs = map (\<lambda>(k, v). (k, f v)) kvs"
    using all by (induction rule: list_all2_induct) (auto simp: assms(1))
  ultimately show ?thesis by simp
qed

lemma encode_fails:
  assumes "encode_agentResponse time_text resp = Inl e"
  shows "\<exists>t e. time_text t = Inl e"
proof (rule ccontr)
  assume "\<nexists>t e. time_text t = Inl e"
  then have total: "\<exists>x. time_text t = Inr x" for t by (metis old.sum.exhaust)
  have one: "\<exists>j. encode_PodStats time_text st = Inr j" for st
    using total [of "podLastUpdated st"] by (auto simp: encode_PodStats_def)
  have "\<exists>kjs. encode_entries (encode_PodStats time_text) kvs = Inr kjs" for kvs
  proof (induction kvs)
    case (Cons kv kvs)
    obtain k st where kv: "kv = (k, st)" by fastforce
    obtain j kjs where "encode_PodStats time_text st = Inr j" "encode_entries (encode_PodStats time_text) kvs = Inr kjs"
      using one [of st] Cons.IH by blast
    then show ?case by (simp add: kv)
  qed simp
  then obtain kjs where "encode_entries (encode_PodStats time_text) (sort_key fst (respPodLatencies resp)) = Inr kjs" by blast
  with assms show False by (simp add: encode_agentResponse_def encode_map_def)
qed

lemma decode_encode_agentResponse:
  assumes "encode_agentResponse time_text resp = Inr j" and "wf_map (respPodLatencies resp)"
  obtains a where "unmarshal_AgentResponse (Some j) = Inr a" and "agentNodeName a = respNodeName resp"
    and "map_of (agentPodLatencies a) = (\<lambda>ip. map_option on_wire (map_of (respPodLatencies resp) ip))"
proof -
  let ?kvs = "sort_key fst (respPodLatencies resp)"
  obtain kjs where kjs: "encode_entries (encode_PodStats time_text) ?kvs = Inr kjs"
    and j: "j = JObj [(''podLatencies'', JObj kjs), (''nodeName'', JStr (respNodeName resp))]"
    using assms(1) by (auto simp: encode_agentResponse_def encode_map_def map_sum_Inr)
  have wf: "distinct (map fst ?kvs)" using assms(2) by (metis distinct_map distinct_sort set_sort)
  let ?m = "map (\<lambda>(k, v). (k, on_wire v)) ?kvs"
  have "decode_entries (decode_struct AgentPodStats_fields) zero_AgentPodStats kjs [] = Inr ?m"
    by (rule decode_encode_entries [OF _ kjs wf]) (rule decode_encode_PodStats)
  then have "unmarshal_AgentResponse (Some j) = Inr \<lparr>agentPodLatencies = ?m, agentNodeName = respNodeName resp\<rparr>"
    by (simp add: unmarshal_AgentResponse_def j decode_struct_def decode_map_def zero_AgentResponse_def decode_string_def)
  moreover have "map_of ?m = (\<lambda>ip. map_option on_wire (map_of (respPodLatencies resp) ip))"
  proof -
    have "map_of ?kvs = map_of (respPodLatencies resp)"
      using wf assms(2) by (intro map_of_eqI) (auto simp: map_of_inject_set)
    then show ?thesis by (simp add: map_of_map fun_eq_iff)
  qed
  ultimately show ?thesis by (rule that [where a = "\<lparr>agentPodLatencies = ?m, agentNodeName = respNodeName resp\<rparr>",
        unfolded AgentResponse.select_convs, OF _ refl])
qed

lemma handler_answer:
  assumes "buffers_ok c" and "run_state (latenciesHandler time_text nodeName c) rt = (resp, rt')"
  shows "\<exists>m r. run_state (GetStats c) rt = (Some m, rt') \<and> resp = Some r
    \<and> (if statusCode r = 200
       then \<exists>a. read_response endpoint (Inr r) = Inr a \<and> agentNodeName a = nodeName
              \<and> map_of (agentPodLatencies a) = (\<lambda>ip. map_option on_wire (map_of m ip))
       else (\<exists>t e. time_text t = Inl e) \<and> (\<exists>e. read_response endpoint (Inr r) = Inl e))"
proof -
  obtain res rt1 where run: "run_state (GetStats c) rt = (res, rt1)" by fastforce
  obtain m where m: "res = Some m" "wf_map m"
    using GetStats_run [OF assms(1) run] by blast
  let ?resp = "\<lparr>respPodLatencies = m, respNodeName = nodeName\<rparr>"
  have rt': "rt' = rt1" using assms(2) run by (simp add: latenciesHandler_def)
  show ?thesis
  proof (cases "encode_agentResponse time_text ?resp")
    case (Inl e)
    then have "resp = Some \<lparr>statusCode = 500, respBody = Inr None\<rparr>"
      using assms(2) run m by (simp add: latenciesHandler_def)
    with run m rt' encode_fails [OF Inl] show ?thesis by (simp add: read_response_def)
  next
    case (Inr j)
    obtain a where a: "unmarshal_AgentResponse (Some j) = Inr a" "agentNodeName a = nodeName"
      "map_of (agentPodLatencies a) = (\<lambda>ip. map_option on_wire (map_of m ip))"
      by (rule decode_encode_agentResponse [OF Inr]) (use m in simp_all)
    have "resp = Some \<lparr>statusCode = 200, respBody = Inr (Some j)\<rparr>"
      using assms(2) run m Inr by (simp add: latenciesHandler_def)
    with run m rt' a show ?thesis by (simp add: read_response_def)
  qed
qed

text \<open>
  (C33) What the source reads is what the agent measured: if the handler answers with status 200, the source
  decodes the answer without an error into the node name and, for every pod, the three figures
  \<open>GetStats\<close> reported. The handler fails only when a time cannot be written, with a status the source
  reports as an error; it never panics.
\<close>

theorem agent_to_source:
  assumes "collecting c" and "run_state (latenciesHandler time_text nodeName c) rt = (resp, rt')"
  shows "\<exists>m r. run_state (GetStats c) rt = (Some m, rt') \<and> resp = Some r
    \<and> (if statusCode r = 200
       then \<exists>a. read_response endpoint (Inr r) = Inr a \<and> agentNodeName a = nodeName
              \<and> map_of (agentPodLatencies a) = (\<lambda>ip. map_option on_wire (map_of m ip))
       else (\<exists>t e. time_text t = Inl e) \<and> (\<exists>e. read_response endpoint (Inr r) = Inl e))"
  by (rule handler_answer [OF collecting_buffers_ok [OF assms(1)] assms(2)])

theorem agent_to_source_witness:
  "\<exists>r a rt'. run_state (latenciesHandler (\<lambda>t. Inr ''2025-01-01T00:00:00Z'') ''node-1'' sample_collector)
       (\<lparr>clock = int, choice = \<lambda>n. []\<rparr> :: runtime) = (Some r, rt')
     \<and> read_response ''node-1:9100'' (Inr r) = Inr a \<and> agentNodeName a = ''node-1''
     \<and> map_option agentSampleCount (map_of (agentPodLatencies a) (uint32ToIP 0x0200000A)) = Some 1"
proof -
  let ?rt = "\<lparr>clock = int, choice = \<lambda>n. []\<rparr> :: runtime" and ?ip = "uint32ToIP 0x0200000A" and ?text = "\<lambda>t. Inr ''2025-01-01T00:00:00Z''"
  obtain resp rt' where run: "run_state (latenciesHandler ?text ''node-1'' sample_collector) ?rt = (resp, rt')" by fastforce
  from agent_to_source [OF collecting_sample run, of "''node-1:9100''"]
  obtain m r a where r: "run_state (GetStats sample_collector) ?rt = (Some m, rt')" "resp = Some r"
    "read_response ''node-1:9100'' (Inr r) = Inr a" "agentNodeName a = ''node-1''"
    "map_of (agentPodLatencies a) = (\<lambda>ip. map_option on_wire (map_of m ip))"
    by (auto split: if_splits)
  obtain res rt1 where "run_state (GetStats sample_collector) ?rt = (res, rt1)" by fastforce
  with GetStats_run [OF collecting_buffers_ok [OF collecting_sample] this] r(1)
  have m: "fst ` set m = fst ` set (rttSamples sample_collector)"
    and figures: "\<And>ip st. map_of m ip = Some st \<Longrightarrow> podSampleCount st = go_len (samples_of sample_collector ip)"
    by (auto simp: summarizes_def)
  obtain st where st: "map_of m ?ip = Some st"
    using m by (metis image_eqI insertI1 list.set(2) map_of_eq_None_iff not_None_eq prod.sel(1) sample_collector_samples)
  have "samples_of sample_collector ?ip = [1000000]" by (simp add: samples_of_def sample_collector_samples)
  then have "podSampleCount st = 1" using figures [OF st] by simp
  with st have "map_option agentSampleCount (map_of (agentPodLatencies a) ?ip) = Some 1"
    unfolding r(5) by (simp add: on_wire_def)
  with run r show ?thesis by blast
qed

end
