(* ===== verification/Loader.thy ===== *)
theory Loader
  imports Collector World_Effects
begin

section \<open>The loader of the eBPF programs\<close>

text \<open>
  \<open>internal/ebpf/loader.go\<close>: it opens the compiled object, creates the collection, attaches two probes and
  opens the ring buffer, gives back what it opened when a step fails, feeds the events of the ring buffer to
  the collector until the context is cancelled, and closes. The operating system and the library
  \<open>cilium/ebpf\<close> are a parameter: calls on the world outside that hand out and take back handles.
\<close>

subsection \<open>Data\<close>

type_synonym handle = nat

record 'w ebpf_sys =
  osOpen :: "string \<Rightarrow> 'w \<Rightarrow> (go_error + handle) \<times> 'w"
  loadSpec :: "handle \<Rightarrow> 'w \<Rightarrow> (go_error + nat) \<times> 'w"
  newCollection :: "nat \<Rightarrow> 'w \<Rightarrow> (go_error + handle) \<times> 'w"
  linkKprobe :: "string \<Rightarrow> handle \<Rightarrow> string \<Rightarrow> 'w \<Rightarrow> (go_error + handle) \<times> 'w"
  newReader :: "handle \<Rightarrow> string \<Rightarrow> 'w \<Rightarrow> (go_error + handle) \<times> 'w"
  closeHandle :: "handle \<Rightarrow> 'w \<Rightarrow> go_error option \<times> 'w"
  readRecord :: "handle \<Rightarrow> 'w \<Rightarrow> (go_error + 8 word list) \<times> 'w"
  ctxDone :: "'w \<Rightarrow> bool"

record Programs =
  SendProbe :: handle
  RecvProbe :: handle
  Reader :: handle

record Loader =
  loadCollector :: Collector
  programs :: "Programs option"

definition NewLoader :: "Collector \<Rightarrow> Loader" where
  "NewLoader collector = \<lparr>loadCollector = collector, programs = None\<rparr>"

subsection \<open>Operations\<close>

text \<open>A close whose error nobody looks at.\<close>

definition discard :: "'w ebpf_sys \<Rightarrow> handle \<Rightarrow> ('w world, unit) state" where
  "discard sys h = do { err \<leftarrow> call_out (closeHandle sys h); ret () }"

text \<open>
  \<open>Load\<close> between opening the file and the deferred close of it, step by step from the last to the
  first: every step that fails closes what the steps before it opened.
\<close>

definition open_reader :: "'w ebpf_sys \<Rightarrow> handle \<Rightarrow> handle \<Rightarrow> handle \<Rightarrow> Loader \<Rightarrow> ('w world, go_error option \<times> Loader) state" where
  "open_reader sys coll sendProbe recvProbe l = do {
     r \<leftarrow> call_out (newReader sys coll ''latency_events'');
     (case r of
        Inl err \<Rightarrow> do {
          discard sys recvProbe;
          discard sys sendProbe;
          discard sys coll;
          ret (Some (Wrap ''creating ring buffer reader'' err), l)
        }
      | Inr reader \<Rightarrow>
          ret (None, l\<lparr>programs := Some \<lparr>SendProbe = sendProbe, RecvProbe = recvProbe, Reader = reader\<rparr>\<rparr>))
   }"

definition attach_recv :: "'w ebpf_sys \<Rightarrow> handle \<Rightarrow> handle \<Rightarrow> Loader \<Rightarrow> ('w world, go_error option \<times> Loader) state" where
  "attach_recv sys coll sendProbe l = do {
     r \<leftarrow> call_out (linkKprobe sys ''tcp_rcv_established'' coll ''kprobe_tcp_rcv_established'');
     (case r of
        Inl err \<Rightarrow> do {
          discard sys sendProbe;
          discard sys coll;
          ret (Some (Wrap ''attaching tcp_rcv_established kprobe'' err), l)
        }
      | Inr recvProbe \<Rightarrow> open_reader sys coll sendProbe recvProbe l)
   }"

definition attach_send :: "'w ebpf_sys \<Rightarrow> handle \<Rightarrow> Loader \<Rightarrow> ('w world, go_error option \<times> Loader) state" where
  "attach_send sys coll l = do {
     r \<leftarrow> call_out (linkKprobe sys ''tcp_sendmsg'' coll ''kprobe_tcp_sendmsg'');
     (case r of
        Inl err \<Rightarrow> do {
          discard sys coll;
          ret (Some (Wrap ''attaching tcp_sendmsg kprobe'' err), l)
        }
      | Inr sendProbe \<Rightarrow> attach_recv sys coll sendProbe l)
   }"

definition load_object :: "'w ebpf_sys \<Rightarrow> handle \<Rightarrow> Loader \<Rightarrow> ('w world, go_error option \<times> Loader) state" where
  "load_object sys f l = do {
     r \<leftarrow> call_out (loadSpec sys f);
     (case r of
        Inl err \<Rightarrow> ret (Some (Wrap ''loading eBPF spec'' err), l)
      | Inr spec \<Rightarrow> do {
          r \<leftarrow> call_out (newCollection sys spec);
          (case r of
             Inl err \<Rightarrow> ret (Some (Wrap ''creating eBPF collection'' err), l)
           | Inr coll \<Rightarrow> attach_send sys coll l)
        })
   }"

definition Load :: "'w ebpf_sys \<Rightarrow> string \<Rightarrow> Loader \<Rightarrow> ('w world, go_error option \<times> Loader) state" where
  "Load sys bpfObjPath l = do {
     f \<leftarrow> call_out (osOpen sys bpfObjPath);
     (case f of
        Inl err \<Rightarrow> ret (Some (Wrap ''opening eBPF object'' err), l)
      | Inr f \<Rightarrow> do {
          out \<leftarrow> load_object sys f l;
          discard sys f;
          ret out
        })
   }"

text \<open>
  The reading loop of \<open>Run\<close>, as a function of the world: it may never return. The goroutine that closes the
  reader when the context is cancelled is part of the world, which makes reads fail from then on. What the loop
  logs is left out, and so is its sleep of 100 ms after a read that failed: it delays the next read, whose
  answer is the world's in any case.
\<close>

partial_function (option) read_loop :: "'w ebpf_sys \<Rightarrow> handle \<Rightarrow> Collector \<Rightarrow> 'w \<Rightarrow> (Collector \<times> 'w) option" where
  "read_loop sys h c w = (case readRecord sys h w of (r, w') \<Rightarrow>
     (case r of
        Inl err \<Rightarrow> if ctxDone sys w' then Some (c, w') else read_loop sys h c w'
      | Inr raw \<Rightarrow> (case ParseLatencyEvent raw of
            Inl err \<Rightarrow> read_loop sys h c w'
          | Inr evt \<Rightarrow> read_loop sys h (RecordEvent evt c) w')))"

text \<open>\<open>Run\<close>: the error and the loader it leaves, or \<open>None\<close> while it does not return.\<close>

definition Run :: "'w ebpf_sys \<Rightarrow> Loader \<Rightarrow> 'w \<Rightarrow> ((go_error option \<times> Loader) \<times> 'w) option" where
  "Run sys l w = (case programs l of
     None \<Rightarrow> Some ((Some (Errorf ''eBPF programs not loaded''), l), w)
   | Some p \<Rightarrow> map_option (\<lambda>(c, w'). ((None, l\<lparr>loadCollector := c\<rparr>), w')) (read_loop sys (Reader p) (loadCollector l) w))"

text \<open>\<open>%v\<close> of a slice of errors.\<close>

fun show_errors :: "go_error list \<Rightarrow> string" where
  "show_errors [] = ''''"
| "show_errors [e] = err_msg e"
| "show_errors (e # es) = err_msg e @ '' '' @ show_errors es"

definition close_one :: "'w ebpf_sys \<Rightarrow> handle \<Rightarrow> go_error list \<Rightarrow> ('w world, go_error list) state" where
  "close_one sys h errs = do {
     err \<leftarrow> call_out (closeHandle sys h);
     ret (case err of Some e \<Rightarrow> errs @ [e] | None \<Rightarrow> errs)
   }"

text \<open>
  \<open>Close\<close> gives back what it closes itself. The library also closes a file descriptor nobody refers to any more when
  the garbage collector finds it; when that happens, if it does before the process ends, is not modelled.
\<close>

definition Loader_Close :: "'w ebpf_sys \<Rightarrow> Loader \<Rightarrow> ('w world, go_error option) state" where
  "Loader_Close sys l = (case programs l of
     None \<Rightarrow> ret None
   | Some p \<Rightarrow> do {
       errs \<leftarrow> close_one sys (Reader p) [];
       errs \<leftarrow> close_one sys (SendProbe p) errs;
       errs \<leftarrow> close_one sys (RecvProbe p) errs;
       ret (if errs \<noteq> [] then Some (Errorf (''errors closing eBPF programs: ['' @ show_errors errs @ '']'')) else None)
     })"

subsection \<open>Handles\<close>

text \<open>
  What is relied on: a call that opens something hands out a fresh handle, which is held from then on,
  or fails and holds nothing more; reading the specification holds nothing; a closed handle is not
  held, whatever error closing it reports.
\<close>

definition opens :: "('w \<Rightarrow> handle set) \<Rightarrow> ('w \<Rightarrow> (go_error + handle) \<times> 'w) \<Rightarrow> bool" where
  "opens held f \<longleftrightarrow> (\<forall>w. case f w of
     (Inl e, w') \<Rightarrow> held w' = held w
   | (Inr h, w') \<Rightarrow> h \<notin> held w \<and> held w' = insert h (held w))"

definition tracks_handles :: "'w ebpf_sys \<Rightarrow> ('w \<Rightarrow> handle set) \<Rightarrow> bool" where
  "tracks_handles sys held \<longleftrightarrow> (\<forall>path. opens held (osOpen sys path)) \<and> (\<forall>spec. opens held (newCollection sys spec))
     \<and> (\<forall>fn h prog. opens held (linkKprobe sys fn h prog)) \<and> (\<forall>h name. opens held (newReader sys h name))
     \<and> (\<forall>f w. held (snd (loadSpec sys f w)) = held w) \<and> (\<forall>h w. held (snd (closeHandle sys h w)) = held w - {h})"

lemma opens_failed: "opens held f \<Longrightarrow> f w = (Inl e, w') \<Longrightarrow> held w' = held w"
  by (auto simp: opens_def dest: spec [of _ w])

lemma opens_done: "opens held f \<Longrightarrow> f w = (Inr h, w') \<Longrightarrow> h \<notin> held w \<and> held w' = insert h (held w)"
  by (auto simp: opens_def dest: spec [of _ w])

lemma run_discard [go_runs]: "run_state (discard sys h) s = ((), s\<lparr>outside := snd (closeHandle sys h (outside s))\<rparr>)"
  by (simp add: discard_def)

lemma held_close: "tracks_handles sys held \<Longrightarrow> held (snd (closeHandle sys h w)) = held w - {h}"
  by (simp add: tracks_handles_def)

text \<open>A step of \<open>Load\<close>: something is opened, or what was opened so far is given back.\<close>

lemma open_step:
  assumes "run_state (call_out f \<bind> case_sum failure continue) s = (x, s')" and "opens held f"
  obtains (failed) e s1 where "run_state (failure e) s1 = (x, s')" and "held (outside s1) = held (outside s)"
  | (opened) h s1 where "run_state (continue h) s1 = (x, s')" and "h \<notin> held (outside s)"
      and "held (outside s1) = insert h (held (outside s))"
proof -
  obtain r w where f: "f (outside s) = (r, w)" by fastforce
  show ?thesis
  proof (cases r)
    case (Inl e)
    with assms f show ?thesis by (intro failed [of e "s\<lparr>outside := w\<rparr>"]) (simp_all add: opens_failed [OF assms(2) f [unfolded Inl]])
  next
    case (Inr h)
    with assms f show ?thesis by (intro opened [of h "s\<lparr>outside := w\<rparr>"]) (simp_all add: opens_done [OF assms(2) f [unfolded Inr]])
  qed
qed

text \<open>
  The outcome of loading over what was held before: four new handles, three of them remembered, or
  nothing more than before.
\<close>

definition loaded :: "('w \<Rightarrow> handle set) \<Rightarrow> handle set \<Rightarrow> 'w \<Rightarrow> Loader \<Rightarrow> go_error option \<times> Loader \<Rightarrow> bool" where
  "loaded held H w' l out \<longleftrightarrow> (case out of
     (Some err, l') \<Rightarrow> l' = l \<and> held w' = H
   | (None, l') \<Rightarrow> (\<exists>coll p. l' = l\<lparr>programs := Some p\<rparr> \<and> distinct [coll, SendProbe p, RecvProbe p, Reader p]
      \<and> held w' = {coll, SendProbe p, RecvProbe p, Reader p} \<union> H \<and> {coll, SendProbe p, RecvProbe p, Reader p} \<inter> H = {}))"

lemma loaded_failed: "loaded held H w l (Some err, l') \<longleftrightarrow> l' = l \<and> held w = H"
  by (simp add: loaded_def)

lemma loaded_done:
  "distinct [coll, SendProbe p, RecvProbe p, Reader p] \<Longrightarrow> held w = {coll, SendProbe p, RecvProbe p, Reader p} \<union> H \<Longrightarrow>
     {coll, SendProbe p, RecvProbe p, Reader p} \<inter> H = {} \<Longrightarrow> loaded held H w l (None, l\<lparr>programs := Some p\<rparr>)"
  by (simp only: loaded_def prod.case option.case) blast

lemma open_reader_loads:
  assumes "tracks_handles sys held" and "run_state (open_reader sys coll send recv l) s = (out, s')"
    and "distinct [coll, send, recv]" and "held (outside s) = {coll, send, recv} \<union> H" and "{coll, send, recv} \<inter> H = {}"
  shows "loaded held H (outside s') l out"
proof -
  have opens: "opens held (newReader sys coll ''latency_events'')" using assms(1) by (simp add: tracks_handles_def)
  from assms(2) [unfolded open_reader_def] opens show ?thesis
  proof (cases rule: open_step)
    case (failed e s1)
    from failed(1) have "out = (Some (Wrap ''creating ring buffer reader'' e), l)" "held (outside s') = held (outside s1) - {recv} - {send} - {coll}"
      by (auto simp: run_discard held_close [OF assms(1)])
    with failed(2) assms(4,5) show ?thesis by (auto simp: loaded_failed)
  next
    case (opened h s1)
    let ?p = "\<lparr>SendProbe = send, RecvProbe = recv, Reader = h\<rparr>"
    from opened(1) have "out = (None, l\<lparr>programs := Some ?p\<rparr>)" "s' = s1" by simp_all
    moreover have "loaded held H (outside s1) l (None, l\<lparr>programs := Some ?p\<rparr>)"
      by (rule loaded_done [of coll]) (use opened(2,3) assms(3-5) in auto)
    ultimately show ?thesis by simp
  qed
qed

lemma attach_recv_loads:
  assumes "tracks_handles sys held" and "run_state (attach_recv sys coll send l) s = (out, s')"
    and "distinct [coll, send]" and "held (outside s) = {coll, send} \<union> H" and "{coll, send} \<inter> H = {}"
  shows "loaded held H (outside s') l out"
proof -
  have opens: "opens held (linkKprobe sys ''tcp_rcv_established'' coll ''kprobe_tcp_rcv_established'')"
    using assms(1) by (simp add: tracks_handles_def)
  from assms(2) [unfolded attach_recv_def] opens show ?thesis
  proof (cases rule: open_step)
    case (failed e s1)
    from failed(1) have "out = (Some (Wrap ''attaching tcp_rcv_established kprobe'' e), l)" "held (outside s') = held (outside s1) - {send} - {coll}"
      by (auto simp: run_discard held_close [OF assms(1)])
    with failed(2) assms(4,5) show ?thesis by (auto simp: loaded_failed)
  next
    case (opened h s1)
    show ?thesis
      by (rule open_reader_loads [OF assms(1) opened(1)]) (use opened(2,3) assms(3-5) in auto)
  qed
qed

lemma attach_send_loads:
  assumes "tracks_handles sys held" and "run_state (attach_send sys coll l) s = (out, s')"
    and "held (outside s) = insert coll H" and "coll \<notin> H"
  shows "loaded held H (outside s') l out"
proof -
  have opens: "opens held (linkKprobe sys ''tcp_sendmsg'' coll ''kprobe_tcp_sendmsg'')"
    using assms(1) by (simp add: tracks_handles_def)
  from assms(2) [unfolded attach_send_def] opens show ?thesis
  proof (cases rule: open_step)
    case (failed e s1)
    from failed(1) have "out = (Some (Wrap ''attaching tcp_sendmsg kprobe'' e), l)" "held (outside s') = held (outside s1) - {coll}"
      by (auto simp: run_discard held_close [OF assms(1)])
    with failed(2) assms(3,4) show ?thesis by (auto simp: loaded_failed)
  next
    case (opened h s1)
    show ?thesis
      by (rule attach_recv_loads [OF assms(1) opened(1)]) (use opened(2,3) assms(3,4) in auto)
  qed
qed

lemma load_object_loads:
  assumes "tracks_handles sys held" and "run_state (load_object sys f l) s = (out, s')"
  shows "loaded held (held (outside s)) (outside s') l out"
proof -
  obtain r w1 where c: "loadSpec sys f (outside s) = (r, w1)" by fastforce
  have w1: "held w1 = held (outside s)" using assms(1) c by (metis snd_conv tracks_handles_def)
  show ?thesis
  proof (cases r)
    case (Inl e)
    with assms(2) c w1 show ?thesis by (auto simp: load_object_def loaded_failed)
  next
    case (Inr spec)
    have opens: "opens held (newCollection sys spec)" using assms(1) by (simp add: tracks_handles_def)
    have run: "run_state (call_out (newCollection sys spec) \<bind> case_sum
        (\<lambda>err. ret (Some (Wrap ''creating eBPF collection'' err), l)) (\<lambda>coll. attach_send sys coll l)) (s\<lparr>outside := w1\<rparr>) = (out, s')"
      using assms(2) c Inr by (simp add: load_object_def)
    from run opens show ?thesis
    proof (cases rule: open_step)
      case (failed e s1)
      with w1 show ?thesis by (auto simp: loaded_failed)
    next
      case (opened h s1)
      show ?thesis by (rule attach_send_loads [OF assms(1) opened(1)]) (use opened(2,3) w1 in auto)
    qed
  qed
qed

lemma Load_loads:
  assumes "tracks_handles sys held" and "run_state (Load sys path l) s = (out, s')"
  shows "loaded held (held (outside s)) (outside s') l out"
proof -
  have opens: "opens held (osOpen sys path)" using assms(1) by (simp add: tracks_handles_def)
  from assms(2) [unfolded Load_def] opens show ?thesis
  proof (cases rule: open_step)
    case (failed e s1)
    then show ?thesis by (auto simp: loaded_failed)
  next
    case (opened f s1)
    obtain out1 s2 where run: "run_state (load_object sys f l) s1 = (out1, s2)" by fastforce
    have out: "out = out1" "held (outside s') = held (outside s2) - {f}"
      using opened(1) run by (auto simp: run_discard held_close [OF assms(1)])
    note object = load_object_loads [OF assms(1) run, unfolded opened(3)]
    show ?thesis
    proof (cases "fst out1")
      case (Some err)
      with object opened(2) out show ?thesis by (cases out1) (auto simp: loaded_failed)
    next
      case None
      then obtain coll p where p: "out1 = (None, l\<lparr>programs := Some p\<rparr>)" "distinct [coll, SendProbe p, RecvProbe p, Reader p]"
        "held (outside s2) = {coll, SendProbe p, RecvProbe p, Reader p} \<union> insert f (held (outside s))"
        "{coll, SendProbe p, RecvProbe p, Reader p} \<inter> insert f (held (outside s)) = {}"
        using object by (cases out1) (auto simp only: loaded_def prod.case option.case fst_conv)
      then show ?thesis unfolding out(1) p(1) by (intro loaded_done [of coll]) (use out(2) opened(2) in auto)
    qed
  qed
qed

lemma held_close_one:
  assumes "tracks_handles sys held" and "run_state (close_one sys h errs) s = (errs', s')"
  shows "held (outside s') = held (outside s) - {h}"
  using assms(2) held_close [OF assms(1)] by (auto simp: close_one_def)

lemma Loader_Close_held:
  assumes "tracks_handles sys held" and "run_state (Loader_Close sys l) s = (err, s')"
  shows "held (outside s') = held (outside s) - (case programs l of None \<Rightarrow> {} | Some p \<Rightarrow> {SendProbe p, RecvProbe p, Reader p})"
proof (cases "programs l")
  case (Some p)
  obtain e1 s1 e2 s2 e3 s3 where c: "run_state (close_one sys (Reader p) []) s = (e1, s1)"
    "run_state (close_one sys (SendProbe p) e1) s1 = (e2, s2)" "run_state (close_one sys (RecvProbe p) e2) s2 = (e3, s3)"
    by (metis prod.collapse)
  with assms(2) Some have "s' = s3" by (auto simp: Loader_Close_def)
  with held_close_one [OF assms(1) c(1)] held_close_one [OF assms(1) c(2)] held_close_one [OF assms(1) c(3)] Some
  show ?thesis by auto
qed (use assms(2) in \<open>simp add: Loader_Close_def\<close>)

text \<open>
  (C34) \<open>Load\<close> leaks nothing when it fails: whichever step fails, everything opened before it is closed, and
  the loader is as it was, so that closing it does nothing. After a \<open>Load\<close> that succeeds, \<open>Close\<close>
  gives back the reader and the two probes, whatever errors the closing reports, but one new handle
  stays: the collection, which the loader does not remember and leaves to the garbage collector.
\<close>

theorem load_then_close:
  assumes "tracks_handles sys held" and "run_state (Load sys path (NewLoader c)) s = ((err, l), s1)"
    and "run_state (Loader_Close sys l) s1 = (err', s2)"
  shows "if err = None then \<exists>coll. coll \<notin> held (outside s) \<and> held (outside s2) = insert coll (held (outside s))
    else l = NewLoader c \<and> err' = None \<and> s2 = s1 \<and> held (outside s1) = held (outside s)"
proof (cases err)
  case None
  then obtain coll p where p: "l = (NewLoader c)\<lparr>programs := Some p\<rparr>" "distinct [coll, SendProbe p, RecvProbe p, Reader p]"
    "held (outside s1) = {coll, SendProbe p, RecvProbe p, Reader p} \<union> held (outside s)"
    "{coll, SendProbe p, RecvProbe p, Reader p} \<inter> held (outside s) = {}"
    using Load_loads [OF assms(1,2)] by (auto simp only: loaded_def prod.case option.case)
  have "held (outside s2) = held (outside s1) - {SendProbe p, RecvProbe p, Reader p}"
    using Loader_Close_held [OF assms(1,3)] p(1) by simp
  with p have "coll \<notin> held (outside s) \<and> held (outside s2) = insert coll (held (outside s))" by auto
  with None show ?thesis by auto
next
  case (Some e)
  with Load_loads [OF assms(1,2)] have l: "l = NewLoader c" "held (outside s1) = held (outside s)"
    by (simp_all add: loaded_failed)
  with assms(3) Some show ?thesis by (auto simp: Loader_Close_def NewLoader_def)
qed

subsection \<open>Reading the ring buffer\<close>

text \<open>
  The reads of a run that ends: any number of answers, where a read that fails does so before the context is
  cancelled, and then a failing read after it is.
\<close>

inductive drained :: "'w ebpf_sys \<Rightarrow> handle \<Rightarrow> 'w \<Rightarrow> (go_error + 8 word list) list \<Rightarrow> 'w \<Rightarrow> bool" for sys h where
  stop: "readRecord sys h w = (Inl e, w') \<Longrightarrow> ctxDone sys w' \<Longrightarrow> drained sys h w [] w'"
| skipped: "readRecord sys h w = (Inl e, w1) \<Longrightarrow> \<not> ctxDone sys w1 \<Longrightarrow> drained sys h w1 rs w' \<Longrightarrow> drained sys h w (Inl e # rs) w'"
| got: "readRecord sys h w = (Inr raw, w1) \<Longrightarrow> drained sys h w1 rs w' \<Longrightarrow> drained sys h w (Inr raw # rs) w'"

text \<open>The events among the answers: the records long enough to hold one.\<close>

fun events_of :: "(go_error + 8 word list) list \<Rightarrow> LatencyEvent list" where
  "events_of [] = []"
| "events_of (Inl e # rs) = events_of rs"
| "events_of (Inr raw # rs) = (case ParseLatencyEvent raw of Inl e \<Rightarrow> events_of rs | Inr evt \<Rightarrow> evt # events_of rs)"

lemma read_loop_drained:
  "drained sys h w rs w' \<Longrightarrow> read_loop sys h c w = Some (fold RecordEvent (events_of rs) c, w')"
proof (induction arbitrary: c rule: drained.induct)
  case (got w raw w1 rs w')
  then show ?case by (subst read_loop.simps) (simp split: sum.split)
qed (subst read_loop.simps, simp)+

lemma read_loop_returns:
  assumes "read_loop sys h c w = Some out"
  shows "\<exists>rs. drained sys h w rs (snd out) \<and> fst out = fold RecordEvent (events_of rs) c"
proof (rule read_loop.raw_induct [where P = "\<lambda>sys h c w out. \<exists>rs. drained sys h w rs (snd out)
      \<and> fst out = fold RecordEvent (events_of rs) c", OF _ assms])
  fix loop sys h c w out
  assume IH: "\<And>sys h c w out. loop sys h c w = Some out \<Longrightarrow>
      \<exists>rs. drained sys h w rs (snd out) \<and> fst out = fold RecordEvent (events_of rs) c"
    and eq: "(case readRecord sys h w of (r, w') \<Rightarrow> (case r of
        Inl err \<Rightarrow> if ctxDone sys w' then Some (c, w') else loop sys h c w'
      | Inr raw \<Rightarrow> (case ParseLatencyEvent raw of
            Inl err \<Rightarrow> loop sys h c w'
          | Inr evt \<Rightarrow> loop sys h (RecordEvent evt c) w'))) = Some out"
  obtain r w1 where r: "readRecord sys h w = (r, w1)" by fastforce
  show "\<exists>rs. drained sys h w rs (snd out) \<and> fst out = fold RecordEvent (events_of rs) c"
  proof (cases r)
    case (Inl e)
    show ?thesis
    proof (cases "ctxDone sys w1")
      case True
      with eq r Inl have "out = (c, w1)" by simp
      moreover have "drained sys h w [] w1" by (rule stop) (use r Inl True in simp_all)
      ultimately show ?thesis by (intro exI [of _ "[]"]) simp
    next
      case False
      with eq r Inl have "loop sys h c w1 = Some out" by simp
      from IH [OF this] obtain rs where rs: "drained sys h w1 rs (snd out)" "fst out = fold RecordEvent (events_of rs) c" by blast
      have "drained sys h w (Inl e # rs) (snd out)" by (rule skipped [OF _ False rs(1)]) (use r Inl in simp)
      with rs(2) show ?thesis by (intro exI [of _ "Inl e # rs"]) simp
    qed
  next
    case (Inr raw)
    let ?c = "case ParseLatencyEvent raw of Inl err \<Rightarrow> c | Inr evt \<Rightarrow> RecordEvent evt c"
    have "loop sys h ?c w1 = Some out" using eq r Inr by (simp split: sum.splits)
    from IH [OF this] obtain rs where rs: "drained sys h w1 rs (snd out)" "fst out = fold RecordEvent (events_of rs) ?c" by blast
    have "drained sys h w (Inr raw # rs) (snd out)" by (rule got [OF _ rs(1)]) (use r Inr in simp)
    with rs(2) show ?thesis by (intro exI [of _ "Inr raw # rs"]) (simp split: sum.splits)
  qed
qed

text \<open>
  (C35) \<open>Run\<close> on a loaded loader returns exactly when a read fails after the context is cancelled; it then
  returns no error, and the collector has recorded, in order, every event of the records read until
  then, failing reads and short records skipped.
\<close>

theorem run_records_events:
  assumes "programs l = Some p" and "loadCollector l = NewCollector age"
  shows "Run sys l w = Some ((err, l'), w') \<longleftrightarrow> err = None
    \<and> (\<exists>rs. drained sys (Reader p) w rs w' \<and> l' = l\<lparr>loadCollector := fold RecordEvent (events_of rs) (NewCollector age)\<rparr>)"
proof
  assume "Run sys l w = Some ((err, l'), w')"
  then obtain c where c: "read_loop sys (Reader p) (NewCollector age) w = Some (c, w')" "err = None" "l' = l\<lparr>loadCollector := c\<rparr>"
    using assms by (auto simp: Run_def)
  from read_loop_returns [OF c(1)] c(2,3)
  show "err = None \<and> (\<exists>rs. drained sys (Reader p) w rs w'
      \<and> l' = l\<lparr>loadCollector := fold RecordEvent (events_of rs) (NewCollector age)\<rparr>)" by auto
next
  assume "err = None \<and> (\<exists>rs. drained sys (Reader p) w rs w'
      \<and> l' = l\<lparr>loadCollector := fold RecordEvent (events_of rs) (NewCollector age)\<rparr>)"
  then show "Run sys l w = Some ((err, l'), w')" using assms by (auto simp: Run_def read_loop_drained)
qed

subsection \<open>A kernel for the examples\<close>

text \<open>
  It keeps the open handles in a list, hands out one above the largest, can be told which opening fails, and
  answers reads from a list until that is used up, when the context is cancelled.
\<close>

record kernel =
  kHeld :: "handle list"
  kFail :: "nat option"
  kReads :: "(go_error + 8 word list) list"

definition kernel_open :: "kernel \<Rightarrow> (go_error + handle) \<times> kernel" where
  "kernel_open k = (case kFail k of
     Some 0 \<Rightarrow> (Inl (Errorf ''operation not permitted''), k\<lparr>kFail := None\<rparr>)
   | fail \<Rightarrow> (let h = Suc (foldr max (kHeld k) 0) in
       (Inr h, k\<lparr>kHeld := h # kHeld k, kFail := map_option (\<lambda>n. n - 1) fail\<rparr>)))"

definition demo_sys :: "kernel ebpf_sys" where
  "demo_sys = \<lparr>osOpen = (\<lambda>path. kernel_open), loadSpec = (\<lambda>f k. (Inr 0, k)), newCollection = (\<lambda>spec. kernel_open),
     linkKprobe = (\<lambda>fn h prog. kernel_open), newReader = (\<lambda>h name. kernel_open),
     closeHandle = (\<lambda>h k. (None, k\<lparr>kHeld := filter (\<lambda>g. g \<noteq> h) (kHeld k)\<rparr>)),
     readRecord = (\<lambda>h k. case kReads k of [] \<Rightarrow> (Inl (Errorf ''file already closed''), k) | r # rs \<Rightarrow> (r, k\<lparr>kReads := rs\<rparr>)),
     ctxDone = (\<lambda>k. kReads k = [])\<rparr>"

lemma foldr_max_bound: "h \<in> set hs \<Longrightarrow> h \<le> foldr max hs (0 :: nat)"
  by (induction hs) auto

lemma opens_kernel: "opens (\<lambda>k. set (kHeld k)) kernel_open"
  unfolding opens_def kernel_open_def
  by (auto simp: Let_def split: option.split nat.split dest: foldr_max_bound)

lemma demo_sys_tracks: "tracks_handles demo_sys (\<lambda>k. set (kHeld k))"
  by (auto simp: tracks_handles_def demo_sys_def opens_kernel)

abbreviation demo_kernel :: "nat option \<Rightarrow> (go_error + 8 word list) list \<Rightarrow> kernel world" where
  "demo_kernel fail reads \<equiv> \<lparr>clock = int, choice = \<lambda>n. [], outside = \<lparr>kHeld = [], kFail = fail, kReads = reads\<rparr>\<rparr>"

text \<open>The probe on \<open>tcp_rcv_established\<close> is refused: all is given back. Otherwise one handle stays.\<close>

theorem load_then_close_witness:
  "(\<exists>e l s1 s2. run_state (Load demo_sys ''tcp_latency.o'' (NewLoader (NewCollector 0))) (demo_kernel (Some 3) []) = ((Some e, l), s1)
      \<and> run_state (Loader_Close demo_sys l) s1 = (None, s2) \<and> set (kHeld (outside s2)) = {})
   \<and> (\<exists>l s1 s2 coll err. run_state (Load demo_sys ''tcp_latency.o'' (NewLoader (NewCollector 0))) (demo_kernel None []) = ((None, l), s1)
      \<and> run_state (Loader_Close demo_sys l) s1 = (err, s2) \<and> set (kHeld (outside s2)) = {coll})"
proof
  let ?load = "\<lambda>fail. run_state (Load demo_sys ''tcp_latency.o'' (NewLoader (NewCollector 0))) (demo_kernel fail [])"
  have run: "\<exists>err l s1 err' s2. ?load fail = ((err, l), s1) \<and> run_state (Loader_Close demo_sys l) s1 = (err', s2)" for fail
    by (metis prod.collapse)
  have fails: "fst (fst (?load (Some 3))) \<noteq> None" by code_simp
  obtain err l s1 err' s2 where "?load (Some 3) = ((err, l), s1)" "run_state (Loader_Close demo_sys l) s1 = (err', s2)"
    using run [of "Some 3"] by blast
  with fails obtain e where r: "?load (Some 3) = ((Some e, l), s1)" "run_state (Loader_Close demo_sys l) s1 = (err', s2)"
    by auto
  with load_then_close [OF demo_sys_tracks r] show "\<exists>e l s1 s2. ?load (Some 3) = ((Some e, l), s1)
      \<and> run_state (Loader_Close demo_sys l) s1 = (None, s2) \<and> set (kHeld (outside s2)) = {}" by auto
  have works: "fst (fst (?load None)) = None" by code_simp
  obtain err l s1 err' s2 where "?load None = ((err, l), s1)" "run_state (Loader_Close demo_sys l) s1 = (err', s2)"
    using run [of None] by blast
  with works have r: "?load None = ((None, l), s1)" "run_state (Loader_Close demo_sys l) s1 = (err', s2)" by simp_all
  with load_then_close [OF demo_sys_tracks r] show "\<exists>l s1 s2 coll err. ?load None = ((None, l), s1)
      \<and> run_state (Loader_Close demo_sys l) s1 = (err, s2) \<and> set (kHeld (outside s2)) = {coll}" by auto
qed

definition demo_reads :: "(go_error + 8 word list) list" where
  "demo_reads = [Inr (replicate 28 1), Inl (Errorf ''interrupted''), Inr [1, 2, 3]]"

theorem run_records_events_witness:
  "\<exists>l'. Run demo_sys (NewLoader (NewCollector 0)\<lparr>programs := Some \<lparr>SendProbe = 2, RecvProbe = 3, Reader = 4\<rparr>\<rparr>)
       (outside (demo_kernel None demo_reads)) = Some ((None, l'), outside (demo_kernel None []))
     \<and> map length (map snd (rttSamples (loadCollector l'))) = [1]"
proof -
  let ?p = "\<lparr>SendProbe = 2, RecvProbe = 3, Reader = 4\<rparr>"
  let ?l = "NewLoader (NewCollector 0)\<lparr>programs := Some ?p\<rparr>"
  let ?w = "outside (demo_kernel None demo_reads)" and ?w' = "outside (demo_kernel None [])"
  let ?k = "\<lambda>rs. \<lparr>kHeld = [], kFail = None, kReads = rs\<rparr>" and ?short = "Inr [1, 2, 3]" and ?e = "Errorf ''interrupted''"
  have "drained demo_sys 4 (?k []) [] (?k [])" by (rule drained.stop) (simp_all add: demo_sys_def)
  then have "drained demo_sys 4 (?k [?short]) [?short] (?k [])" by (rule drained.got [rotated]) (simp add: demo_sys_def)
  then have "drained demo_sys 4 (?k [Inl ?e, ?short]) [Inl ?e, ?short] (?k [])"
    by (rule drained.skipped [rotated 2]) (simp_all add: demo_sys_def)
  then have reads: "drained demo_sys 4 (?k demo_reads) demo_reads (?k [])"
    unfolding demo_reads_def by (rule drained.got [rotated]) (simp add: demo_sys_def)
  define c where c: "c = fold RecordEvent (events_of demo_reads) (NewCollector 0)"
  have "map length (map snd (rttSamples (fold RecordEvent (events_of demo_reads) (NewCollector 0)))) = [1]"
    by (simp add: demo_reads_def ParseLatencyEvent_def RecordEvent_def samples_of_def NewCollector_def maxSamples_def)
  then have kept: "map length (map snd (rttSamples c)) = [1]" unfolding c .
  have l: "programs ?l = Some ?p" "loadCollector ?l = NewCollector 0" by (simp_all add: NewLoader_def)
  have drained: "drained demo_sys (Reader ?p) ?w demo_reads ?w'" using reads by simp
  have ran: "Run demo_sys ?l ?w = Some ((None, ?l\<lparr>loadCollector := c\<rparr>), ?w')"
    unfolding c by (rule iffD2 [OF run_records_events [OF l]]) (rule conjI [OF refl], rule exI, rule conjI [OF drained refl])
  have "loadCollector (?l\<lparr>loadCollector := c\<rparr>) = c" by simp
  with kept have "map length (map snd (rttSamples (loadCollector (?l\<lparr>loadCollector := c\<rparr>)))) = [1]" by (rule ssubst [rotated])
  with ran show ?thesis by (intro exI conjI)
qed

end
