(* ===== verification/Agent_Process.thy ===== *)
theory Agent_Process
  imports Agent Loader
begin

section \<open>The agent process\<close>

text \<open>
  \<open>main\<close> of \<open>cmd/agent/main.go\<close>: it loads the eBPF programs into a fresh collector, starts a goroutine that
  reads their events (\<open>Loader.Run\<close>) and an HTTP server, waits for a signal and shuts down. What runs side
  by side are turns of the reading loop and requests; the mutex of the collector makes \<open>RecordEvent\<close> and
  \<open>GetStats\<close> atomic, so an execution is any interleaving of them, written as a labelled step relation.
\<close>

subsection \<open>The flags and the start\<close>

record agent_options =
  listenAddr :: string
  bpfObject :: string
  maxSampleAge :: duration

definition default_agent_options :: agent_options where
  "default_agent_options = \<lparr>listenAddr = '':9100'', bpfObject = ''/opt/aviator/tcp_latency.o'', maxSampleAge = 60 * second\<rparr>"

text \<open>\<open>None\<close> is \<open>os.Exit(1)\<close>.\<close>

definition agent_start :: "'w ebpf_sys \<Rightarrow> agent_options \<Rightarrow> ('w world, Loader option) state" where
  "agent_start sys opts = do {
     let collector = NewCollector (maxSampleAge opts);
     (err, l) \<leftarrow> Load sys (bpfObject opts) (NewLoader collector);
     ret (case err of Some e \<Rightarrow> None | None \<Rightarrow> Some l)
   }"

subsection \<open>Side by side\<close>

text \<open>One turn of the loop of \<open>Run\<close>; \<open>None\<close> when it returns.\<close>

definition read_turn :: "'w ebpf_sys \<Rightarrow> handle \<Rightarrow> Collector \<Rightarrow> 'w \<Rightarrow> Collector option \<times> 'w" where
  "read_turn sys h c w = (case readRecord sys h w of (r, w') \<Rightarrow>
     ((case r of
         Inl err \<Rightarrow> if ctxDone sys w' then None else Some c
       | Inr raw \<Rightarrow> (case ParseLatencyEvent raw of Inl err \<Rightarrow> Some c | Inr evt \<Rightarrow> Some (RecordEvent evt c))), w'))"

lemma read_loop_turn:
  "read_loop sys h c w = (case read_turn sys h c w of (None, w') \<Rightarrow> Some (c, w') | (Some c', w') \<Rightarrow> read_loop sys h c' w')"
  by (subst read_loop.simps) (simp add: read_turn_def split: prod.split sum.split)

datatype phase = Serving | Draining | Stopped

record 'w agent =
  agWorld :: "'w world"
  agLoader :: Loader
  agReading :: bool
  agPhase :: phase

text \<open>
  \<open>Received\<close>: a turn of the reading loop. \<open>Answered\<close>: a request for \<open>/latencies\<close>, answered while the server
  is up or draining. \<open>Elapsed\<close>: whatever else happens outside. \<open>Signalled\<close>: the signal arrives, the context is
  cancelled and the server takes no more connections. \<open>Closed\<close>: the deferred \<open>Close\<close>, after which the process ends.
  \<open>Failed\<close>: the server fails and \<open>os.Exit(1)\<close> ends the process without running what is deferred.
\<close>

datatype label = Received "go_error + 8 word list" | Answered "http_response option" | Elapsed | Signalled | Closed | Failed

inductive agent_step :: "'w ebpf_sys \<Rightarrow> (time \<Rightarrow> go_error + string) \<Rightarrow> string \<Rightarrow> 'w agent \<Rightarrow> label \<Rightarrow> 'w agent \<Rightarrow> bool"
  for sys time_text nodeName where
  read: "agPhase a \<noteq> Stopped \<Longrightarrow> agReading a \<Longrightarrow> programs (agLoader a) = Some p \<Longrightarrow>
    readRecord sys (Reader p) (outside (agWorld a)) = (r, w) \<Longrightarrow>
    read_turn sys (Reader p) (loadCollector (agLoader a)) (outside (agWorld a)) = (Some c, w) \<Longrightarrow>
      agent_step sys time_text nodeName a (Received r)
        (a\<lparr>agWorld := (agWorld a)\<lparr>outside := w\<rparr>, agLoader := (agLoader a)\<lparr>loadCollector := c\<rparr>\<rparr>)"
| read_end: "agPhase a \<noteq> Stopped \<Longrightarrow> agReading a \<Longrightarrow> programs (agLoader a) = Some p \<Longrightarrow>
    read_turn sys (Reader p) (loadCollector (agLoader a)) (outside (agWorld a)) = (None, w) \<Longrightarrow>
      agent_step sys time_text nodeName a Elapsed (a\<lparr>agWorld := (agWorld a)\<lparr>outside := w\<rparr>, agReading := False\<rparr>)"
| answer: "agPhase a \<noteq> Stopped \<Longrightarrow>
    run_state (latenciesHandler time_text nodeName (loadCollector (agLoader a))) (agWorld a) = (resp, s) \<Longrightarrow>
      agent_step sys time_text nodeName a (Answered resp) (a\<lparr>agWorld := s\<rparr>)"
| elapse: "advances (agWorld a) s \<Longrightarrow> agent_step sys time_text nodeName a Elapsed (a\<lparr>agWorld := s\<rparr>)"
| signal: "agPhase a = Serving \<Longrightarrow> ctxDone sys w \<Longrightarrow>
      agent_step sys time_text nodeName a Signalled (a\<lparr>agWorld := (agWorld a)\<lparr>outside := w\<rparr>, agPhase := Draining\<rparr>)"
| finish: "agPhase a = Draining \<Longrightarrow> run_state (Loader_Close sys (agLoader a)) (agWorld a) = (err, s) \<Longrightarrow>
      agent_step sys time_text nodeName a Closed (a\<lparr>agWorld := s, agPhase := Stopped\<rparr>)"
| fail: "agPhase a = Serving \<Longrightarrow> agent_step sys time_text nodeName a Failed (a\<lparr>agPhase := Stopped\<rparr>)"

inductive agent_run :: "'w ebpf_sys \<Rightarrow> (time \<Rightarrow> go_error + string) \<Rightarrow> string \<Rightarrow> 'w agent \<Rightarrow> label list \<Rightarrow> 'w agent \<Rightarrow> bool"
  for sys time_text nodeName where
  none: "agent_run sys time_text nodeName a [] a"
| more: "agent_run sys time_text nodeName a tr b \<Longrightarrow> agent_step sys time_text nodeName b lb c \<Longrightarrow>
    agent_run sys time_text nodeName a (tr @ [lb]) c"

definition started :: "'w world \<Rightarrow> Loader \<Rightarrow> 'w agent" where
  "started s l = \<lparr>agWorld = s, agLoader = l, agReading = True, agPhase = Serving\<rparr>"

subsection \<open>What an answer reports\<close>

definition received :: "label list \<Rightarrow> (go_error + 8 word list) list" where
  "received tr = concat (map (\<lambda>lb. case lb of Received r \<Rightarrow> [r] | _ \<Rightarrow> []) tr)"

lemma received_simps [simp]:
  "received [] = []" "received (tr @ [Received r]) = received tr @ [r]" "received (tr @ [Answered resp]) = received tr"
  "received (tr @ [Elapsed]) = received tr" "received (tr @ [Signalled]) = received tr" "received (tr @ [Closed]) = received tr"
  "received (tr @ [Failed]) = received tr"
  by (simp_all add: received_def)

lemma events_of_append: "events_of (rs @ rs') = events_of rs @ events_of rs'"
  by (induction rs rule: events_of.induct) (simp_all split: sum.split)

lemma read_turn_events:
  assumes "readRecord sys h w = (r, w')" and "read_turn sys h c w = (Some c', w')"
  shows "c' = fold RecordEvent (events_of [r]) c"
  using assms by (cases r) (auto simp: read_turn_def split: sum.splits if_splits)

text \<open>However the process is scheduled, its collector holds the events read so far and nothing else.\<close>

lemma agent_run_collector:
  assumes "agent_run sys time_text nodeName (started s l) tr a"
  shows "loadCollector (agLoader a) = fold RecordEvent (events_of (received tr)) (loadCollector l)"
  using assms
proof (induction "started s l" tr a rule: agent_run.induct)
  case none
  show ?case by (simp add: started_def)
next
  case (more tr b lb c)
  from more.hyps(3,2) show ?case
    by cases (simp_all add: events_of_append read_turn_events [of sys])
qed

lemma Load_collector:
  "run_state (Load sys path l) s = ((err, l'), s') \<Longrightarrow> loadCollector l' = loadCollector l"
  by (auto simp: Load_def load_object_def attach_send_def attach_recv_def open_reader_def discard_def
      split: prod.splits sum.splits)

lemma agent_start_collector:
  "run_state (agent_start sys opts) s = (Some l, s1) \<Longrightarrow> loadCollector l = NewCollector (maxSampleAge opts)"
  by (auto simp: agent_start_def NewLoader_def split: prod.splits option.splits dest: Load_collector)

lemma buffers_ok_recorded: "buffers_ok (fold RecordEvent evts (NewCollector age))"
proof (induction evts rule: rev_induct)
  case Nil
  show ?case by (simp add: collecting_buffers_ok collecting.start)
qed (simp add: buffers_ok_events)

text \<open>The number of samples an answer reports for a pod, for the events read so far.\<close>

definition reported_count :: "LatencyEvent list \<Rightarrow> string \<Rightarrow> int64 option" where
  "reported_count evts ip =
     (let n = length (filter (\<lambda>e. uint32ToIP (DstIP e) = ip) evts)
      in if n = 0 then None else Some (of_nat (min n maxSamples)))"

lemma reported_counts:
  assumes "run_state (GetStats (fold RecordEvent evts (NewCollector age))) rt = (Some m, rt')"
  shows "map_option podSampleCount (map_of m ip) = reported_count evts ip"
proof -
  let ?c = "fold RecordEvent evts (NewCollector age)"
  let ?n = "length (filter (\<lambda>e. uint32ToIP (DstIP e) = ip) evts)"
  have m: "fst ` set m = fst ` set (rttSamples ?c)"
    "\<And>st. map_of m ip = Some st \<Longrightarrow> samples_of ?c ip \<noteq> [] \<and> podSampleCount st = go_len (samples_of ?c ip)"
    using GetStats_run [OF buffers_ok_recorded assms] by (auto simp: summarizes_def)
  have len: "length (samples_of ?c ip) = min ?n maxSamples" by (simp add: samples_recorded last_n_def)
  have pos: "0 < maxSamples" by (simp add: maxSamples_def)
  show ?thesis
  proof (cases "map_of m ip")
    case None
    then have "map_of (rttSamples ?c) ip = None" unfolding map_of_eq_None_iff m(1) .
    then have "samples_of ?c ip = []" by (simp add: samples_of_def)
    with len pos have "?n = 0" by (metis length_0_conv min_def not_less_zero order_less_le)
    with None show ?thesis by (simp add: reported_count_def)
  next
    case (Some st)
    with m(2) [OF Some] len show ?thesis by (auto simp: reported_count_def Let_def)
  qed
qed

text \<open>
  (C36) However the reading goroutine and the requests interleave, an answer of the agent with status 200 is
  decoded by the source into exactly the pods an event has been read for since the start of the agent,
  each with the number of its events so far, up to ten thousand. No request makes it panic, and the status
  is 200 unless a time cannot be written.
  So a pod once reported is reported in every later answer: no step of the agent forgets one,
  however old its samples, and the \<open>-max-sample-age\<close> flag has no effect.
\<close>

theorem agent_answers:
  assumes "run_state (agent_start sys opts) s = (Some l, s1)"
    and "agent_run sys time_text nodeName (started s1 l) tr a"
    and "agent_step sys time_text nodeName a (Answered resp) b"
  shows "\<exists>r. resp = Some r \<and> (statusCode r = 200 \<or> (\<exists>t e. time_text t = Inl e)) \<and> (statusCode r = 200 \<longrightarrow> (\<exists>ans. read_response endpoint (Inr r) = Inr ans
    \<and> agentNodeName ans = nodeName
    \<and> (\<forall>ip. map_option agentSampleCount (map_of (agentPodLatencies ans) ip) = reported_count (events_of (received tr)) ip)))"
proof -
  let ?c = "fold RecordEvent (events_of (received tr)) (NewCollector (maxSampleAge opts))"
  have c: "loadCollector (agLoader a) = ?c"
    using agent_run_collector [OF assms(2)] agent_start_collector [OF assms(1)] by simp
  obtain w where run: "run_state (latenciesHandler time_text nodeName ?c) (agWorld a) = (resp, w)"
    using assms(3) c by cases auto
  obtain m r where m: "run_state (GetStats ?c) (agWorld a) = (Some m, w)" and r: "resp = Some r"
    and status: "statusCode r = 200 \<or> (\<exists>t e. time_text t = Inl e)"
    and ok: "statusCode r = 200 \<longrightarrow> (\<exists>ans. read_response endpoint (Inr r) = Inr ans \<and> agentNodeName ans = nodeName
      \<and> map_of (agentPodLatencies ans) = (\<lambda>ip. map_option on_wire (map_of m ip)))"
    using handler_answer [OF buffers_ok_recorded run, of endpoint] by (auto split: if_splits)
  have "map_option agentSampleCount (map_option on_wire (map_of m ip)) = reported_count (events_of (received tr)) ip" for ip
    unfolding reported_counts [OF m, symmetric] by (cases "map_of m ip") (simp_all add: on_wire_def)
  with r ok status show ?thesis by auto
qed

abbreviation demo_record :: "8 word list" where
  "demo_record \<equiv> replicate 28 1"

lemma demo_agent_starts:
  obtains l p s1 where "run_state (agent_start demo_sys default_agent_options) (demo_kernel None [Inr demo_record]) = (Some l, s1)"
    and "programs l = Some p" and "kReads (outside s1) = [Inr demo_record]"
proof -
  let ?run = "run_state (agent_start demo_sys default_agent_options) (demo_kernel None [Inr demo_record])"
  have "map_option (\<lambda>l. programs l = None) (fst ?run) = Some False" "kReads (outside (snd ?run)) = [Inr demo_record]"
    by code_simp+
  then show ?thesis using that by (cases ?run) auto
qed

lemma demo_record_event: "reported_count (events_of [Inr demo_record]) (uint32ToIP 0x01010101) = Some 1"
proof -
  have "replicate 4 1 = [1, 1, 1, 1 :: 8 word]" by code_simp
  then have "le_nat (replicate 4 1) = 0x01010101" by simp
  then show ?thesis by (simp add: reported_count_def ParseLatencyEvent_def bytes_at_def maxSamples_def)
qed

theorem agent_answers_witness:
  "\<exists>l s1 a b r ans. run_state (agent_start demo_sys default_agent_options) (demo_kernel None [Inr demo_record]) = (Some l, s1)
     \<and> agent_run demo_sys (\<lambda>t. Inr ''2025-01-01T00:00:00Z'') ''node-1'' (started s1 l) [Received (Inr demo_record)] a
     \<and> agent_step demo_sys (\<lambda>t. Inr ''2025-01-01T00:00:00Z'') ''node-1'' a (Answered (Some r)) b
     \<and> read_response ''node-1:9100'' (Inr r) = Inr ans
     \<and> map_option agentSampleCount (map_of (agentPodLatencies ans) (uint32ToIP 0x01010101)) = Some 1"
proof -
  let ?text = "\<lambda>t. Inr ''2025-01-01T00:00:00Z''" and ?raw = "Inr demo_record"
  obtain l p s1 where start: "run_state (agent_start demo_sys default_agent_options) (demo_kernel None [?raw]) = (Some l, s1)"
    and p: "programs l = Some p" and reads: "kReads (outside s1) = [?raw]" by (rule demo_agent_starts)
  obtain e where e: "ParseLatencyEvent demo_record = Inr e" by (simp add: ParseLatencyEvent_def)
  let ?w = "(outside s1)\<lparr>kReads := []\<rparr>" and ?c = "RecordEvent e (loadCollector l)"
  let ?a = "(started s1 l)\<lparr>agWorld := s1\<lparr>outside := ?w\<rparr>, agLoader := l\<lparr>loadCollector := ?c\<rparr>\<rparr>"
  have "readRecord demo_sys (Reader p) (outside s1) = (?raw, ?w)" using reads by (simp add: demo_sys_def)
  then have "agent_step demo_sys ?text ''node-1'' (started s1 l) (Received ?raw) ?a"
    using agent_step.read [of "started s1 l" p demo_sys ?raw ?w ?c ?text "''node-1''"] p e
    by (simp add: started_def read_turn_def)
  with agent_run.more [OF agent_run.none] have run: "agent_run demo_sys ?text ''node-1'' (started s1 l) [Received ?raw] ?a"
    by (metis append_Nil)
  obtain resp s where "run_state (latenciesHandler ?text ''node-1'' (loadCollector (agLoader ?a))) (agWorld ?a) = (resp, s)"
    by fastforce
  from agent_step.answer [OF _ this] have step: "agent_step demo_sys ?text ''node-1'' ?a (Answered resp) (?a\<lparr>agWorld := s\<rparr>)"
    by (simp add: started_def)
  from agent_answers [OF start run step, of "''node-1:9100''"] obtain r ans where r: "resp = Some r"
    "read_response ''node-1:9100'' (Inr r) = Inr ans"
    "\<forall>ip. map_option agentSampleCount (map_of (agentPodLatencies ans) ip) = reported_count (events_of (received [Received ?raw])) ip"
    by auto
  have "received [Received ?raw] = [?raw]" by (simp add: received_def)
  with r(3) demo_record_event have "map_option agentSampleCount (map_of (agentPodLatencies ans) (uint32ToIP 0x01010101)) = Some 1"
    by metis
  with start run step r(1,2) show ?thesis by blast
qed

end
