(* ===== verification/Controller_Main.thy ===== *)
theory Controller_Main
  imports Slice_Properties
begin

section \<open>The controller process\<close>

text \<open>
  \<open>main\<close> of \<open>cmd/main.go\<close> and \<open>SetupWithManager\<close> of the reconciler: the flags, the TLS options of the two
  servers, the choice of the latency source, and the registration with the manager of
  controller-runtime, which then calls \<open>Reconcile\<close> with one request after the other. The manager and the
  certificate watchers are not part of the repository: a parameter. Logging is left out.
\<close>

subsection \<open>Flags\<close>

record options =
  metricsAddr :: string
  metricsCertPath :: string
  metricsCertName :: string
  metricsCertKey :: string
  webhookCertPath :: string
  webhookCertName :: string
  webhookCertKey :: string
  enableLeaderElection :: bool
  probeAddr :: string
  secureMetrics :: bool
  enableHTTP2 :: bool
  latencySourceFlag :: string
  probePortFlag :: int64

definition default_options :: options where
  "default_options = \<lparr>metricsAddr = ''0'', metricsCertPath = '''', metricsCertName = ''tls.crt'', metricsCertKey = ''tls.key'',
     webhookCertPath = '''', webhookCertName = ''tls.crt'', webhookCertKey = ''tls.key'',
     enableLeaderElection = False, probeAddr = '':8081'', secureMetrics = True, enableHTTP2 = False,
     latencySourceFlag = ''ebpf'', probePortFlag = 8080\<rparr>"

subsection \<open>Paths\<close>

text \<open>\<open>filepath.Join\<close> of two elements: the empty ones dropped, the rest joined and cleaned lexically.\<close>

fun split_slash :: "string \<Rightarrow> string list" where
  "split_slash [] = [[]]"
| "split_slash (c # cs) = (if c = CHR ''/'' then [] # split_slash cs
     else case split_slash cs of [] \<Rightarrow> [[c]] | part # parts \<Rightarrow> (c # part) # parts)"

definition clean_step :: "bool \<Rightarrow> string \<Rightarrow> string list \<Rightarrow> string list" where
  "clean_step rooted part stack =
     (if part = '''' \<or> part = ''.'' then stack
      else if part = ''..'' then (case stack of
          [] \<Rightarrow> if rooted then [] else [part]
        | prev # rest \<Rightarrow> if prev = ''..'' then part # stack else rest)
      else part # stack)"

fun join_slash :: "string list \<Rightarrow> string" where
  "join_slash [] = ''''"
| "join_slash [part] = part"
| "join_slash (part # parts) = part @ ''/'' @ join_slash parts"

definition filepath_Clean :: "string \<Rightarrow> string" where
  "filepath_Clean path =
     (let rooted = (case path of c # cs \<Rightarrow> c = CHR ''/'' | [] \<Rightarrow> False);
          body = join_slash (rev (fold (clean_step rooted) (split_slash path) []))
      in if rooted then ''/'' @ body else if body = '''' then ''.'' else body)"

definition filepath_Join :: "string \<Rightarrow> string \<Rightarrow> string" where
  "filepath_Join a b = (let elems = filter (\<lambda>e. e \<noteq> '''') [a, b] in if elems = [] then '''' else filepath_Clean (join_slash elems))"

subsection \<open>The servers\<close>

text \<open>A TLS option is a function that sets fields of the configuration.\<close>

record tls_config =
  NextProtos :: "string list"
  GetCertificate :: "nat option"

type_synonym tls_option = "tls_config \<Rightarrow> tls_config"

definition disableHTTP2 :: tls_option where
  "disableHTTP2 c = c\<lparr>NextProtos := [''http/1.1'']\<rparr>"

definition watcher_certificate :: "nat \<Rightarrow> tls_option" where
  "watcher_certificate watcher config = config\<lparr>GetCertificate := Some watcher\<rparr>"

definition base_tls_options :: "options \<Rightarrow> tls_option list" where
  "base_tls_options opts = (if \<not> enableHTTP2 opts then [disableHTTP2] else [])"

record metrics_server =
  BindAddress :: string
  SecureServing :: bool
  metricsTLSOpts :: "tls_option list"
  FilterProvider :: bool

record manager_options =
  mgrMetrics :: metrics_server
  webhookTLSOpts :: "tls_option list"
  HealthProbeBindAddress :: string
  LeaderElection :: bool
  LeaderElectionID :: string

text \<open>What the builder of the controller is told: the objects it is for, and those it owns.\<close>

record watches =
  watchFor :: string
  watchOwns :: "string list"

text \<open>Watchers and managers are numbered; every call may fail and change the world.\<close>

record 'w manager_lib =
  newCertWatcher :: "string \<Rightarrow> string \<Rightarrow> 'w \<Rightarrow> (go_error + nat) \<times> 'w"
  newManager :: "manager_options \<Rightarrow> 'w \<Rightarrow> (go_error + nat) \<times> 'w"
  managerClient :: "nat \<Rightarrow> 'w Client"
  completeController :: "nat \<Rightarrow> watches \<Rightarrow> 'w Reconciler \<Rightarrow> 'w \<Rightarrow> go_error option \<times> 'w"
  addRunnable :: "nat \<Rightarrow> nat \<Rightarrow> 'w \<Rightarrow> go_error option \<times> 'w"
  addHealthzCheck :: "nat \<Rightarrow> string \<Rightarrow> 'w \<Rightarrow> go_error option \<times> 'w"
  addReadyzCheck :: "nat \<Rightarrow> string \<Rightarrow> 'w \<Rightarrow> go_error option \<times> 'w"
  managerStopped :: "nat \<Rightarrow> 'w \<Rightarrow> go_error option \<times> 'w"

text \<open>
  The two certificate watchers. Appending to a slice of capacity one (or none) copies it, so the options of
  the two servers do not share an array. \<open>None\<close> is \<open>os.Exit(1)\<close>.
\<close>

definition webhook_options :: "'w manager_lib \<Rightarrow> options \<Rightarrow> ('w world, (nat option \<times> tls_option list) option) state" where
  "webhook_options lib opts =
     (if length (webhookCertPath opts) > 0 then do {
        r \<leftarrow> call_out (newCertWatcher lib (filepath_Join (webhookCertPath opts) (webhookCertName opts))
               (filepath_Join (webhookCertPath opts) (webhookCertKey opts)));
        ret (case r of Inl err \<Rightarrow> None
          | Inr watcher \<Rightarrow> Some (Some watcher, base_tls_options opts @ [watcher_certificate watcher]))
      } else ret (Some (None, base_tls_options opts)))"

definition metrics_options :: "'w manager_lib \<Rightarrow> options \<Rightarrow> ('w world, (nat option \<times> metrics_server) option) state" where
  "metrics_options lib opts =
     (let server = \<lparr>BindAddress = metricsAddr opts, SecureServing = secureMetrics opts,
            metricsTLSOpts = base_tls_options opts, FilterProvider = False\<rparr>;
          server = (if secureMetrics opts then server\<lparr>FilterProvider := True\<rparr> else server)
      in if length (metricsCertPath opts) > 0 then do {
        r \<leftarrow> call_out (newCertWatcher lib (filepath_Join (metricsCertPath opts) (metricsCertName opts))
               (filepath_Join (metricsCertPath opts) (metricsCertKey opts)));
        ret (case r of Inl err \<Rightarrow> None
          | Inr watcher \<Rightarrow> Some (Some watcher,
              server\<lparr>metricsTLSOpts := metricsTLSOpts server @ [watcher_certificate watcher]\<rparr>))
      } else ret (Some (None, server)))"

definition configure ::
  "'w manager_lib \<Rightarrow> options \<Rightarrow> ('w world, (nat option \<times> nat option \<times> manager_options) option) state" where
  "configure lib opts = do {
     w \<leftarrow> webhook_options lib opts;
     (case w of None \<Rightarrow> ret None
      | Some (webhookCertWatcher, webhookTLS) \<Rightarrow> do {
          m \<leftarrow> metrics_options lib opts;
          ret (case m of None \<Rightarrow> None
            | Some (metricsCertWatcher, server) \<Rightarrow> Some (metricsCertWatcher, webhookCertWatcher,
                \<lparr>mgrMetrics = server, webhookTLSOpts = webhookTLS, HealthProbeBindAddress = probeAddr opts,
                 LeaderElection = enableLeaderElection opts, LeaderElectionID = ''8bd07bf5.example.com''\<rparr>))
        })
   }"

subsection \<open>The controller\<close>

text \<open>The \<open>switch\<close> on the flag; \<open>None\<close> is \<open>os.Exit(1)\<close>.\<close>

definition select_source :: "string \<Rightarrow> int64 \<Rightarrow> 'w http_client \<Rightarrow> 'w Source option" where
  "select_source typ port http =
     (if typ = ''ebpf'' then Some (ebpf_Source (NewEBPFSource http))
      else if typ = ''probe'' then Some (probe_Source (NewProbeSource http (go_conv port)))
      else None)"

definition SetupWithManager :: "'w manager_lib \<Rightarrow> nat \<Rightarrow> 'w Reconciler \<Rightarrow> ('w world, go_error option) state" where
  "SetupWithManager lib mgr rec =
     call_out (completeController lib mgr \<lparr>watchFor = ''AviatorPolicy'', watchOwns = [''EndpointSlice'']\<rparr> rec)"

text \<open>
  What the running manager does with the reconciler: one request after the other, and before each of
  them others may change the world outside. \<open>None\<close> is a panic.
\<close>

fun serve_requests :: "(('w \<Rightarrow> 'w) \<times> NamespacedName) list \<Rightarrow> 'w Reconciler \<Rightarrow> ('w world, 'w Reconciler option) state" where
  "serve_requests [] rec = ret (Some rec)"
| "serve_requests ((others, req) # reqs) rec = do {
     u \<leftarrow> call_out (\<lambda>w. ((), others w));
     out \<leftarrow> Reconcile rec req;
     (case out of None \<Rightarrow> ret None | Some (rec', res, err) \<Rightarrow> serve_requests reqs rec')
   }"

datatype exit_status = Exited nat | Panicked

definition run_manager ::
  "'w manager_lib \<Rightarrow> nat \<Rightarrow> (('w \<Rightarrow> 'w) \<times> NamespacedName) list \<Rightarrow> 'w Reconciler \<Rightarrow> ('w world, exit_status) state" where
  "run_manager lib mgr reqs rec = do {
     out \<leftarrow> serve_requests reqs rec;
     (case out of None \<Rightarrow> ret Panicked
      | Some rec' \<Rightarrow> do {
          err \<leftarrow> call_out (managerStopped lib mgr);
          ret (case err of Some e \<Rightarrow> Exited 1 | None \<Rightarrow> Exited 0)
        })
   }"

text \<open>\<open>if err := step; err != nil { os.Exit(1) }\<close>\<close>

definition or_exit :: "('w world, go_error option) state \<Rightarrow> ('w world, exit_status) state \<Rightarrow> ('w world, exit_status) state" where
  "or_exit step rest = do {
     err \<leftarrow> step;
     (case err of Some e \<Rightarrow> ret (Exited 1) | None \<Rightarrow> rest)
   }"

definition add_watcher :: "'w manager_lib \<Rightarrow> nat \<Rightarrow> nat option \<Rightarrow> ('w world, go_error option) state" where
  "add_watcher lib mgr watcher = (case watcher of None \<Rightarrow> ret None | Some w \<Rightarrow> call_out (addRunnable lib mgr w))"

definition start_reconciler ::
  "'w manager_lib \<Rightarrow> options \<Rightarrow> 'w http_client \<Rightarrow> k8s_lib \<Rightarrow> nat \<Rightarrow> 'w Reconciler option" where
  "start_reconciler lib opts http k8s mgr =
     map_option (\<lambda>latSource. NewReconciler (managerClient lib mgr) k8s latSource (managerClient lib mgr))
       (select_source (latencySourceFlag opts) (probePortFlag opts) http)"

definition controller_main ::
  "'w manager_lib \<Rightarrow> 'w http_client \<Rightarrow> k8s_lib \<Rightarrow> options \<Rightarrow> (('w \<Rightarrow> 'w) \<times> NamespacedName) list
     \<Rightarrow> ('w world, exit_status) state" where
  "controller_main lib http k8s opts reqs = do {
     c \<leftarrow> configure lib opts;
     (case c of None \<Rightarrow> ret (Exited 1)
      | Some (metricsCertWatcher, webhookCertWatcher, mopts) \<Rightarrow> do {
          m \<leftarrow> call_out (newManager lib mopts);
          (case m of Inl err \<Rightarrow> ret (Exited 1)
           | Inr mgr \<Rightarrow> (case start_reconciler lib opts http k8s mgr of None \<Rightarrow> ret (Exited 1)
              | Some rec \<Rightarrow>
                  or_exit (SetupWithManager lib mgr rec)
                    (or_exit (add_watcher lib mgr metricsCertWatcher)
                      (or_exit (add_watcher lib mgr webhookCertWatcher)
                        (or_exit (call_out (addHealthzCheck lib mgr ''healthz''))
                          (or_exit (call_out (addReadyzCheck lib mgr ''readyz''))
                            (run_manager lib mgr reqs rec)))))))
        })
   }"

subsection \<open>The servers are secured as the flags say\<close>

text \<open>What a server does with its TLS options: each is applied to the configuration, in order.\<close>

definition apply_tls :: "tls_option list \<Rightarrow> tls_config \<Rightarrow> tls_config" where
  "apply_tls fs config = fold (\<lambda>f c. f c) fs config"

text \<open>
  (C38) Unless HTTP/2 is enabled, both servers offer HTTP/1.1 only, whatever configuration they start from
  and whether or not a certificate watcher is added after; each server uses its own watcher's
  certificate exactly if its path is given; and the metrics server authenticates exactly if it is
  served securely.
\<close>

theorem servers_secured:
  fixes config :: tls_config
  assumes "run_state (configure lib opts) s = (Some (metricsWatcher, webhookWatcher, mo), s')"
  defines "metrics \<equiv> apply_tls (metricsTLSOpts (mgrMetrics mo)) config" and "webhook \<equiv> apply_tls (webhookTLSOpts mo) config"
  shows "NextProtos metrics = (if enableHTTP2 opts then NextProtos config else [''http/1.1''])
    \<and> NextProtos webhook = (if enableHTTP2 opts then NextProtos config else [''http/1.1''])
    \<and> GetCertificate metrics = (if metricsCertPath opts = '''' then GetCertificate config else metricsWatcher)
    \<and> GetCertificate webhook = (if webhookCertPath opts = '''' then GetCertificate config else webhookWatcher)
    \<and> (metricsWatcher = None \<longleftrightarrow> metricsCertPath opts = '''') \<and> (webhookWatcher = None \<longleftrightarrow> webhookCertPath opts = '''')
    \<and> SecureServing (mgrMetrics mo) = secureMetrics opts \<and> FilterProvider (mgrMetrics mo) = secureMetrics opts"
  using assms(1) unfolding metrics_def webhook_def
  by (auto simp: configure_def webhook_options_def metrics_options_def base_tls_options_def apply_tls_def Let_def
      disableHTTP2_def watcher_certificate_def split: option.splits sum.splits prod.splits if_splits)

text \<open>A manager whose calls all succeed; certificates are found in \<open>/certs\<close> only.\<close>

definition demo_manager :: "cluster manager_lib" where
  "demo_manager = \<lparr>newCertWatcher = (\<lambda>cert key w. (if cert = ''/certs/tls.crt'' \<and> key = ''/certs/tls.key''
        then Inr 7 else Inl (Errorf ''no such file''), w)),
     newManager = (\<lambda>mo w. (Inr 1, w)), managerClient = (\<lambda>mgr. cluster_client),
     completeController = (\<lambda>mgr ws rec w. (None, w)), addRunnable = (\<lambda>mgr r w. (None, w)),
     addHealthzCheck = (\<lambda>mgr name w. (None, w)), addReadyzCheck = (\<lambda>mgr name w. (None, w)),
     managerStopped = (\<lambda>mgr w. (None, w))\<rparr>"

abbreviation demo_options :: options where
  "demo_options \<equiv> default_options\<lparr>metricsCertPath := ''/certs/'', latencySourceFlag := ''probe''\<rparr>"

lemma demo_paths: "filepath_Join ''/certs/'' ''tls.crt'' = ''/certs/tls.crt''" "filepath_Join ''/certs/'' ''tls.key'' = ''/certs/tls.key''"
  by code_simp+

theorem servers_secured_witness:
  "\<exists>mo s'. run_state (configure demo_manager demo_options) (demo_start demo_policy []) = (Some (Some 7, None, mo), s')
     \<and> NextProtos (apply_tls (metricsTLSOpts (mgrMetrics mo)) \<lparr>NextProtos = [''h2''], GetCertificate = None\<rparr>) = [''http/1.1'']
     \<and> GetCertificate (apply_tls (metricsTLSOpts (mgrMetrics mo)) \<lparr>NextProtos = [''h2''], GetCertificate = None\<rparr>) = Some 7"
proof -
  obtain mo s' where run: "run_state (configure demo_manager demo_options) (demo_start demo_policy []) = (Some (Some 7, None, mo), s')"
    by (simp add: configure_def webhook_options_def metrics_options_def default_options_def demo_manager_def demo_paths Let_def)
  from servers_secured [OF run, of "\<lparr>NextProtos = [''h2''], GetCertificate = None\<rparr>"] run show ?thesis
    by (simp add: default_options_def)
qed

subsection \<open>The process ends in one of two ways\<close>

lemma select_source_lawful:
  "select_source flag port http = Some src \<Longrightarrow> latency_source (sourceGetLatencies src)"
  using ebpf.latency_source_axioms probe.latency_source_axioms
  by (auto simp: select_source_def ebpf_Source_def probe_Source_def split: if_splits)

lemma evolves_keeps:
  assumes "evolves rec rec'"
  shows "recSource rec' = recSource rec" and "recClient rec' = recClient rec" and "recSlices rec' = recSlices rec"
proof -
  have "rec' = rec\<lparr>breakers := breakers rec', dampeners := dampeners rec'\<rparr>" using assms unfolding evolves_def by blast
  from arg_cong [OF this, of recSource] arg_cong [OF this, of recClient] arg_cong [OF this, of recSlices]
  show "recSource rec' = recSource rec" and "recClient rec' = recClient rec" and "recSlices rec' = recSlices rec" by simp_all
qed

text \<open>One request is served: others act, \<open>Reconcile\<close> returns, the rest is served by a reconciler with the same parts.\<close>

lemma serve_step:
  assumes "latency_source (sourceGetLatencies (recSource rec))" and "lists_sized (recClient rec)"
    and "run_state (serve_requests ((others, req) # reqs) rec) s = (out, s')"
  obtains rec1 s1 res err where
    "run_state (Reconcile rec req) (s\<lparr>outside := others (outside s)\<rparr>) = (Some (rec1, res, err), s1)"
    and "run_state (serve_requests reqs rec1) s1 = (out, s')" and "recSource rec1 = recSource rec"
    and "recClient rec1 = recClient rec" and "recSlices rec1 = recSlices rec"
proof -
  let ?s = "s\<lparr>outside := others (outside s)\<rparr>"
  obtain o1 s1 where run: "run_state (Reconcile rec req) ?s = (o1, s1)" by fastforce
  show ?thesis
  proof (rule Reconcile_outcome [OF assms(1) lists_sizedD [OF assms(2)] run], assumption)
    fix rec1 res err
    assume o1: "o1 = Some (rec1, res, err)" and ev: "evolves rec rec1"
    show ?thesis
      by (rule that [of rec1 res err s1]) (use run o1 assms(3) evolves_keeps [OF ev] in simp_all)
  qed
qed

lemma serve_requests_ok:
  assumes "latency_source (sourceGetLatencies (recSource rec))" and "lists_sized (recClient rec)"
    and "run_state (serve_requests reqs rec) s = (out, s')"
  shows "out \<noteq> None"
  using assms
proof (induction reqs arbitrary: rec s)
  case (Cons e reqs)
  obtain others req where e: "e = (others, req)" by fastforce
  show ?case
    by (rule serve_step [OF Cons.prems(1,2) Cons.prems(3) [unfolded e]]) (use Cons.IH Cons.prems(1,2) in metis)
qed auto

definition exits :: "('w world, exit_status) state \<Rightarrow> bool" where
  "exits m \<longleftrightarrow> (\<forall>s. fst (run_state m s) \<in> {Exited 0, Exited 1})"

named_theorems exits_intros \<open>introduction rules for code that ends with an exit status\<close>

lemma exits_ret [exits_intros]: "exits (ret (Exited 1))"
  by (simp add: exits_def)

lemma exits_bind [exits_intros]: "(\<And>a. exits (f a)) \<Longrightarrow> exits (State_Monad.bind m f)"
  by (simp add: exits_def case_prod_beta)

lemma exits_or_exit [exits_intros]: "exits rest \<Longrightarrow> exits (or_exit step rest)"
  by (auto simp: exits_def or_exit_def split: prod.split option.split)

lemma exits_run_manager:
  assumes "latency_source (sourceGetLatencies (recSource rec))" and "lists_sized (recClient rec)"
  shows "exits (run_manager lib mgr reqs rec)"
  unfolding exits_def
proof
  fix s
  obtain out s1 where run: "run_state (serve_requests reqs rec) s = (out, s1)" by fastforce
  with serve_requests_ok [OF assms run] show "fst (run_state (run_manager lib mgr reqs rec) s) \<in> {Exited 0, Exited 1}"
    by (auto simp: run_manager_def split: prod.split option.split)
qed

lemma start_reconciler_lawful:
  assumes "start_reconciler lib opts http k8s mgr = Some rec" and "lists_sized (managerClient lib mgr)"
  shows "latency_source (sourceGetLatencies (recSource rec))" and "lists_sized (recClient rec)"
  using assms select_source_lawful by (auto simp: start_reconciler_def NewReconciler_def)

lemma exits_controller_main:
  assumes "\<And>mgr. lists_sized (managerClient lib mgr)"
  shows "exits (controller_main lib http k8s opts reqs)"
proof -
  have started: "exits (case start_reconciler lib opts http k8s mgr of None \<Rightarrow> ret (Exited 1)
      | Some rec \<Rightarrow> or_exit (SetupWithManager lib mgr rec) (or_exit (add_watcher lib mgr mw) (or_exit (add_watcher lib mgr ww)
          (or_exit (call_out (addHealthzCheck lib mgr ''healthz'')) (or_exit (call_out (addReadyzCheck lib mgr ''readyz''))
            (run_manager lib mgr reqs rec))))))" for mgr mw ww
    using start_reconciler_lawful [OF _ assms]
    by (auto intro!: exits_intros exits_run_manager simp del: One_nat_def split: option.split)
  then show ?thesis unfolding controller_main_def
    by (auto intro!: exits_intros simp del: One_nat_def split: option.split sum.split prod.split)
qed

lemma unknown_source:
  assumes "latencySourceFlag opts \<notin> {''ebpf'', ''probe''}"
  shows "fst (run_state (controller_main lib http k8s opts reqs) s) = Exited 1"
    and "(\<And>cert key w. v (snd (newCertWatcher lib cert key w)) = v w) \<Longrightarrow> (\<And>mo w. v (snd (newManager lib mo w)) = v w)
      \<Longrightarrow> leaves v (controller_main lib http k8s opts reqs)"
proof -
  have none: "start_reconciler lib opts http k8s mgr = None" for mgr
    using assms by (simp add: start_reconciler_def select_source_def)
  show "fst (run_state (controller_main lib http k8s opts reqs) s) = Exited 1"
    by (simp add: controller_main_def none split: prod.split option.split sum.split)
  assume v: "\<And>cert key w. v (snd (newCertWatcher lib cert key w)) = v w" "\<And>mo w. v (snd (newManager lib mo w)) = v w"
  show "leaves v (controller_main lib http k8s opts reqs)"
    unfolding controller_main_def configure_def webhook_options_def metrics_options_def Let_def none option.case
    by (intro leaves_intros v)
qed

text \<open>
  (C37) The controller never panics, whatever its flags, whatever requests it serves in whatever order, and
  whatever the API, the pods and others do meanwhile: it exits with status 0 or 1. With a latency source
  it does not know it exits with status 1 and changes nothing but by creating the certificate watchers
  and the manager; in particular nothing is registered or served.
\<close>

theorem controller_exits:
  assumes "\<And>mgr. lists_sized (managerClient lib mgr)"
    and "run_state (controller_main lib http k8s opts reqs) s = (status, s')"
  shows "status \<in> {Exited 0, Exited 1}
    \<and> (latencySourceFlag opts \<notin> {''ebpf'', ''probe''} \<longrightarrow> status = Exited 1
       \<and> ((\<forall>cert key w. v (snd (newCertWatcher lib cert key w)) = v w) \<longrightarrow> (\<forall>mo w. v (snd (newManager lib mo w)) = v w)
          \<longrightarrow> v (outside s') = v (outside s)))"
proof -
  have "status \<in> {Exited 0, Exited 1}"
    using exits_controller_main [OF assms(1), of http k8s opts reqs] assms(2) unfolding exits_def by (metis fst_conv)
  moreover have "status = Exited 1" if "latencySourceFlag opts \<notin> {''ebpf'', ''probe''}"
    using unknown_source(1) [OF that, of lib http k8s reqs s] assms(2) by simp
  moreover have "v (outside s') = v (outside s)" if "latencySourceFlag opts \<notin> {''ebpf'', ''probe''}"
    "\<forall>cert key w. v (snd (newCertWatcher lib cert key w)) = v w" "\<forall>mo w. v (snd (newManager lib mo w)) = v w"
    by (rule leavesD [OF unknown_source(2) [OF that(1)] assms(2)]) (use that(2,3) in simp_all)
  ultimately show ?thesis by blast
qed

theorem controller_exits_witness:
  "(\<exists>status s'. run_state (controller_main demo_manager silent_agents demo_lib demo_options [(id, demo_key), (id, demo_key)])
       (demo_start demo_breaking []) = (status, s') \<and> status \<in> {Exited 0, Exited 1})
   \<and> (\<exists>s'. run_state (controller_main demo_manager silent_agents demo_lib (default_options\<lparr>latencySourceFlag := ''dns''\<rparr>) [(id, demo_key)])
       (demo_start demo_breaking []) = (Exited 1, s') \<and> slice_at (outside s') = slice_at (outside (demo_start demo_breaking [])))"
proof
  have sized: "lists_sized (managerClient demo_manager mgr)" for mgr by (simp add: demo_manager_def cluster_lists_sized)
  have calls: "\<forall>cert key w. slice_at (snd (newCertWatcher demo_manager cert key w)) = slice_at w"
    "\<forall>mo w. slice_at (snd (newManager demo_manager mo w)) = slice_at w" by (simp_all add: demo_manager_def)
  let ?run = "\<lambda>opts reqs. run_state (controller_main demo_manager silent_agents demo_lib opts reqs) (demo_start demo_breaking [])"
  obtain status s' where run: "?run demo_options [(id, demo_key), (id, demo_key)] = (status, s')" by fastforce
  from controller_exits [OF sized run] have "status \<in> {Exited 0, Exited 1}" by (rule conjunct1)
  with run show "\<exists>status s'. ?run demo_options [(id, demo_key), (id, demo_key)] = (status, s') \<and> status \<in> {Exited 0, Exited 1}"
    by blast
  let ?opts = "default_options\<lparr>latencySourceFlag := ''dns''\<rparr>"
  obtain status s' where run: "?run ?opts [(id, demo_key)] = (status, s')" by fastforce
  have "latencySourceFlag ?opts \<notin> {''ebpf'', ''probe''}" by simp
  with controller_exits [OF sized run, where v = slice_at] calls
  have "status = Exited 1" "slice_at (outside s') = slice_at (outside (demo_start demo_breaking []))" by blast+
  with run show "\<exists>s'. ?run ?opts [(id, demo_key)] = (Exited 1, s') \<and> slice_at (outside s') = slice_at (outside (demo_start demo_breaking []))"
    by blast
qed

subsection \<open>The watch on the slices\<close>

text \<open>
  The builder is told that the controller owns EndpointSlices. As documented for \<open>Owns\<close> in controller-runtime,
  an event on a slice asks for an evaluation of the owner that is marked as its controller: which requests
  an event on a slice causes is a parameter \<open>requests\<close> with that law.
\<close>

definition controlled :: "EndpointSlice \<Rightarrow> bool" where
  "controlled t \<longleftrightarrow> (\<exists>r\<in>set (sliceOwnerReferences t). ownerController r = Some True)"

definition controller_owners_only :: "(EndpointSlice \<Rightarrow> NamespacedName list) \<Rightarrow> bool" where
  "controller_owners_only requests \<longleftrightarrow> (\<forall>t. requests t \<noteq> [] \<longrightarrow> controlled t)"

definition uncontrolled_slices :: "(NamespacedName \<Rightarrow> EndpointSlice option) \<Rightarrow> bool" where
  "uncontrolled_slices m \<longleftrightarrow> (\<forall>k t. m k = Some t \<longrightarrow> \<not> controlled t)"

lemma routes_uncontrolled:
  assumes "uncontrolled_slices m" and "routes policy service eps (m (routed service)) t"
  shows "\<not> controlled t"
  using assms by (cases "m (routed service)") (auto simp: routes_def uncontrolled_slices_def controlled_def owner_reference_def)

lemma Reconcile_uncontrolled:
  assumes "slice_store (recSlices rec) slices" and "other_calls_leave slices (recClient rec)"
    and "\<And>ips. leaves slices (sourceGetLatencies (recSource rec) ips)"
    and "latency_source (sourceGetLatencies (recSource rec))" and "lists_sized (recClient rec)"
    and "run_state (Reconcile rec req) s = (out, s')" and "uncontrolled_slices (slices (outside s))"
  shows "uncontrolled_slices (slices (outside s'))"
proof (cases "slices (outside s') = slices (outside s)")
  case False
  from Reconcile_slices [OF assms(1-6) False] show ?thesis
  proof
    assume "\<exists>policy w. getPolicy (recClient rec) req (outside s) = (Inr policy, w) \<and> polDeletionTimestamp policy \<noteq> None
      \<and> slices (outside s') = (slices (outside s))(target_key policy := None)"
    with assms(7) show ?thesis by (auto simp: uncontrolled_slices_def split: if_splits)
  next
    assume "rerouted rec req (outside s) (slices (outside s)) (slices (outside s'))"
    then obtain policy service eps t where t: "slices (outside s') = (slices (outside s))(routed service \<mapsto> t)"
      "routes policy service eps (slices (outside s) (routed service)) t" unfolding rerouted_def by blast
    from routes_uncontrolled [OF assms(7) t(2)] assms(7) show ?thesis unfolding t(1) by (auto simp: uncontrolled_slices_def split: if_splits)
  qed
qed (use assms(7) in simp)

lemma serve_uncontrolled:
  assumes "slice_store (recSlices rec) slices" and "other_calls_leave slices (recClient rec)"
    and "\<And>ips. leaves slices (sourceGetLatencies (recSource rec) ips)"
    and "latency_source (sourceGetLatencies (recSource rec))" and "lists_sized (recClient rec)"
    and "\<forall>(others, req) \<in> set reqs. \<forall>w. uncontrolled_slices (slices w) \<longrightarrow> uncontrolled_slices (slices (others w))"
    and "run_state (serve_requests reqs rec) s = (out, s')" and "uncontrolled_slices (slices (outside s))"
  shows "uncontrolled_slices (slices (outside s'))"
  using assms
proof (induction reqs arbitrary: rec s)
  case (Cons e reqs)
  obtain others req where e: "e = (others, req)" by fastforce
  obtain rec1 s1 res err where
    one: "run_state (Reconcile rec req) (s\<lparr>outside := others (outside s)\<rparr>) = (Some (rec1, res, err), s1)"
    and rest: "run_state (serve_requests reqs rec1) s1 = (out, s')"
    and same: "recSource rec1 = recSource rec" "recClient rec1 = recClient rec" "recSlices rec1 = recSlices rec"
    by (rule serve_step [OF Cons.prems(4,5) Cons.prems(7) [unfolded e]])
  have before: "uncontrolled_slices (slices (outside (s\<lparr>outside := others (outside s)\<rparr>)))"
    using Cons.prems(6,8) unfolding e by simp
  have others: "\<forall>(others, req) \<in> set reqs. \<forall>w. uncontrolled_slices (slices w) \<longrightarrow> uncontrolled_slices (slices (others w))"
    using Cons.prems(6) by simp
  show ?case
    by (rule Cons.IH [of rec1, unfolded same, OF Cons.prems(1-5) others rest
          Reconcile_uncontrolled [OF Cons.prems(1-5) one before]])
qed simp

text \<open>
  (C40) The watch on the slices is idle. The slices the controller writes name the policy as an owner but not
  as their controller, and it never makes an owner the controller of a slice; so as long as nobody else
  does, no event on any slice asks for an evaluation, whatever requests are served: a slice that is
  deleted or changed by others stays so until the policy is next evaluated for another reason.
\<close>

theorem slice_events_ignored:
  assumes "slice_store (recSlices rec) slices" and "other_calls_leave slices (recClient rec)"
    and "\<And>ips. leaves slices (sourceGetLatencies (recSource rec) ips)"
    and "latency_source (sourceGetLatencies (recSource rec))" and "lists_sized (recClient rec)"
    and "\<forall>(others, req) \<in> set reqs. \<forall>w. uncontrolled_slices (slices w) \<longrightarrow> uncontrolled_slices (slices (others w))"
    and "run_state (serve_requests reqs rec) s = (out, s')" and "uncontrolled_slices (slices (outside s))"
    and "controller_owners_only requests" and "slices (outside s') k = Some t"
  shows "requests t = []"
  using serve_uncontrolled [OF assms(1-8)] assms(9,10) unfolding uncontrolled_slices_def controller_owners_only_def by blast

abbreviation demo_requests :: "EndpointSlice \<Rightarrow> NamespacedName list" where
  "demo_requests t \<equiv> map (\<lambda>r. \<lparr>nnNamespace = sliceNamespace t, nnName = ownerName r\<rparr>)
     (filter (\<lambda>r. ownerController r = Some True) (sliceOwnerReferences t))"

theorem slice_events_ignored_witness:
  "\<exists>out s' t. run_state (serve_requests [(id, demo_key)] demo_reconciler) (demo_start demo_policy []) = (out, s')
     \<and> slice_at (outside s') (routed demo_service) = Some t \<and> demo_requests t = []"
proof -
  let ?run = "run_state (serve_requests [(id, demo_key)] demo_reconciler) (demo_start demo_policy [])"
  obtain out s' where run: "?run = (out, s')" by fastforce
  have "slice_at (outside (snd ?run)) (routed demo_service) \<noteq> None" by code_simp
  with run obtain t where t: "slice_at (outside s') (routed demo_service) = Some t" by auto
  have "demo_requests t = []"
  proof (rule slice_events_ignored [of demo_reconciler slice_at, unfolded demo_reconciler_simps, OF demo_contracts(1,2,4,3)
        cluster_lists_sized _ run])
    show "uncontrolled_slices (slice_at (outside (demo_start demo_policy [])))"
      by (simp add: uncontrolled_slices_def demo_unwritten)
    show "controller_owners_only demo_requests" by (simp add: controller_owners_only_def controlled_def filter_empty_conv)
  qed (use t in simp_all)
  with run t show ?thesis by blast
qed

end
