(* ===== verification/Default_Controller.thy ===== *)
theory Default_Controller
  imports Controller_Main
begin

section \<open>The controller with its default flags\<close>

text \<open>
  By default the controller takes its latencies from the agents (\<open>--latency-source=ebpf\<close>). It creates that source without
  the addresses of any agents, and nothing it does afterwards sets them, so every poll fails. This theory follows the
  consequence through the whole process.
\<close>

text \<open>Nothing but the registered controller changes the view \<open>v\<close>: not the manager, not what is registered with it.\<close>

definition manager_leaves :: "('w \<Rightarrow> 'v) \<Rightarrow> 'w manager_lib \<Rightarrow> bool" where
  "manager_leaves v lib \<longleftrightarrow> (\<forall>cert key w. v (snd (newCertWatcher lib cert key w)) = v w) \<and> (\<forall>mo w. v (snd (newManager lib mo w)) = v w)
     \<and> (\<forall>mgr ws rec w. v (snd (completeController lib mgr ws rec w)) = v w) \<and> (\<forall>mgr r w. v (snd (addRunnable lib mgr r w)) = v w)
     \<and> (\<forall>mgr n w. v (snd (addHealthzCheck lib mgr n w)) = v w) \<and> (\<forall>mgr n w. v (snd (addReadyzCheck lib mgr n w)) = v w)
     \<and> (\<forall>mgr w. v (snd (managerStopped lib mgr w)) = v w)"

text \<open>Running \<open>m\<close> keeps the property \<open>P\<close> of the view.\<close>

definition preserves :: "('w \<Rightarrow> 'v) \<Rightarrow> ('v \<Rightarrow> bool) \<Rightarrow> ('w world, 'a) state \<Rightarrow> bool" where
  "preserves v P m \<longleftrightarrow> (\<forall>s. P (v (outside s)) \<longrightarrow> P (v (outside (snd (run_state m s)))))"

named_theorems preserves_intros \<open>introduction rules for code that keeps a property of the world\<close>

lemma preserves_leaves: "leaves v m \<Longrightarrow> preserves v P m"
  by (simp add: leaves_def preserves_def)

lemma preserves_ret [preserves_intros]: "preserves v P (ret a)"
  by (simp add: preserves_def)

lemma preserves_bind [preserves_intros]:
  "preserves v P m \<Longrightarrow> (\<And>a. preserves v P (f a)) \<Longrightarrow> preserves v P (State_Monad.bind m f)"
  by (simp add: preserves_def case_prod_beta)

lemma preserves_call_out [preserves_intros]: "(\<And>w. v (snd (f w)) = v w) \<Longrightarrow> preserves v P (call_out f)"
  by (simp add: preserves_def)

lemma preserves_or_exit [preserves_intros]: "preserves v P step \<Longrightarrow> preserves v P rest \<Longrightarrow> preserves v P (or_exit step rest)"
  unfolding or_exit_def by (intro preserves_intros) (simp_all add: preserves_ret split: option.split)

subsection \<open>One request after the other\<close>

lemma Reconcile_fresh:
  assumes "slice_store (recSlices rec) slices" and "other_calls_leave slices (recClient rec)"
    and "recSource rec = ebpf_Source (NewEBPFSource http)" and "\<And>m k. P m \<Longrightarrow> P (m(k := None))"
    and "run_state (Reconcile rec req) s = (out, s')" and "P (slices (outside s))"
  shows "P (slices (outside s'))"
proof (cases "\<exists>policy w. getPolicy (recClient rec) req (outside s) = (Inr policy, w) \<and> polDeletionTimestamp policy = None")
  case True
  with fresh_ebpf_leaves [OF assms(2,3) _ _ assms(5)] assms(6) show ?thesis by metis
next
  case False
  show ?thesis
  proof (cases rule: Reconcile_cases [OF assms(5)])
    case (1 e w1)
    with other_callsD(1) [OF assms(2) 1(1)] assms(6) show ?thesis by simp
  next
    case (2 policy w1 x)
    obtain rec' res err where x: "x = (rec', res, err)" by (cases x) auto
    have "slices w1 = slices (outside s)" by (rule other_callsD(1) [OF assms(2) 2(1)])
    with handleDeletion_slices [OF assms(1,2) 2(3) [unfolded x]] assms(4,6) show ?thesis by auto
  qed (use False in blast)+
qed

lemma serve_fresh:
  assumes "slice_store (recSlices rec) slices" and "other_calls_leave slices (recClient rec)" and "lists_sized (recClient rec)"
    and "recSource rec = ebpf_Source (NewEBPFSource http)" and "\<And>m k. P m \<Longrightarrow> P (m(k := None))"
    and "\<forall>(others, req) \<in> set reqs. \<forall>w. P (slices w) \<longrightarrow> P (slices (others w))"
    and "run_state (serve_requests reqs rec) s = (out, s')" and "P (slices (outside s))"
  shows "P (slices (outside s'))"
  using assms
proof (induction reqs arbitrary: rec s)
  case (Cons e reqs)
  obtain others req where e: "e = (others, req)" by fastforce
  have lawful: "latency_source (sourceGetLatencies (recSource rec))"
    using Cons.prems(4) ebpf.latency_source_axioms by (simp add: ebpf_Source_def)
  obtain rec1 s1 res err where
    one: "run_state (Reconcile rec req) (s\<lparr>outside := others (outside s)\<rparr>) = (Some (rec1, res, err), s1)"
    and rest: "run_state (serve_requests reqs rec1) s1 = (out, s')"
    and same: "recSource rec1 = recSource rec" "recClient rec1 = recClient rec" "recSlices rec1 = recSlices rec"
    by (rule serve_step [OF lawful Cons.prems(3) Cons.prems(7) [unfolded e]])
  have "P (slices (outside (s\<lparr>outside := others (outside s)\<rparr>)))" using Cons.prems(6,8) unfolding e by simp
  from Reconcile_fresh [OF Cons.prems(1,2,4,5) one this] Cons.IH [of rec1, unfolded same, OF Cons.prems(1-5) _ rest] Cons.prems(6)
  show ?case by simp
qed simp

lemma preserves_run_manager:
  assumes "slice_store (recSlices rec) slices" and "other_calls_leave slices (recClient rec)" and "lists_sized (recClient rec)"
    and "recSource rec = ebpf_Source (NewEBPFSource http)" and "\<And>m k. P m \<Longrightarrow> P (m(k := None))"
    and "\<forall>(others, req) \<in> set reqs. \<forall>w. P (slices w) \<longrightarrow> P (slices (others w))" and "manager_leaves slices lib"
  shows "preserves slices P (run_manager lib mgr reqs rec)"
proof -
  have "preserves slices P (serve_requests reqs rec)"
    unfolding preserves_def using serve_fresh [OF assms(1-6)] by (metis prod.collapse)
  then show ?thesis
    unfolding run_manager_def using assms(7)
    by (auto intro!: preserves_intros simp: manager_leaves_def split: option.split)
qed

subsection \<open>The property\<close>

text \<open>
  (C21) With the default latency source the controller never routes any traffic. Whatever its other flags, whatever
  requests it serves, and whatever the API, the agents and the pods do: from its start to its exit it writes
  no slice; all it does to the slices is to remove some. So each property of the slices that removals and the actions of
  others keep, holds at the end if it held at the beginning.
\<close>

theorem default_controller_never_routes:
  assumes "latencySourceFlag opts = latencySourceFlag default_options"
    and "\<And>mgr. slice_store (managerClient lib mgr) slices" and "\<And>mgr. other_calls_leave slices (managerClient lib mgr)"
    and "\<And>mgr. lists_sized (managerClient lib mgr)" and "manager_leaves slices lib"
    and "\<And>m k. P m \<Longrightarrow> P (m(k := None))"
    and "\<forall>(others, req) \<in> set reqs. \<forall>w. P (slices w) \<longrightarrow> P (slices (others w))"
    and "run_state (controller_main lib http k8s opts reqs) s = (status, s')" and "P (slices (outside s))"
  shows "P (slices (outside s'))"
proof -
  have flag: "latencySourceFlag opts = ''ebpf''" using assms(1) by (simp add: default_options_def)
  have start: "start_reconciler lib opts http k8s mgr
      = Some (NewReconciler (managerClient lib mgr) k8s (ebpf_Source (NewEBPFSource http)) (managerClient lib mgr))" for mgr
    by (simp add: start_reconciler_def select_source_def flag)
  have manage: "preserves slices P (run_manager lib mgr reqs
      (NewReconciler (managerClient lib mgr) k8s (ebpf_Source (NewEBPFSource http)) (managerClient lib mgr)))" for mgr
    by (rule preserves_run_manager [where http = http]) (simp_all add: NewReconciler_def assms(2-7))
  have "leaves slices (configure lib opts)"
    unfolding configure_def webhook_options_def metrics_options_def Let_def
    by (intro leaves_intros) (use assms(5) in \<open>simp_all add: manager_leaves_def\<close>)
  then have conf: "preserves slices P (configure lib opts)" by (rule preserves_leaves)
  have "preserves slices P (controller_main lib http k8s opts reqs)"
    unfolding controller_main_def start option.case SetupWithManager_def add_watcher_def using assms(5)
    by (auto intro!: preserves_intros conf manage simp: manager_leaves_def split: option.split sum.split prod.split)
  with assms(8,9) show ?thesis unfolding preserves_def by (metis snd_conv)
qed

text \<open>The demo cluster has no slices to begin with, and has none after the demo policy was evaluated twice.\<close>

theorem default_controller_never_routes_witness:
  "\<exists>status s'. run_state (controller_main demo_manager silent_agents demo_lib default_options [(id, demo_key), (id, demo_key)])
     (demo_start demo_policy []) = (status, s') \<and> (\<forall>k. slice_at (outside s') k = None)"
proof -
  obtain status s' where run: "run_state (controller_main demo_manager silent_agents demo_lib default_options [(id, demo_key), (id, demo_key)])
     (demo_start demo_policy []) = (status, s')" by fastforce
  have client: "managerClient demo_manager mgr = cluster_client" for mgr by (simp add: demo_manager_def)
  have "\<forall>k. slice_at (outside s') k = None"
  proof (rule default_controller_never_routes [where lib = demo_manager and slices = slice_at and P = "\<lambda>m. \<forall>k. m k = None", unfolded client,
        OF refl demo_contracts(1,2) cluster_lists_sized _ _ _ run])
    show "manager_leaves slice_at demo_manager" by (simp add: manager_leaves_def demo_manager_def)
  qed (simp_all add: demo_unwritten)
  with run show ?thesis by blast
qed

end
