(* ===== verification/Deep_Copy.thy ===== *)
theory Deep_Copy
  imports Api_Types
begin

section \<open>Deep copies of the API objects\<close>

text \<open>
  \<open>api/v1alpha1/zz_generated.deepcopy.go\<close>. The other theories treat API objects as values; in Go their optional
  fields are pointers and their lists slices, so two objects may share memory. Here they are: a memory of
  cells, structs that hold addresses, and the copies step by step. A copy has the value of the original
  and shares nothing with it, which is what makes treating the objects as values right.
\<close>

subsection \<open>The structs\<close>

type_synonym addr = nat

text \<open>A slice is nil or an array with a length, which may be less than the array's.\<close>

type_synonym slice = "(addr \<times> nat) option"

record SelectionPolicy_mem =
  memMode :: SelectionMode
  memTopN :: "addr option"
  memPercentage :: "addr option"

record AviatorPolicySpec_mem =
  memTargetRef :: TargetRef
  memLatencyThreshold :: duration
  memEvaluationInterval :: duration
  memSelection :: SelectionPolicy_mem
  memCircuitBreaker :: "addr option"
  memDampening :: "addr option"
  memLatencySource :: LatencySourceType
  memTargetPort :: "addr option"

record AviatorPolicyStatus_mem =
  memLastEvaluationTime :: time
  memActivePods :: int32
  memTotalPods :: int32
  memAverageLatencyMs :: int64
  memP99LatencyMs :: int64
  memCircuitBrokenPods :: slice
  memPodLatencies :: slice
  memConditions :: slice

record 'm AviatorPolicy_mem =
  memTypeMeta :: "string \<times> string"
  memObjectMeta :: 'm
  memSpec :: AviatorPolicySpec_mem
  memStatus :: AviatorPolicyStatus_mem

record 'l AviatorPolicyList_mem =
  memListTypeMeta :: "string \<times> string"
  memListMeta :: 'l
  memItems :: slice

subsection \<open>Memory\<close>

text \<open>The cells the objects point to; \<open>MetaCell\<close> is what the metadata of the API library points to.\<close>

datatype ('m, 'x) cell = IntCell int32 | BreakerCell CircuitBreakerSpec | DampeningCell DampeningSpec
  | StringsCell "string list" | RowsCell "PodLatencyInfo list" | ConditionsCell "Condition list"
  | ItemsCell "'m AviatorPolicy_mem list" | MetaCell 'x

type_synonym ('m, 'x) memory = "('m, 'x) cell list"

fun int_cell :: "('m, 'x) cell \<Rightarrow> int32 option" where
  "int_cell (IntCell n) = Some n" | "int_cell _ = None"

fun breaker_cell :: "('m, 'x) cell \<Rightarrow> CircuitBreakerSpec option" where
  "breaker_cell (BreakerCell b) = Some b" | "breaker_cell _ = None"

fun dampening_cell :: "('m, 'x) cell \<Rightarrow> DampeningSpec option" where
  "dampening_cell (DampeningCell d) = Some d" | "dampening_cell _ = None"

fun strings_cell :: "('m, 'x) cell \<Rightarrow> string list option" where
  "strings_cell (StringsCell xs) = Some xs" | "strings_cell _ = None"

fun rows_cell :: "('m, 'x) cell \<Rightarrow> PodLatencyInfo list option" where
  "rows_cell (RowsCell xs) = Some xs" | "rows_cell _ = None"

fun conditions_cell :: "('m, 'x) cell \<Rightarrow> Condition list option" where
  "conditions_cell (ConditionsCell xs) = Some xs" | "conditions_cell _ = None"

fun items_cell :: "('m, 'x) cell \<Rightarrow> 'm AviatorPolicy_mem list option" where
  "items_cell (ItemsCell xs) = Some xs" | "items_cell _ = None"

fun first_elements :: "nat \<Rightarrow> ('m, 'x) cell \<Rightarrow> ('m, 'x) cell" where
  "first_elements n (StringsCell xs) = StringsCell (take n xs)"
| "first_elements n (RowsCell xs) = RowsCell (take n xs)"
| "first_elements n (ConditionsCell xs) = ConditionsCell (take n xs)"
| "first_elements n c = c"

text \<open>\<open>*out = new(T); **out = **in\<close> unless the pointer is nil, and \<open>make\<close> with \<open>copy\<close> unless the slice is.\<close>

definition copy_pointer :: "addr option \<Rightarrow> ('m, 'x) memory \<Rightarrow> addr option \<times> ('m, 'x) memory" where
  "copy_pointer p m = (case p of None \<Rightarrow> (None, m) | Some a \<Rightarrow> (Some (length m), m @ [m ! a]))"

definition copy_slice :: "slice \<Rightarrow> ('m, 'x) memory \<Rightarrow> slice \<times> ('m, 'x) memory" where
  "copy_slice s m = (case s of None \<Rightarrow> (None, m)
     | Some (a, n) \<Rightarrow> (Some (length m, n), m @ [first_elements n (m ! a)]))"

subsection \<open>The copies\<close>

definition SelectionPolicy_DeepCopyInto :: "SelectionPolicy_mem \<Rightarrow> ('m, 'x) memory \<Rightarrow> SelectionPolicy_mem \<times> ('m, 'x) memory" where
  "SelectionPolicy_DeepCopyInto s m =
     (let out = s;
          (p, m) = copy_pointer (memTopN s) m; out = out\<lparr>memTopN := p\<rparr>;
          (p, m) = copy_pointer (memPercentage s) m; out = out\<lparr>memPercentage := p\<rparr>
      in (out, m))"

definition AviatorPolicySpec_DeepCopyInto :: "AviatorPolicySpec_mem \<Rightarrow> ('m, 'x) memory \<Rightarrow> AviatorPolicySpec_mem \<times> ('m, 'x) memory" where
  "AviatorPolicySpec_DeepCopyInto s m =
     (let out = s;
          out = out\<lparr>memTargetRef := memTargetRef s, memLatencyThreshold := memLatencyThreshold s,
            memEvaluationInterval := memEvaluationInterval s\<rparr>;
          (sel, m) = SelectionPolicy_DeepCopyInto (memSelection s) m; out = out\<lparr>memSelection := sel\<rparr>;
          (p, m) = copy_pointer (memCircuitBreaker s) m; out = out\<lparr>memCircuitBreaker := p\<rparr>;
          (p, m) = copy_pointer (memDampening s) m; out = out\<lparr>memDampening := p\<rparr>;
          (p, m) = copy_pointer (memTargetPort s) m; out = out\<lparr>memTargetPort := p\<rparr>
      in (out, m))"

text \<open>The copies of a \<open>metav1.Time\<close> and of a \<open>metav1.Condition\<close> copy the struct, which holds no pointer to share.\<close>

definition AviatorPolicyStatus_DeepCopyInto ::
  "AviatorPolicyStatus_mem \<Rightarrow> ('m, 'x) memory \<Rightarrow> AviatorPolicyStatus_mem \<times> ('m, 'x) memory" where
  "AviatorPolicyStatus_DeepCopyInto s m =
     (let out = s;
          out = out\<lparr>memLastEvaluationTime := memLastEvaluationTime s\<rparr>;
          (p, m) = copy_slice (memCircuitBrokenPods s) m; out = out\<lparr>memCircuitBrokenPods := p\<rparr>;
          (p, m) = copy_slice (memPodLatencies s) m; out = out\<lparr>memPodLatencies := p\<rparr>;
          (p, m) = copy_slice (memConditions s) m; out = out\<lparr>memConditions := p\<rparr>
      in (out, m))"

text \<open>The copy of the metadata belongs to the API library: a parameter.\<close>

definition AviatorPolicy_DeepCopyInto ::
  "('m \<Rightarrow> ('m, 'x) memory \<Rightarrow> 'm \<times> ('m, 'x) memory) \<Rightarrow> 'm AviatorPolicy_mem \<Rightarrow> ('m, 'x) memory \<Rightarrow> 'm AviatorPolicy_mem \<times> ('m, 'x) memory" where
  "AviatorPolicy_DeepCopyInto copy_meta s m =
     (let out = s;
          out = out\<lparr>memTypeMeta := memTypeMeta s\<rparr>;
          (meta, m) = copy_meta (memObjectMeta s) m; out = out\<lparr>memObjectMeta := meta\<rparr>;
          (spec, m) = AviatorPolicySpec_DeepCopyInto (memSpec s) m; out = out\<lparr>memSpec := spec\<rparr>;
          (status, m) = AviatorPolicyStatus_DeepCopyInto (memStatus s) m; out = out\<lparr>memStatus := status\<rparr>
      in (out, m))"

text \<open>The structs without pointers are copied by assignment.\<close>

definition TargetRef_DeepCopyInto :: "TargetRef \<Rightarrow> ('m, 'x) memory \<Rightarrow> TargetRef \<times> ('m, 'x) memory" where
  "TargetRef_DeepCopyInto s m = (s, m)"

definition CircuitBreakerSpec_DeepCopyInto ::
  "CircuitBreakerSpec \<Rightarrow> ('m, 'x) memory \<Rightarrow> CircuitBreakerSpec \<times> ('m, 'x) memory" where
  "CircuitBreakerSpec_DeepCopyInto s m = (s, m)"

definition DampeningSpec_DeepCopyInto :: "DampeningSpec \<Rightarrow> ('m, 'x) memory \<Rightarrow> DampeningSpec \<times> ('m, 'x) memory" where
  "DampeningSpec_DeepCopyInto s m = (s, m)"

definition PodLatencyInfo_DeepCopyInto :: "PodLatencyInfo \<Rightarrow> ('m, 'x) memory \<Rightarrow> PodLatencyInfo \<times> ('m, 'x) memory" where
  "PodLatencyInfo_DeepCopyInto s m = (s, m)"

text \<open>
  \<open>DeepCopy\<close> of a pointer: nil, or a new struct that is copied into. A pointer to a struct of its own is the
  optional struct. \<open>DeepCopyObject\<close> keeps a nil pointer a nil interface.
\<close>

definition new_copy :: "('a \<Rightarrow> ('m, 'x) memory \<Rightarrow> 'a \<times> ('m, 'x) memory)
    \<Rightarrow> 'a option \<Rightarrow> ('m, 'x) memory \<Rightarrow> 'a option \<times> ('m, 'x) memory" where
  "new_copy copy_into p m = (case p of None \<Rightarrow> (None, m)
     | Some s \<Rightarrow> (case copy_into s m of (out, m') \<Rightarrow> (Some out, m')))"

definition TargetRef_DeepCopy where
  "TargetRef_DeepCopy = new_copy TargetRef_DeepCopyInto"

definition SelectionPolicy_DeepCopy where
  "SelectionPolicy_DeepCopy = new_copy SelectionPolicy_DeepCopyInto"

definition CircuitBreakerSpec_DeepCopy where
  "CircuitBreakerSpec_DeepCopy = new_copy CircuitBreakerSpec_DeepCopyInto"

definition DampeningSpec_DeepCopy where
  "DampeningSpec_DeepCopy = new_copy DampeningSpec_DeepCopyInto"

definition PodLatencyInfo_DeepCopy where
  "PodLatencyInfo_DeepCopy = new_copy PodLatencyInfo_DeepCopyInto"

definition AviatorPolicySpec_DeepCopy where
  "AviatorPolicySpec_DeepCopy = new_copy AviatorPolicySpec_DeepCopyInto"

definition AviatorPolicyStatus_DeepCopy where
  "AviatorPolicyStatus_DeepCopy = new_copy AviatorPolicyStatus_DeepCopyInto"

definition AviatorPolicy_DeepCopy where
  "AviatorPolicy_DeepCopy copy_meta = new_copy (AviatorPolicy_DeepCopyInto copy_meta)"

definition AviatorPolicy_DeepCopyObject where
  "AviatorPolicy_DeepCopyObject copy_meta p m = (case AviatorPolicy_DeepCopy copy_meta p m of
     (None, m') \<Rightarrow> (None, m') | (Some c, m') \<Rightarrow> (Some c, m'))"

subsection \<open>The contract of a deep copy\<close>

text \<open>
  \<open>view m x\<close> is the value of \<open>x\<close> in the memory \<open>m\<close>, if all it points to is there; \<open>reach m x\<close> the addresses it
  rests on. A deep copy has the value of the original and only adds to the memory, and the copy rests
  on what was added.
\<close>

locale deep_copy =
  fixes copy :: "'a \<Rightarrow> ('m, 'x) memory \<Rightarrow> 'a \<times> ('m, 'x) memory"
    and view :: "('m, 'x) memory \<Rightarrow> 'a \<Rightarrow> 'v option"
    and reach :: "('m, 'x) memory \<Rightarrow> 'a \<Rightarrow> addr set"
  assumes copies_value: "view m x = Some v \<Longrightarrow> copy x m = (y, m') \<Longrightarrow> view m' y = Some v"
    and extends: "view m x = Some v \<Longrightarrow> copy x m = (y, m') \<Longrightarrow> \<exists>k. m' = m @ k"
    and fresh: "view m x = Some v \<Longrightarrow> copy x m = (y, m') \<Longrightarrow> reach m' y \<subseteq> {length m..<length m'}"
    and allocated: "view m x = Some v \<Longrightarrow> reach m x \<subseteq> {..<length m}"
    and depends: "view m x = Some v \<Longrightarrow> \<forall>a\<in>reach m x. a < length m' \<and> m' ! a = m ! a \<Longrightarrow>
      view m' x = Some v \<and> reach m' x = reach m x"
begin

lemma kept: "view m x = Some v \<Longrightarrow> view (m @ k) x = Some v \<and> reach (m @ k) x = reach m x"
  using allocated [of m x v] by (intro depends) (auto simp: nth_append)

text \<open>A write through one of the two is not seen through the other.\<close>

lemma original_unaffected:
  assumes "view m x = Some v" and "copy x m = (y, m')" and "a \<in> reach m' y"
  shows "view (m'[a := c]) x = Some v"
proof -
  obtain k where k: "m' = m @ k" using extends [OF assms(1,2)] by blast
  have "length m \<le> a" using fresh [OF assms(1,2)] assms(3) by auto
  then show ?thesis
    using allocated [OF assms(1)] unfolding k by (intro conjunct1 [OF depends [OF assms(1)]]) (auto simp: nth_append)
qed

lemma copy_unaffected:
  assumes "view m x = Some v" and "copy x m = (y, m')" and "a \<in> reach m x"
  shows "view (m'[a := c]) y = Some v"
proof -
  have "a < length m" using allocated [OF assms(1)] assms(3) by auto
  then show ?thesis
    using fresh [OF assms(1,2)] by (intro conjunct1 [OF depends [OF copies_value [OF assms(1,2)]]]) (force simp: nth_list_update)
qed

end

subsection \<open>How deep copies are put together\<close>

text \<open>Two in sequence.\<close>

definition copy_both where
  "copy_both c1 c2 = (\<lambda>(x, y) m. case c1 x m of (x', m1) \<Rightarrow> (case c2 y m1 of (y', m2) \<Rightarrow> ((x', y'), m2)))"

definition view_both where
  "view_both v1 v2 = (\<lambda>m (x, y). case v1 m x of None \<Rightarrow> None | Some a \<Rightarrow> map_option (Pair a) (v2 m y))"

definition reach_both where
  "reach_both r1 r2 = (\<lambda>m (x, y). r1 m x \<union> r2 m y)"

lemma deep_copy_both:
  assumes "deep_copy c1 v1 r1" and "deep_copy c2 v2 r2"
  shows "deep_copy (copy_both c1 c2) (view_both v1 v2) (reach_both r1 r2)"
proof
  fix m x y v m'
  assume v: "view_both v1 v2 m x = Some v"
  obtain x1 x2 a1 a2 where x: "x = (x1, x2)" and a: "v1 m x1 = Some a1" "v2 m x2 = Some a2" "v = (a1, a2)"
    using v by (cases x) (auto simp: view_both_def split: option.splits)
  show "reach_both r1 r2 m x \<subseteq> {..<length m}"
    using deep_copy.allocated [OF assms(1) a(1)] deep_copy.allocated [OF assms(2) a(2)] x by (simp add: reach_both_def)
  show "view_both v1 v2 m' x = Some v \<and> reach_both r1 r2 m' x = reach_both r1 r2 m x"
    if "\<forall>a\<in>reach_both r1 r2 m x. a < length m' \<and> m' ! a = m ! a"
    using that deep_copy.depends [OF assms(1) a(1), of m'] deep_copy.depends [OF assms(2) a(2), of m'] a(3) x
    by (simp add: reach_both_def view_both_def)
  assume "copy_both c1 c2 x m = (y, m')"
  then obtain y1 m1 y2 where c: "c1 x1 m = (y1, m1)" "c2 x2 m1 = (y2, m')" and y: "y = (y1, y2)"
    using x by (auto simp: copy_both_def split: prod.splits)
  obtain k1 where k1: "m1 = m @ k1" using deep_copy.extends [OF assms(1) a(1) c(1)] by blast
  have a2: "v2 m1 x2 = Some a2" using deep_copy.kept [OF assms(2) a(2)] k1 by blast
  obtain k2 where k2: "m' = m1 @ k2" using deep_copy.extends [OF assms(2) a2 c(2)] by blast
  have first: "v1 m1 y1 = Some a1" "reach_both r1 r2 m' y = r1 m1 y1 \<union> r2 m' y2" "v1 m' y1 = Some a1"
    using deep_copy.copies_value [OF assms(1) a(1) c(1)] deep_copy.kept [OF assms(1), of m1 y1 a1 k2] k2 y
    by (auto simp: reach_both_def)
  show "view_both v1 v2 m' y = Some v"
    using first(3) deep_copy.copies_value [OF assms(2) a2 c(2)] y a(3) by (simp add: view_both_def)
  show "\<exists>k. m' = m @ k" using k1 k2 by simp
  have "length m \<le> length m1" "length m1 \<le> length m'" using k1 k2 by simp_all
  then have "{length m..<length m1} \<subseteq> {length m..<length m'}" "{length m1..<length m'} \<subseteq> {length m..<length m'}" by auto
  with deep_copy.fresh [OF assms(1) a(1) c(1)] deep_copy.fresh [OF assms(2) a2 c(2)]
  show "reach_both r1 r2 m' y \<subseteq> {length m..<length m'}" unfolding first(2) by blast
qed

text \<open>The fields \<open>get s\<close> of a struct; the rest of it is copied with the struct.\<close>

definition copy_fields where
  "copy_fields get put c = (\<lambda>s m. case c (get s) m of (p, m') \<Rightarrow> (put s p, m'))"

definition view_fields where
  "view_fields get mk v = (\<lambda>m s. map_option (mk s) (v m (get s)))"

lemma deep_copy_fields:
  assumes "deep_copy c v r" and "\<And>s p. get (put s p) = p" and "\<And>s p. mk (put s p) = mk s"
  shows "deep_copy (copy_fields get put c) (view_fields get mk v) (\<lambda>m s. r m (get s))"
  by unfold_locales
    (auto simp: copy_fields_def view_fields_def assms(2,3) split: prod.splits
      dest: deep_copy.copies_value [OF assms(1)] deep_copy.extends [OF assms(1)] deep_copy.fresh [OF assms(1), THEN subsetD]
        deep_copy.allocated [OF assms(1), THEN subsetD] deep_copy.depends [OF assms(1)])

text \<open>A pointer to a struct of its own.\<close>

definition view_new where
  "view_new v = (\<lambda>m p. case p of None \<Rightarrow> Some None | Some x \<Rightarrow> map_option Some (v m x))"

definition reach_new where
  "reach_new r = (\<lambda>m p. case p of None \<Rightarrow> {} | Some x \<Rightarrow> r m x)"

lemma view_new_None: "view_new v m None = Some None"
  by (simp add: view_new_def)

lemma view_new_Some: "view_new v m (Some x) = Some y \<longleftrightarrow> (\<exists>a. v m x = Some a \<and> y = Some a)"
  by (auto simp: view_new_def)

lemma new_copy_cases:
  assumes "new_copy c x m = (y, m')"
  obtains "x = None" and "y = None" and "m' = m" | x1 y1 where "x = Some x1" and "y = Some y1" and "c x1 m = (y1, m')"
  using assms by (cases x) (auto simp: new_copy_def split: prod.splits)

lemma deep_copy_new:
  assumes "deep_copy c v r"
  shows "deep_copy (new_copy c) (view_new v) (reach_new r)"
proof
  fix m x y m' z
  assume z: "view_new v m x = Some z" and run: "new_copy c x m = (y, m')"
  from run show "view_new v m' y = Some z" "\<exists>k. m' = m @ k" "reach_new r m' y \<subseteq> {length m..<length m'}"
  proof (atomize (full), cases rule: new_copy_cases)
    case (2 x1 y1)
    with z obtain a where "v m x1 = Some a" "z = Some a" by (auto simp: view_new_Some)
    with 2 deep_copy.copies_value [OF assms _ 2(3)] deep_copy.extends [OF assms _ 2(3)] deep_copy.fresh [OF assms _ 2(3)]
    show "view_new v m' y = Some z \<and> (\<exists>k. m' = m @ k) \<and> reach_new r m' y \<subseteq> {length m..<length m'}"
      by (simp add: view_new_Some reach_new_def)
  qed (use z in \<open>simp add: view_new_None reach_new_def\<close>)
next
  fix m x z
  assume z: "view_new v m x = Some z"
  show "reach_new r m x \<subseteq> {..<length m}"
  proof (cases x)
    case (Some x1)
    with z obtain a where "v m x1 = Some a" by (auto simp: view_new_Some)
    from deep_copy.allocated [OF assms this] Some show ?thesis by (simp add: reach_new_def)
  qed (simp add: reach_new_def)
  show "view_new v m' x = Some z \<and> reach_new r m' x = reach_new r m x"
    if "\<forall>a\<in>reach_new r m x. a < length m' \<and> m' ! a = m ! a" for m'
  proof (cases x)
    case (Some x1)
    with z obtain a where a: "v m x1 = Some a" "z = Some a" by (auto simp: view_new_Some)
    have "\<forall>a\<in>r m x1. a < length m' \<and> m' ! a = m ! a" using that unfolding Some reach_new_def by simp
    from deep_copy.depends [OF assms a(1) this] Some a(2) show ?thesis by (simp add: view_new_Some reach_new_def)
  qed (use z in \<open>simp add: view_new_None reach_new_def\<close>)
qed

text \<open>A pointer to a cell of the kind \<open>proj\<close> reads, and a slice of such a cell. A nil slice is not an empty one.\<close>

definition view_pointer :: "(('m, 'x) cell \<Rightarrow> 'v option) \<Rightarrow> ('m, 'x) memory \<Rightarrow> addr option \<Rightarrow> 'v option option" where
  "view_pointer proj m p = (case p of None \<Rightarrow> Some None
     | Some a \<Rightarrow> if a < length m then map_option Some (proj (m ! a)) else None)"

definition reach_pointer :: "('m, 'x) memory \<Rightarrow> addr option \<Rightarrow> addr set" where
  "reach_pointer m p = set_option p"

lemma deep_copy_pointer: "deep_copy copy_pointer (view_pointer proj) reach_pointer"
  by unfold_locales
    (auto simp: copy_pointer_def view_pointer_def reach_pointer_def split: option.splits if_splits)

definition view_slice :: "(('m, 'x) cell \<Rightarrow> 'v list option) \<Rightarrow> ('m, 'x) memory \<Rightarrow> slice \<Rightarrow> 'v list option option" where
  "view_slice proj m s = (case s of None \<Rightarrow> Some None
     | Some (a, n) \<Rightarrow> if a < length m then map_option (\<lambda>xs. Some (take n xs)) (proj (m ! a)) else None)"

definition reach_slice :: "('m, 'x) memory \<Rightarrow> slice \<Rightarrow> addr set" where
  "reach_slice m s = fst ` set_option s"

lemma deep_copy_slice:
  assumes "\<And>n c. proj (first_elements n c) = map_option (take n) (proj c)"
  shows "deep_copy copy_slice (view_slice proj) reach_slice"
  by unfold_locales
    (auto simp: copy_slice_def view_slice_def reach_slice_def assms split: option.splits if_splits)

lemma first_elements_cells:
  "strings_cell (first_elements n c) = map_option (take n) (strings_cell c)"
  "rows_cell (first_elements n c) = map_option (take n) (rows_cell c)"
  "conditions_cell (first_elements n c) = map_option (take n) (conditions_cell c)"
  by (cases c; simp)+

lemmas deep_copy_slices = first_elements_cells [THEN deep_copy_slice]

subsection \<open>The value of a struct\<close>

definition selection_of :: "SelectionPolicy_mem \<Rightarrow> int32 option \<times> int32 option \<Rightarrow> SelectionPolicy" where
  "selection_of s = (\<lambda>(topN, percentage). \<lparr>selMode = memMode s, selTopN = topN, selPercentage = percentage\<rparr>)"

abbreviation selection_fields :: "SelectionPolicy_mem \<Rightarrow> addr option \<times> addr option" where
  "selection_fields s \<equiv> (memTopN s, memPercentage s)"

abbreviation view_selection :: "('m, 'x) memory \<Rightarrow> SelectionPolicy_mem \<Rightarrow> SelectionPolicy option" where
  "view_selection \<equiv> view_fields selection_fields selection_of (view_both (view_pointer int_cell) (view_pointer int_cell))"

abbreviation reach_selection :: "('m, 'x) memory \<Rightarrow> SelectionPolicy_mem \<Rightarrow> addr set" where
  "reach_selection \<equiv> \<lambda>m s. reach_both reach_pointer reach_pointer m (selection_fields s)"

lemma SelectionPolicy_fields:
  "SelectionPolicy_DeepCopyInto = copy_fields selection_fields (\<lambda>s (p, q). s\<lparr>memTopN := p, memPercentage := q\<rparr>)
     (copy_both copy_pointer copy_pointer)"
  by (intro ext) (simp add: SelectionPolicy_DeepCopyInto_def copy_fields_def copy_both_def split: prod.split)

interpretation selection_copy: deep_copy SelectionPolicy_DeepCopyInto view_selection reach_selection
  unfolding SelectionPolicy_fields
  by (intro deep_copy_fields deep_copy_both deep_copy_pointer) (auto simp: selection_of_def fun_eq_iff)

definition spec_of :: "AviatorPolicySpec_mem \<Rightarrow>
    SelectionPolicy \<times> CircuitBreakerSpec option \<times> DampeningSpec option \<times> int32 option \<Rightarrow> AviatorPolicySpec" where
  "spec_of s = (\<lambda>(sel, cb, damp, port). \<lparr>specTargetRef = memTargetRef s, specLatencyThreshold = memLatencyThreshold s,
     specEvaluationInterval = memEvaluationInterval s, specSelection = sel, specCircuitBreaker = cb,
     specDampening = damp, specLatencySource = memLatencySource s, specTargetPort = port\<rparr>)"

abbreviation spec_fields :: "AviatorPolicySpec_mem \<Rightarrow> SelectionPolicy_mem \<times> addr option \<times> addr option \<times> addr option" where
  "spec_fields s \<equiv> (memSelection s, memCircuitBreaker s, memDampening s, memTargetPort s)"

abbreviation view_spec :: "('m, 'x) memory \<Rightarrow> AviatorPolicySpec_mem \<Rightarrow> AviatorPolicySpec option" where
  "view_spec \<equiv> view_fields spec_fields spec_of (view_both view_selection
     (view_both (view_pointer breaker_cell) (view_both (view_pointer dampening_cell) (view_pointer int_cell))))"

abbreviation reach_spec :: "('m, 'x) memory \<Rightarrow> AviatorPolicySpec_mem \<Rightarrow> addr set" where
  "reach_spec \<equiv> \<lambda>m s. reach_both reach_selection (reach_both reach_pointer (reach_both reach_pointer reach_pointer)) m (spec_fields s)"

lemma AviatorPolicySpec_fields:
  "AviatorPolicySpec_DeepCopyInto = copy_fields spec_fields
     (\<lambda>s (sel, cb, damp, port). s\<lparr>memSelection := sel, memCircuitBreaker := cb, memDampening := damp, memTargetPort := port\<rparr>)
     (copy_both SelectionPolicy_DeepCopyInto (copy_both copy_pointer (copy_both copy_pointer copy_pointer)))"
  by (intro ext) (simp add: AviatorPolicySpec_DeepCopyInto_def copy_fields_def copy_both_def split: prod.split)

interpretation spec_copy: deep_copy AviatorPolicySpec_DeepCopyInto view_spec reach_spec
  unfolding AviatorPolicySpec_fields
  by (intro deep_copy_fields deep_copy_both deep_copy_pointer selection_copy.deep_copy_axioms)
    (auto simp: spec_of_def fun_eq_iff)

text \<open>The value of a status also says which of its three slices are nil: the lists of \<open>AviatorPolicyStatus\<close> do not.\<close>

definition elements :: "'a list option \<Rightarrow> 'a list" where
  "elements s = (case s of None \<Rightarrow> [] | Some xs \<Rightarrow> xs)"

type_synonym status_value = "AviatorPolicyStatus \<times> bool \<times> bool \<times> bool"

definition status_of :: "AviatorPolicyStatus_mem \<Rightarrow>
    string list option \<times> PodLatencyInfo list option \<times> Condition list option \<Rightarrow> status_value" where
  "status_of s = (\<lambda>(broken, rows, conds). (\<lparr>lastEvaluationTime = memLastEvaluationTime s, activePods = memActivePods s,
     totalPods = memTotalPods s, averageLatencyMs = memAverageLatencyMs s, p99LatencyMs = memP99LatencyMs s,
     circuitBrokenPods = elements broken, podLatencies = elements rows, conditions = elements conds\<rparr>,
     broken = None, rows = None, conds = None))"

abbreviation status_fields :: "AviatorPolicyStatus_mem \<Rightarrow> slice \<times> slice \<times> slice" where
  "status_fields s \<equiv> (memCircuitBrokenPods s, memPodLatencies s, memConditions s)"

abbreviation view_status :: "('m, 'x) memory \<Rightarrow> AviatorPolicyStatus_mem \<Rightarrow> status_value option" where
  "view_status \<equiv> view_fields status_fields status_of
     (view_both (view_slice strings_cell) (view_both (view_slice rows_cell) (view_slice conditions_cell)))"

abbreviation reach_status :: "('m, 'x) memory \<Rightarrow> AviatorPolicyStatus_mem \<Rightarrow> addr set" where
  "reach_status \<equiv> \<lambda>m s. reach_both reach_slice (reach_both reach_slice reach_slice) m (status_fields s)"

lemma AviatorPolicyStatus_fields:
  "AviatorPolicyStatus_DeepCopyInto = copy_fields status_fields
     (\<lambda>s (broken, rows, conds). s\<lparr>memCircuitBrokenPods := broken, memPodLatencies := rows, memConditions := conds\<rparr>)
     (copy_both copy_slice (copy_both copy_slice copy_slice))"
  by (intro ext) (simp add: AviatorPolicyStatus_DeepCopyInto_def copy_fields_def copy_both_def split: prod.split)

interpretation status_copy: deep_copy AviatorPolicyStatus_DeepCopyInto view_status reach_status
  unfolding AviatorPolicyStatus_fields
  by (intro deep_copy_fields deep_copy_both deep_copy_slices) (auto simp: status_of_def fun_eq_iff)

text \<open>The policy: its type, and the values of its metadata, its spec and its status.\<close>

definition policy_of :: "'m AviatorPolicy_mem \<Rightarrow> 'v \<times> AviatorPolicySpec \<times> status_value
    \<Rightarrow> (string \<times> string) \<times> 'v \<times> AviatorPolicySpec \<times> status_value" where
  "policy_of s v = (memTypeMeta s, v)"

abbreviation policy_fields :: "'m AviatorPolicy_mem \<Rightarrow> 'm \<times> AviatorPolicySpec_mem \<times> AviatorPolicyStatus_mem" where
  "policy_fields s \<equiv> (memObjectMeta s, memSpec s, memStatus s)"

definition view_policy :: "(('m, 'x) memory \<Rightarrow> 'm \<Rightarrow> 'v option) \<Rightarrow> ('m, 'x) memory \<Rightarrow> 'm AviatorPolicy_mem
    \<Rightarrow> ((string \<times> string) \<times> 'v \<times> AviatorPolicySpec \<times> status_value) option" where
  "view_policy view_meta = view_fields policy_fields policy_of (view_both view_meta (view_both view_spec view_status))"

definition reach_policy :: "(('m, 'x) memory \<Rightarrow> 'm \<Rightarrow> addr set) \<Rightarrow> ('m, 'x) memory \<Rightarrow> 'm AviatorPolicy_mem \<Rightarrow> addr set" where
  "reach_policy reach_meta m s = reach_both reach_meta (reach_both reach_spec reach_status) m (policy_fields s)"

lemma AviatorPolicy_fields:
  "AviatorPolicy_DeepCopyInto copy_meta = copy_fields policy_fields
     (\<lambda>s (meta, spec, status). s\<lparr>memObjectMeta := meta, memSpec := spec, memStatus := status\<rparr>)
     (copy_both copy_meta (copy_both AviatorPolicySpec_DeepCopyInto AviatorPolicyStatus_DeepCopyInto))"
  by (intro ext) (simp add: AviatorPolicy_DeepCopyInto_def copy_fields_def copy_both_def split: prod.split)

lemma policy_deep_copy:
  assumes "deep_copy copy_meta view_meta reach_meta"
  shows "deep_copy (AviatorPolicy_DeepCopyInto copy_meta) (view_policy view_meta) (reach_policy reach_meta)"
  unfolding AviatorPolicy_fields view_policy_def reach_policy_def [abs_def]
  by (intro deep_copy_fields deep_copy_both assms spec_copy.deep_copy_axioms status_copy.deep_copy_axioms)
    (auto simp: policy_of_def fun_eq_iff)

lemma policy_object_deep_copy:
  assumes "deep_copy copy_meta view_meta reach_meta"
  shows "deep_copy (AviatorPolicy_DeepCopyObject copy_meta) (view_new (view_policy view_meta)) (reach_new (reach_policy reach_meta))"
proof -
  have "AviatorPolicy_DeepCopyObject copy_meta = new_copy (AviatorPolicy_DeepCopyInto copy_meta)"
    by (intro ext) (simp add: AviatorPolicy_DeepCopyObject_def AviatorPolicy_DeepCopy_def split: prod.split option.split)
  then show ?thesis by (simp add: deep_copy_new [OF policy_deep_copy [OF assms]])
qed

end
