(* ===== verification/Deep_Copy_List.thy ===== *)
theory Deep_Copy_List
  imports Deep_Copy
begin

section \<open>Deep copies of lists of policies\<close>

text \<open>
  \<open>AviatorPolicyList\<close> in \<open>api/v1alpha1/zz_generated.deepcopy.go\<close>: the only copy with a loop, which fills a new array
  with copies of the items, each of which adds to the memory what it points to.
\<close>

subsection \<open>The code\<close>

text \<open>\<open>make\<close> fills the array with zero values; the zero value of the metadata belongs to the API library.\<close>

definition zero_policy :: "'m \<Rightarrow> 'm AviatorPolicy_mem" where
  "zero_policy zero_meta = \<lparr>memTypeMeta = ('''', ''''), memObjectMeta = zero_meta,
     memSpec = \<lparr>memTargetRef = \<lparr>refAPIVersion = '''', refKind = '''', refName = ''''\<rparr>, memLatencyThreshold = 0,
       memEvaluationInterval = 0, memSelection = \<lparr>memMode = '''', memTopN = None, memPercentage = None\<rparr>,
       memCircuitBreaker = None, memDampening = None, memLatencySource = '''', memTargetPort = None\<rparr>,
     memStatus = \<lparr>memLastEvaluationTime = zero_time, memActivePods = 0, memTotalPods = 0, memAverageLatencyMs = 0,
       memP99LatencyMs = 0, memCircuitBrokenPods = None, memPodLatencies = None, memConditions = None\<rparr>\<rparr>"

definition items_at :: "('m, 'x) memory \<Rightarrow> addr \<Rightarrow> 'm AviatorPolicy_mem list" where
  "items_at m a = (case items_cell (m ! a) of Some ps \<Rightarrow> ps | None \<Rightarrow> [])"

text \<open>One turn of the loop: \<open>(*in)[i].DeepCopyInto(&(*out)[i])\<close>.\<close>

definition copy_item :: "('m AviatorPolicy_mem \<Rightarrow> ('m, 'x) memory \<Rightarrow> 'm AviatorPolicy_mem \<times> ('m, 'x) memory)
    \<Rightarrow> addr \<Rightarrow> addr \<Rightarrow> nat \<Rightarrow> ('m, 'x) memory \<Rightarrow> ('m, 'x) memory" where
  "copy_item copy_into from new i m = (case copy_into (items_at m from ! i) m of (p, m') \<Rightarrow>
     m'[new := ItemsCell ((items_at m' new)[i := p])])"

definition copy_items :: "('m AviatorPolicy_mem \<Rightarrow> ('m, 'x) memory \<Rightarrow> 'm AviatorPolicy_mem \<times> ('m, 'x) memory)
    \<Rightarrow> 'm \<Rightarrow> slice \<Rightarrow> ('m, 'x) memory \<Rightarrow> slice \<times> ('m, 'x) memory" where
  "copy_items copy_into zero_meta s m = (case s of None \<Rightarrow> (None, m)
     | Some (a, n) \<Rightarrow>
         (let new = length m; m = m @ [ItemsCell (replicate n (zero_policy zero_meta))]
          in (Some (new, n), fold (copy_item copy_into a new) [0..<n] m)))"

definition AviatorPolicyList_DeepCopyInto :: "('l \<Rightarrow> ('m, 'x) memory \<Rightarrow> 'l \<times> ('m, 'x) memory)
    \<Rightarrow> ('m \<Rightarrow> ('m, 'x) memory \<Rightarrow> 'm \<times> ('m, 'x) memory) \<Rightarrow> 'm
    \<Rightarrow> 'l AviatorPolicyList_mem \<Rightarrow> ('m, 'x) memory \<Rightarrow> 'l AviatorPolicyList_mem \<times> ('m, 'x) memory" where
  "AviatorPolicyList_DeepCopyInto copy_list_meta copy_meta zero_meta l m =
     (let out = l;
          out = out\<lparr>memListTypeMeta := memListTypeMeta l\<rparr>;
          (meta, m) = copy_list_meta (memListMeta l) m; out = out\<lparr>memListMeta := meta\<rparr>;
          (items, m) = copy_items (AviatorPolicy_DeepCopyInto copy_meta) zero_meta (memItems l) m;
          out = out\<lparr>memItems := items\<rparr>
      in (out, m))"

definition AviatorPolicyList_DeepCopy where
  "AviatorPolicyList_DeepCopy copy_list_meta copy_meta zero_meta =
     new_copy (AviatorPolicyList_DeepCopyInto copy_list_meta copy_meta zero_meta)"

definition AviatorPolicyList_DeepCopyObject where
  "AviatorPolicyList_DeepCopyObject copy_list_meta copy_meta zero_meta p m =
     (case AviatorPolicyList_DeepCopy copy_list_meta copy_meta zero_meta p m of
        (None, m') \<Rightarrow> (None, m') | (Some c, m') \<Rightarrow> (Some c, m'))"

subsection \<open>The loop\<close>

text \<open>
  After \<open>i\<close> turns the memory is the one before, the new array and what the copies added; the first \<open>i\<close> elements of
  the array have their values and rest on what was added after the array.
\<close>

definition copied :: "(('m, 'x) memory \<Rightarrow> 'm AviatorPolicy_mem \<Rightarrow> 'v option) \<Rightarrow> (('m, 'x) memory \<Rightarrow> 'm AviatorPolicy_mem \<Rightarrow> addr set)
    \<Rightarrow> ('m, 'x) memory \<Rightarrow> 'v list \<Rightarrow> nat \<Rightarrow> ('m, 'x) memory \<Rightarrow> bool" where
  "copied view reach m0 vs i m \<longleftrightarrow> (\<exists>qs k. m = m0 @ ItemsCell qs # k \<and> length qs = length vs
     \<and> (\<forall>j<i. view m (qs ! j) = Some (vs ! j) \<and> reach m (qs ! j) \<subseteq> {Suc (length m0)..<length m}))"

lemma items_at_old: "a < length m0 \<Longrightarrow> items_at (m0 @ k) a = items_at m0 a"
  by (simp add: items_at_def nth_append)

text \<open>Writing the array does not touch what rests on later addresses.\<close>

lemma array_written:
  assumes "deep_copy c view reach" and "view (m0 @ x # k) q = Some w" and "reach (m0 @ x # k) q \<subseteq> {Suc (length m0)..<u}"
  shows "view (m0 @ y # k) q = Some w \<and> reach (m0 @ y # k) q = reach (m0 @ x # k) q"
proof (rule deep_copy.depends [OF assms(1,2)], rule ballI)
  fix b assume b: "b \<in> reach (m0 @ x # k) q"
  have "b < length (m0 @ x # k)" using deep_copy.allocated [OF assms(1,2)] b by auto
  moreover have "Suc (length m0) \<le> b" using assms(3) b by auto
  ultimately show "b < length (m0 @ y # k) \<and> (m0 @ y # k) ! b = (m0 @ x # k) ! b"
    by (cases "b - length m0") (auto simp: nth_append)
qed

lemma copy_item_copied:
  assumes item: "deep_copy c view reach" and a: "a < length m0"
    and vs: "\<forall>j<length vs. view m0 (items_at m0 a ! j) = Some (vs ! j)"
    and m: "copied view reach m0 vs i m" and i: "i < length vs"
  shows "copied view reach m0 vs (Suc i) (copy_item c a (length m0) i m)"
proof -
  let ?L = "length m0" and ?x = "items_at m0 a ! i"
  obtain qs k where m: "m = m0 @ ItemsCell qs # k" and len: "length qs = length vs"
    and ready: "\<And>j. j < i \<Longrightarrow> view m (qs ! j) = Some (vs ! j) \<and> reach m (qs ! j) \<subseteq> {Suc ?L..<length m}"
    using m unfolding copied_def by blast
  have x: "view m ?x = Some (vs ! i)" using deep_copy.kept [OF item] vs i unfolding m by blast
  obtain p m' where run: "c ?x m = (p, m')" by fastforce
  obtain k' where m': "m' = m @ k'" using deep_copy.extends [OF item x run] by blast
  have p: "view m' p = Some (vs ! i)" "reach m' p \<subseteq> {length m..<length m'}"
    using deep_copy.copies_value [OF item x run] deep_copy.fresh [OF item x run] by blast+
  have array: "m' = m0 @ ItemsCell qs # (k @ k')" using m m' by simp
  let ?m = "m0 @ ItemsCell (qs[i := p]) # (k @ k')"
  have written: "copy_item c a ?L i m = ?m"
    using run a by (simp add: copy_item_def m items_at_old) (simp add: array items_at_def)
  have later: "view ?m q = Some w \<and> reach ?m q \<subseteq> {Suc ?L..<length ?m}"
    if "view m' q = Some w" "reach m' q \<subseteq> {Suc ?L..<length m'}" for q w
    using array_written [OF item that [unfolded array], of "ItemsCell (qs[i := p])"] that(2) unfolding array by simp
  have "view ?m (qs[i := p] ! j) = Some (vs ! j) \<and> reach ?m (qs[i := p] ! j) \<subseteq> {Suc ?L..<length ?m}" if j: "j < Suc i" for j
  proof (cases "j = i")
    case True
    have "Suc ?L \<le> length m" by (simp add: m)
    with p(2) have "reach m' p \<subseteq> {Suc ?L..<length m'}" by fastforce
    from later [OF p(1) this] show ?thesis using True i len by simp
  next
    case False
    then have q: "view m (qs ! j) = Some (vs ! j)" "reach m (qs ! j) \<subseteq> {Suc ?L..<length m}" using ready [of j] j by simp_all
    have "length m \<le> length m'" by (simp add: m')
    with deep_copy.kept [OF item q(1), of k', folded m'] q(2)
    have "view m' (qs ! j) = Some (vs ! j)" "reach m' (qs ! j) \<subseteq> {Suc ?L..<length m'}" by fastforce+
    from later [OF this] show ?thesis using False by simp
  qed
  then show ?thesis unfolding copied_def written using len by (intro exI [of _ "qs[i := p]"] exI [of _ "k @ k'"]) simp
qed

lemma copy_loop:
  assumes "deep_copy c view reach" and "a < length m0" and "\<forall>j<length vs. view m0 (items_at m0 a ! j) = Some (vs ! j)"
    and "length qs = length vs" and "i \<le> length vs"
  shows "copied view reach m0 vs i (fold (copy_item c a (length m0)) [0..<i] (m0 @ [ItemsCell qs]))"
  using assms(5)
proof (induction i)
  case 0
  show ?case using assms(4) by (simp add: copied_def)
next
  case (Suc i)
  then show ?case using copy_item_copied [OF assms(1-3)] by simp
qed

subsection \<open>The contract of the items\<close>

definition view_items :: "(('m, 'x) memory \<Rightarrow> 'm AviatorPolicy_mem \<Rightarrow> 'v option) \<Rightarrow> ('m, 'x) memory \<Rightarrow> slice \<Rightarrow> 'v list option option" where
  "view_items view m s = (case s of None \<Rightarrow> Some None
     | Some (a, n) \<Rightarrow>
         if a < length m \<and> items_cell (m ! a) \<noteq> None \<and> n \<le> length (items_at m a)
         then map_option Some (those (map (view m) (take n (items_at m a)))) else None)"

definition reach_items :: "(('m, 'x) memory \<Rightarrow> 'm AviatorPolicy_mem \<Rightarrow> addr set) \<Rightarrow> ('m, 'x) memory \<Rightarrow> slice \<Rightarrow> addr set" where
  "reach_items reach m s = (case s of None \<Rightarrow> {} | Some (a, n) \<Rightarrow> insert a (\<Union>p\<in>set (take n (items_at m a)). reach m p))"

lemma those_Some: "those xs = Some ys \<longleftrightarrow> xs = map Some ys"
proof (induction xs arbitrary: ys)
  case (Cons x xs)
  then show ?case by (cases ys; cases x) auto
qed auto

lemma view_items_None: "view_items view m None = Some v \<longleftrightarrow> v = None"
  by (auto simp: view_items_def)

lemma view_items_Some: "view_items view m (Some (a, n)) = Some (Some vs) \<longleftrightarrow> a < length m \<and> items_cell (m ! a) \<noteq> None
    \<and> n \<le> length (items_at m a) \<and> length vs = n \<and> (\<forall>j<n. view m (items_at m a ! j) = Some (vs ! j))"
  by (auto simp: view_items_def those_Some list_eq_iff_nth_eq)

lemma view_items_array:
  assumes "view_items view m (Some (a, n)) = Some v"
  obtains vs where "v = Some vs" and "view_items view m (Some (a, n)) = Some (Some vs)"
  using assms by (auto simp: view_items_def split: if_splits)

lemma reach_items_Some:
  "n \<le> length (items_at m a) \<Longrightarrow> reach_items reach m (Some (a, n)) = insert a (\<Union>j<n. reach m (items_at m a ! j))"
proof -
  assume n: "n \<le> length (items_at m a)"
  then have "set (take n (items_at m a)) = (!) (items_at m a) ` {0..<n}" by (simp add: nth_image)
  then show ?thesis by (simp add: reach_items_def atLeast0LessThan)
qed

lemma deep_copy_items:
  assumes "deep_copy c view reach"
  shows "deep_copy (copy_items c zero_meta) (view_items view) (reach_items reach)"
proof
  fix m s y m' v
  assume v: "view_items view m s = Some v" and run: "copy_items c zero_meta s m = (y, m')"
  show "view_items view m' y = Some v" "\<exists>k. m' = m @ k" "reach_items reach m' y \<subseteq> {length m..<length m'}"
  proof (atomize (full), cases s)
    case None
    with v run show "view_items view m' y = Some v \<and> (\<exists>k. m' = m @ k) \<and> reach_items reach m' y \<subseteq> {length m..<length m'}"
      by (simp add: copy_items_def view_items_def reach_items_def)
  next
    case (Some an)
    obtain a n where s: "s = Some (a, n)" using Some by (cases an) simp
    obtain vs where vs: "v = Some vs" "view_items view m (Some (a, n)) = Some (Some vs)"
      using v unfolding s by (rule view_items_array)
    note facts = vs(2) [unfolded view_items_Some]
    have y: "y = Some (length m, n)"
      and m': "m' = fold (copy_item c a (length m)) [0..<n] (m @ [ItemsCell (replicate n (zero_policy zero_meta))])"
      using run by (simp_all add: copy_items_def s Let_def)
    have "copied view reach m vs n m'"
      unfolding m' by (rule copy_loop [OF assms]) (use facts in simp_all)
    then obtain qs k where q: "m' = m @ ItemsCell qs # k" "length qs = n"
      "\<forall>j<n. view m' (qs ! j) = Some (vs ! j) \<and> reach m' (qs ! j) \<subseteq> {Suc (length m)..<length m'}"
      using facts unfolding copied_def by auto
    have items: "items_at m' (length m) = qs" "items_cell (m' ! length m) = Some qs" "length m < length m'"
      by (simp_all add: q(1) items_at_def)
    have "view_items view m' y = Some v" unfolding y vs(1) view_items_Some using items q(2,3) facts by simp
    moreover have "reach_items reach m' y \<subseteq> {length m..<length m'}"
      unfolding y using items q(2,3) by (subst reach_items_Some) (force+)
    ultimately show "view_items view m' y = Some v \<and> (\<exists>k. m' = m @ k) \<and> reach_items reach m' y \<subseteq> {length m..<length m'}"
      using q(1) by blast
  qed
next
  fix m s v
  assume v: "view_items view m s = Some v"
  show "reach_items reach m s \<subseteq> {..<length m}"
  proof (cases s)
    case (Some an)
    obtain a n where s: "s = Some (a, n)" using Some by (cases an) simp
    obtain vs where vs: "v = Some vs" "view_items view m (Some (a, n)) = Some (Some vs)"
      using v unfolding s by (rule view_items_array)
    note facts = vs(2) [unfolded view_items_Some]
    have "reach m (items_at m a ! j) \<subseteq> {..<length m}" if "j < n" for j
      by (rule deep_copy.allocated [OF assms]) (use facts that in blast)
    with facts show ?thesis unfolding s by (subst reach_items_Some) auto
  qed (simp add: reach_items_def)
  show "view_items view m' s = Some v \<and> reach_items reach m' s = reach_items reach m s"
    if same: "\<forall>a\<in>reach_items reach m s. a < length m' \<and> m' ! a = m ! a" for m'
  proof (cases s)
    case None
    with v show ?thesis by (simp add: view_items_def reach_items_def)
  next
    case (Some an)
    obtain a n where s: "s = Some (a, n)" using Some by (cases an) simp
    obtain vs where vs: "v = Some vs" "view_items view m (Some (a, n)) = Some (Some vs)"
      using v unfolding s by (rule view_items_array)
    note facts = vs(2) [unfolded view_items_Some]
    have reached: "reach_items reach m s = insert a (\<Union>j<n. reach m (items_at m a ! j))"
      unfolding s by (rule reach_items_Some) (use facts in blast)
    have cell: "a < length m'" "m' ! a = m ! a" using same unfolding reached by simp_all
    then have items: "items_at m' a = items_at m a" by (simp add: items_at_def)
    have each: "view m' (items_at m a ! j) = Some (vs ! j) \<and> reach m' (items_at m a ! j) = reach m (items_at m a ! j)"
      if "j < n" for j
      by (rule deep_copy.depends [OF assms]) (use facts same that in \<open>auto simp: reached\<close>)
    have "reach_items reach m' s = insert a (\<Union>j<n. reach m' (items_at m' a ! j))"
      unfolding s by (rule reach_items_Some) (use facts items in simp)
    also have "\<dots> = reach_items reach m s" unfolding reached items using each by auto
    finally have "reach_items reach m' s = reach_items reach m s" .
    moreover have "view_items view m' s = Some v" unfolding s vs(1) view_items_Some items cell(2) using facts each cell(1) by blast
    ultimately show ?thesis by blast
  qed
qed

subsection \<open>Copies are independent\<close>

definition list_of :: "'l AviatorPolicyList_mem \<Rightarrow> 'v \<times> 'p list option \<Rightarrow> (string \<times> string) \<times> 'v \<times> 'p list option" where
  "list_of l v = (memListTypeMeta l, v)"

abbreviation list_fields :: "'l AviatorPolicyList_mem \<Rightarrow> 'l \<times> slice" where
  "list_fields l \<equiv> (memListMeta l, memItems l)"

definition view_list where
  "view_list view_list_meta view_meta = view_fields list_fields list_of (view_both view_list_meta (view_items (view_policy view_meta)))"

definition reach_list where
  "reach_list reach_list_meta reach_meta m l = reach_both reach_list_meta (reach_items (reach_policy reach_meta)) m (list_fields l)"

lemma AviatorPolicyList_fields:
  "AviatorPolicyList_DeepCopyInto copy_list_meta copy_meta zero_meta = copy_fields list_fields
     (\<lambda>l (meta, items). l\<lparr>memListMeta := meta, memItems := items\<rparr>)
     (copy_both copy_list_meta (copy_items (AviatorPolicy_DeepCopyInto copy_meta) zero_meta))"
  by (intro ext) (simp add: AviatorPolicyList_DeepCopyInto_def copy_fields_def copy_both_def split: prod.split)

lemma list_deep_copy:
  assumes "deep_copy copy_list_meta view_list_meta reach_list_meta" and "deep_copy copy_meta view_meta reach_meta"
  shows "deep_copy (AviatorPolicyList_DeepCopyInto copy_list_meta copy_meta zero_meta)
    (view_list view_list_meta view_meta) (reach_list reach_list_meta reach_meta)"
  unfolding AviatorPolicyList_fields view_list_def reach_list_def [abs_def]
  by (intro deep_copy_fields deep_copy_both assms(1) deep_copy_items policy_deep_copy assms(2))
    (auto simp: list_of_def fun_eq_iff)

lemma list_object_deep_copy:
  assumes "deep_copy copy_list_meta view_list_meta reach_list_meta" and "deep_copy copy_meta view_meta reach_meta"
  shows "deep_copy (AviatorPolicyList_DeepCopyObject copy_list_meta copy_meta zero_meta)
    (view_new (view_list view_list_meta view_meta)) (reach_new (reach_list reach_list_meta reach_meta))"
proof -
  have "AviatorPolicyList_DeepCopyObject copy_list_meta copy_meta zero_meta
      = new_copy (AviatorPolicyList_DeepCopyInto copy_list_meta copy_meta zero_meta)"
    by (intro ext) (simp add: AviatorPolicyList_DeepCopyObject_def AviatorPolicyList_DeepCopy_def split: prod.split option.split)
  then show ?thesis by (simp add: deep_copy_new [OF list_deep_copy [OF assms]])
qed

text \<open>
  The copy has the value of the original, a nil slice where the original has one, and whatever is written to an address one of the two rests on, the other
  keeps its value.
\<close>

definition independent_copies where
  "independent_copies copy view reach \<longleftrightarrow> (\<forall>m x v y m'. view m x = Some v \<longrightarrow> copy x m = (y, m') \<longrightarrow> view m' y = Some v
     \<and> (\<forall>a\<in>reach m' y. \<forall>c. view (m'[a := c]) x = Some v) \<and> (\<forall>a\<in>reach m x. \<forall>c. view (m'[a := c]) y = Some v))"

lemma deep_copy_independent_copies: "deep_copy copy view reach \<Longrightarrow> independent_copies copy view reach"
  unfolding independent_copies_def
  by (intro allI impI conjI ballI)
    (erule (2) deep_copy.copies_value deep_copy.original_unaffected deep_copy.copy_unaffected, (assumption)?)+

text \<open>
  (C39) Deep copies of policies and of lists of policies are independent of the original: they have its value
  and share no memory with it. Whatever is written to an address the copy rests on, the original keeps its
  value, and the other way round; provided the copies of the metadata, which belong to the API library, are deep.
\<close>

theorem deep_copy_independent:
  assumes "deep_copy copy_meta view_meta reach_meta" and "deep_copy copy_list_meta view_list_meta reach_list_meta"
  shows "independent_copies (AviatorPolicy_DeepCopyObject copy_meta) (view_new (view_policy view_meta))
      (reach_new (reach_policy reach_meta))
    \<and> independent_copies (AviatorPolicyList_DeepCopyObject copy_list_meta copy_meta zero_meta)
      (view_new (view_list view_list_meta view_meta)) (reach_new (reach_list reach_list_meta reach_meta))"
  using deep_copy_independent_copies [OF policy_object_deep_copy [OF assms(1)]]
    deep_copy_independent_copies [OF list_object_deep_copy [OF assms(2,1)]] by blast

text \<open>A list of one policy with a limit and a finalizer; its metadata is the slice of its finalizers.\<close>

definition demo_policy_mem :: "slice AviatorPolicy_mem" where
  "demo_policy_mem = (zero_policy (Some (1, 1)))\<lparr>memSpec := (memSpec (zero_policy (None :: slice)))\<lparr>memSelection :=
     \<lparr>memMode = ''topN'', memTopN = Some 0, memPercentage = None\<rparr>\<rparr>\<rparr>"

definition demo_memory :: "(slice, unit) memory" where
  "demo_memory = [IntCell 3, StringsCell [''aviator.io/finalizer''], ItemsCell [demo_policy_mem]]"

definition demo_list_mem :: "slice AviatorPolicyList_mem" where
  "demo_list_mem = \<lparr>memListTypeMeta = (''aviator.example.com/v1alpha1'', ''AviatorPolicyList''), memListMeta = None,
     memItems = Some (2, 1)\<rparr>"

theorem deep_copy_independent_witness:
  "\<exists>v q m'. view_new (view_list (view_slice strings_cell) (view_slice strings_cell)) demo_memory (Some demo_list_mem) = Some v
     \<and> AviatorPolicyList_DeepCopyObject copy_slice copy_slice None (Some demo_list_mem) demo_memory = (q, m')
     \<and> view_new (view_list (view_slice strings_cell) (view_slice strings_cell)) (m'[0 := IntCell 5]) q = Some v"
proof -
  let ?view = "view_new (view_list (view_slice strings_cell) (view_slice strings_cell))"
  obtain q m' where run: "AviatorPolicyList_DeepCopyObject copy_slice copy_slice None (Some demo_list_mem) demo_memory = (q, m')"
    by fastforce
  have "?view demo_memory (Some demo_list_mem) \<noteq> None"
    by (simp add: view_new_def view_list_def view_policy_def view_fields_def view_both_def view_pointer_def view_slice_def
        view_items_def items_at_def demo_memory_def demo_list_mem_def demo_policy_mem_def zero_policy_def)
  then obtain v where v: "?view demo_memory (Some demo_list_mem) = Some v" by blast
  have "0 \<in> reach_new (reach_list reach_slice reach_slice) demo_memory (Some demo_list_mem)"
    by (simp add: reach_new_def reach_list_def reach_policy_def reach_both_def reach_pointer_def reach_slice_def reach_items_def
        items_at_def demo_memory_def demo_list_mem_def demo_policy_mem_def zero_policy_def)
  with conjunct2 [OF deep_copy_independent [OF deep_copy_slices(1) deep_copy_slices(1)]] run v show ?thesis
    unfolding independent_copies_def by blast
qed

end
