(* ===== verification/Spec2Isabelle.thy ===== *)
theory Spec2Isabelle
  imports Circuit_Breaker Aggregator Dampening_Thresholds Probe_Source Ebpf_Source Collector Slice_Properties
    Routing Failed_Update Agent_Process Controller_Main Default_Controller Deep_Copy_List
begin

text \<open>
  Aviator routes the traffic of a Kubernetes Service to its fastest pods. This development models the Go code
  of both its processes and proves what makes each part correct.

  \<^bold>\<open>The program.\<close> On every node an \<^emph>\<open>agent\<close> (\<open>cmd/agent/main.go\<close>, \<open>internal/ebpf\<close>) loads eBPF probes, reads the
  latency events they put into a ring buffer, keeps the last samples of every pod and serves statistics over
  HTTP. The \<^emph>\<open>controller\<close> (\<open>cmd/main.go\<close>, \<open>internal/controller\<close>) evaluates each \<open>AviatorPolicy\<close> at an interval:
  it lists the running pods of the Service, asks a latency source (\<open>internal/latency\<close>: the agents, or its own HTTP
  probes) for their statistics, ranks them, drops those the circuit breaker (\<open>internal/circuitbreaker\<close>) has
  ejected, selects the fastest, suppresses small changes (dampening) and writes the selection to an EndpointSlice
  (\<open>internal/endpointslice\<close>); then it reports in the status of the policy.

  \<^bold>\<open>Theories and sources.\<close>
  \<^item> \<open>Go_Prelude\<close>, \<open>Go_Float64\<close>, \<open>Sorting_Contract\<close>: what the code uses of Go. Integers are words of their width
    (\<open>go_int\<close>, wrapping, read by \<open>sval\<close>), \<open>float64\<close> is a correctly rounded rational, maps are association lists
    whose iteration order the runtime chooses, unstable sorting is any sorted rearrangement, a panic is \<open>None\<close>.
    State is passed by the state monad: the clock, the choices of the runtime, and the world outside.
  \<^item> \<open>Ejector\<close>, \<open>Circuit_Breaker\<close>: \<open>internal/circuitbreaker/circuitbreaker.go\<close>.
  \<^item> \<open>Latency_Types\<close>, \<open>Source_Interface\<close>: \<open>internal/latency/source.go\<close>, with the contract both sources keep.
  \<^item> \<open>Aggregator\<close>, \<open>Dampening\<close>, \<open>Dampening_Thresholds\<close>: \<open>internal/latency/aggregator.go\<close>.
  \<^item> \<open>Goroutines\<close>, \<open>Http\<close>, \<open>Probe_Source\<close>, \<open>Ebpf_Source\<close>: \<open>internal/latency/probe_source.go\<close> and \<open>ebpf_source.go\<close>; one
    goroutine per pod or agent, interleaved in every way; responses are decoded from JSON.
  \<^item> \<open>Latency_Event\<close>, \<open>Collector\<close>, \<open>Loader\<close>: \<open>internal/ebpf/collector.go\<close> and \<open>loader.go\<close>, with the event struct of
    \<open>internal/ebpf/bpf/tcp_latency.c\<close>.
  \<^item> \<open>Agent\<close>, \<open>Agent_Process\<close>: \<open>cmd/agent/main.go\<close>, its handlers and its \<open>main\<close>.
  \<^item> \<open>Api_Types\<close>, \<open>Endpoint_Slice\<close>: \<open>api/v1alpha1/aviatorpolicy_types.go\<close>, \<open>internal/endpointslice/manager.go\<close>.
  \<^item> \<open>Deep_Copy\<close>, \<open>Deep_Copy_List\<close>: \<open>api/v1alpha1/zz_generated.deepcopy.go\<close>, over an explicit memory with the pointers and
    slices of the types; everywhere else API objects are values.
  \<^item> \<open>Reconciler\<close>: \<open>internal/controller/aviatorpolicy_controller.go\<close>, one definition per step of \<open>Reconcile\<close>;
    \<open>World_Effects\<close>, \<open>Reconciler_Steps\<close>, \<open>Evaluation\<close> hold what each step does, \<open>Reconciler_Properties\<close>,
    \<open>Policy_Lifecycle\<close>, \<open>Slice_Properties\<close> what a whole run may and may not do, \<open>Routing\<close> when it routes, \<open>Failed_Update\<close>
    what becomes of a selection that could not be written.
  \<^item> \<open>Controller_Main\<close>: \<open>cmd/main.go\<close> and \<open>SetupWithManager\<close>; \<open>Default_Controller\<close>: the process with its default flags.
  \<^item> \<open>Example_Cluster\<close>: an API server in memory with injected faults and a cache that may lag behind it, for which the laws
    asked of a client hold.

  \<^bold>\<open>Interfaces.\<close> The locales \<open>ejector\<close>, \<open>sorter\<close>, \<open>selector\<close>, \<open>latency_source\<close>, \<open>goroutine\<close>, \<open>slice_store\<close> and \<open>deep_copy\<close> state what
  one part relies on of another; each is interpreted on the model's own definitions, where its laws are proved; the API server
  that keeps those of \<open>slice_store\<close>, which is not part of the repository, is that of \<open>Example_Cluster\<close>. The controller reads
  from a cache, so the laws of \<open>slice_store\<close> do not say that a slice read, or found missing, is what is stored: only that
  a create succeeds where nothing is stored and an update where the stored slice has the version it was read with.

  \<^bold>\<open>Results, by group.\<close> Circuit breaker: the state machine with the guard of every edge, when pods are ejected and for
  how long. Ranking and dampening: selections are the fastest prefix, percentiles and means are exact, what dampening
  suppresses, and at which thresholds its arithmetic rounds a change away. Sources: every round ends, with bounded figures for exactly the requested pods, in every
  interleaving. Events and collector: the round trip of the bytes, the window of samples, percentiles within bounds.
  Agent: handles are given back, the reading loop records every event, and each answer, decoded by the
  source, reports exactly the events read so far. Reconciler: it never panics, touches one slice, routes only
  to measured pods, none of them ejected unless all are, does route when it can, is run again unless the Service is
  missing, does not retry a write that failed while dampening is on, and cleans up before it lets a policy go. Controller
  process: how it starts and ends, what its servers offer, what its watch on slices is worth, that it never routes with its
  default flags. API objects: a deep copy, of a list of policies too, shares no memory with the original.

  \<^bold>\<open>Bounds.\<close> Lists that the code indexes with \<open>int\<close> arithmetic are shorter than \<open>2 ^ 32\<close> (\<open>fleet_sized\<close>), sample lists
  shorter than \<open>2 ^ 53\<close> (implied by the window of ten thousand); clocks do not go back where the code
  measures durations. A goroutine gets as many turns as its code has steps. There is no fuel: the
  reading loop of the agent, which may run for ever, is a partial function, and it is proved when it returns.

  \<^bold>\<open>Parameters.\<close> The client of the API server, the HTTP client, the eBPF library with the operating system, the helpers of
  \<open>apimachinery\<close> and \<open>controllerutil\<close> (\<open>k8s_lib\<close>), the manager of controller-runtime, and the text of times in JSON.

  \<^bold>\<open>Not modelled.\<close> Parsing of command lines and logging; the scheme registration (\<open>groupversion_info.go\<close> and the two
  \<open>init\<close> functions), which hands constants to libraries and has no operation of its own; the eBPF program apart from
  the layout of its event; manifests and RBAC; what the garbage collector finalizes; test code.
\<close>

end
